(* ===== verification/Errors.thy ===== *)
theory Errors
  imports Main
begin

text \<open>
  The error values of \<^verbatim>\<open>buffer/error.go\<close> and \<^verbatim>\<open>objstore/objstore.go\<close>.  A sentinel
  is a constructor; \<^verbatim>\<open>fmt.Errorf("%w: %s", base, msg)\<close> is \<open>Wrapf base msg\<close>,
  \<^verbatim>\<open>fmt.Errorf("msg: %w", err)\<close> is \<open>Prefixf msg err\<close>, and
  \<^verbatim>\<open>errors.Is\<close> walks the wrapping chain.  \<open>OtherErr\<close> is an error whose only content is
  its message: one made by \<^verbatim>\<open>fmt.Errorf\<close> without \<^verbatim>\<open>%w\<close> or by an external client.
\<close>

datatype gerror =
    ErrStorage
  | ErrSerialization
  | ErrInvalidInput
  | ErrFenced
  | ErrShutdown
  | ErrProducerHalted
  | ErrNotFound
  | ErrPreconditionFailed
  | ContextCanceled
  | ContextDeadlineExceeded
  | OtherErr string
  | Wrapf gerror string
  | Prefixf string gerror

fun Error_msg :: "gerror \<Rightarrow> string" where
  "Error_msg ErrStorage = ''storage error''"
| "Error_msg ErrSerialization = ''serialization error''"
| "Error_msg ErrInvalidInput = ''invalid input''"
| "Error_msg ErrFenced = ''consumer fenced: epoch mismatch''"
| "Error_msg ErrShutdown = ''buffer shut down''"
| "Error_msg ErrProducerHalted = ''producer halted''"
| "Error_msg ErrNotFound = ''object not found''"
| "Error_msg ErrPreconditionFailed = ''precondition failed''"
| "Error_msg ContextCanceled = ''context canceled''"
| "Error_msg ContextDeadlineExceeded = ''context deadline exceeded''"
| "Error_msg (OtherErr m) = m"
| "Error_msg (Wrapf e m) = Error_msg e @ '': '' @ m"
| "Error_msg (Prefixf m e) = m @ '': '' @ Error_msg e"

fun errors_Is :: "gerror \<Rightarrow> gerror \<Rightarrow> bool" where
  "errors_Is (Wrapf e m) t = (Wrapf e m = t \<or> errors_Is e t)"
| "errors_Is (Prefixf m e) t = (Prefixf m e = t \<or> errors_Is e t)"
| "errors_Is e t = (e = t)"

definition storageErr :: "string \<Rightarrow> gerror" where
  "storageErr msg = Wrapf ErrStorage msg"

definition serializationErr :: "string \<Rightarrow> gerror" where
  "serializationErr msg = Wrapf ErrSerialization msg"

definition invalidInputErr :: "string \<Rightarrow> gerror" where
  "invalidInputErr msg = Wrapf ErrInvalidInput msg"

lemma errors_Is_refl [simp]: "errors_Is e e"
  by (cases e) auto

lemma errors_Is_constructors [simp]:
  "errors_Is (storageErr m) t \<longleftrightarrow> t = Wrapf ErrStorage m \<or> t = ErrStorage"
  "errors_Is (serializationErr m) t \<longleftrightarrow> t = Wrapf ErrSerialization m \<or> t = ErrSerialization"
  "errors_Is (invalidInputErr m) t \<longleftrightarrow> t = Wrapf ErrInvalidInput m \<or> t = ErrInvalidInput"
  by (auto simp: storageErr_def serializationErr_def invalidInputErr_def)

lemmas wrapped_errors = storageErr_def serializationErr_def invalidInputErr_def

end
