(* ===== verification/Prelude.thy ===== *)
theory Prelude
  imports Errors "HOL-Library.Word"
begin

text \<open>
  Shared vocabulary of the development: bytes and machine words, the outcome of a Go call
  (a value, an error or a run-time panic), slice expressions, the little-endian integer
  codec of \<^verbatim>\<open>encoding/binary\<close> and the number formats of \<^verbatim>\<open>fmt\<close> that the
  sources use, together with the lemmas on them that every component needs.
\<close>

unbundle bit_operations_syntax

named_theorems codec_simps \<open>equations that carry the encode/decode proofs\<close>
named_theorems outcome_simps \<open>inversion of the outcome combinators\<close>

section \<open>Bytes, words and outcomes\<close>

type_synonym byte = "8 word"
type_synonym bytes = "byte list"
type_synonym u16 = "16 word"
type_synonym u32 = "32 word"
type_synonym u64 = "64 word"

text \<open>
  The result of a call that may return an error or panic.  A Go function of result type
  \<^verbatim>\<open>(T, error)\<close> returns \<open>Ok v\<close> for \<^verbatim>\<open>(v, nil)\<close> and \<open>Err e\<close> for
  \<^verbatim>\<open>(_, e)\<close>; \<open>Panic\<close> is a run-time panic (an index or slice bound out of range,
  a send on a closed channel).
\<close>

datatype 'a res = Ok 'a | Err gerror | Panic

fun obind :: "'a res \<Rightarrow> ('a \<Rightarrow> 'b res) \<Rightarrow> 'b res" where
  "obind (Ok a) f = f a"
| "obind (Err e) f = Err e"
| "obind Panic f = Panic"

lemma obind_Ok_conv [outcome_simps]:
  "obind x f = Ok b \<longleftrightarrow> (\<exists>a. x = Ok a \<and> f a = Ok b)"
  by (cases x) auto

lemma obind_Panic_conv [outcome_simps]:
  "obind x f = Panic \<longleftrightarrow> x = Panic \<or> (\<exists>a. x = Ok a \<and> f a = Panic)"
  by (cases x) auto

lemma obind_Err_conv [outcome_simps]:
  "obind x f = Err e \<longleftrightarrow> x = Err e \<or> (\<exists>a. x = Ok a \<and> f a = Err e)"
  by (cases x) auto

lemma obind_cong [fundef_cong]:
  "x = y \<Longrightarrow> (\<And>a. y = Ok a \<Longrightarrow> f a = g a) \<Longrightarrow> obind x f = obind y g"
  by (cases y) auto

section \<open>Slice expressions\<close>

text \<open>
  \<^verbatim>\<open>d[a:b]\<close>.  Go checks \<^verbatim>\<open>0 <= a <= b <= cap(d)\<close>; the model panics already past
  \<^verbatim>\<open>len(d)\<close>, so a proof that no slice of the model panics shows that the code never
  reads beyond the bytes it was given.
\<close>

definition slice :: "bytes \<Rightarrow> int \<Rightarrow> int \<Rightarrow> bytes res" where
  "slice d a b =
     (if 0 \<le> a \<and> a \<le> b \<and> b \<le> int (length d)
      then Ok (take (nat (b - a)) (drop (nat a) d)) else Panic)"

lemma slice_ok: "0 \<le> a \<Longrightarrow> a \<le> b \<Longrightarrow> b \<le> int (length d) \<Longrightarrow>
    slice d a b = Ok (take (nat (b - a)) (drop (nat a) d))"
  by (simp add: slice_def)

lemma slice_Ok_length: "slice d a b = Ok x \<Longrightarrow> length x = nat (b - a)"
  by (auto simp: slice_def split: if_splits)

lemma slice_mid [codec_simps]:
  assumes "a = int (length pre)" and "b = int (length pre) + int (length xs)"
  shows "slice (pre @ xs @ post) a b = Ok xs"
  using assms by (simp add: slice_def)

text \<open>
  A decoder's position: \<open>cursor d off rest\<close> says that \<open>rest\<close> is what is left of \<open>d\<close>
  from offset \<open>off\<close> on.  Reading a known prefix of the rest moves the cursor past it.
\<close>

definition cursor :: "bytes \<Rightarrow> int \<Rightarrow> bytes \<Rightarrow> bool" where
  "cursor d off rest \<longleftrightarrow> 0 \<le> off \<and> off \<le> int (length d) \<and> drop (nat off) d = rest"

lemma cursor_start: "cursor d 0 d"
  by (simp add: cursor_def)

lemma cursor_length: "cursor d off rest \<Longrightarrow> int (length d) = off + int (length rest)"
  by (auto simp: cursor_def)

lemma cursor_slice:
  assumes "cursor d off (xs @ rest)" and "n = int (length xs)"
  shows "slice d off (off + n) = Ok xs"
  using assms cursor_length [OF assms(1)] by (simp add: cursor_def slice_def)

lemma cursor_advance:
  assumes "cursor d off (xs @ rest)" and "n = int (length xs)"
  shows "cursor d (off + n) rest"
proof -
  have "drop (length xs) (drop (nat off) d) = rest" using assms by (simp add: cursor_def)
  then have "drop (nat off + length xs) d = rest" by (simp add: add.commute)
  then show ?thesis
    using assms cursor_length [OF assms(1)] by (simp add: cursor_def nat_add_distrib)
qed

section \<open>Little-endian integers\<close>

text \<open>
  \<^verbatim>\<open>binary.LittleEndian\<close>: \<^verbatim>\<open>AppendUintN\<close> appends the low byte first,
  \<^verbatim>\<open>UintN\<close> reads \<^verbatim>\<open>N/8\<close> bytes and panics when the slice is shorter.
\<close>

fun le_bytes :: "nat \<Rightarrow> 'a::len word \<Rightarrow> bytes" where
  "le_bytes 0 w = []"
| "le_bytes (Suc n) w = ucast w # le_bytes n (drop_bit 8 w)"

fun le_word :: "bytes \<Rightarrow> 'a::len word" where
  "le_word [] = 0"
| "le_word (b # bs) = ucast b OR push_bit 8 (le_word bs)"

definition AppendUint16 :: "bytes \<Rightarrow> u16 \<Rightarrow> bytes" where
  "AppendUint16 buf v = buf @ le_bytes 2 v"

definition AppendUint32 :: "bytes \<Rightarrow> u32 \<Rightarrow> bytes" where
  "AppendUint32 buf v = buf @ le_bytes 4 v"

definition AppendUint64 :: "bytes \<Rightarrow> u64 \<Rightarrow> bytes" where
  "AppendUint64 buf v = buf @ le_bytes 8 v"

definition Uint16 :: "bytes \<Rightarrow> u16 res" where
  "Uint16 b = (if length b < 2 then Panic else Ok (le_word (take 2 b)))"

definition Uint32 :: "bytes \<Rightarrow> u32 res" where
  "Uint32 b = (if length b < 4 then Panic else Ok (le_word (take 4 b)))"

definition Uint64 :: "bytes \<Rightarrow> u64 res" where
  "Uint64 b = (if length b < 8 then Panic else Ok (le_word (take 8 b)))"

lemma length_le_bytes [simp]: "length (le_bytes n w) = n"
  by (induction n arbitrary: w) auto

lemma le_bytes_Nil_iff [simp]: "le_bytes n w = [] \<longleftrightarrow> n = 0"
  by (cases n) auto

lemma bit_le_word_le_bytes:
  "bit (le_word (le_bytes n (w :: 'a::len word)) :: 'a word) i \<longleftrightarrow> i < 8 * n \<and> bit w i"
proof (induction n arbitrary: w i)
  case 0
  then show ?case by simp
next
  case (Suc n)
  show ?case
  proof (cases "i < 8")
    case True
    then show ?thesis
      by (auto simp: bit_simps dest: bit_imp_le_length)
  next
    case False
    then have "bit (le_word (le_bytes (Suc n) w) :: 'a word) i \<longleftrightarrow>
        i < LENGTH('a) \<and> bit (le_word (le_bytes n (drop_bit 8 w)) :: 'a word) (i - 8)"
      by (auto simp: bit_simps dest: bit_imp_le_length)
    also have "\<dots> \<longleftrightarrow> i < LENGTH('a) \<and> i - 8 < 8 * n \<and> bit (drop_bit 8 w) (i - 8)"
      by (simp only: Suc.IH)
    also have "\<dots> \<longleftrightarrow> i < 8 * Suc n \<and> bit w i"
      using False by (auto simp: bit_simps dest: bit_imp_le_length)
    finally show ?thesis .
  qed
qed

lemma le_word_le_bytes: "LENGTH('a::len) \<le> 8 * n \<Longrightarrow> le_word (le_bytes n w) = (w :: 'a word)"
  by (rule bit_word_eqI) (simp add: bit_le_word_le_bytes)

lemma bit_le_word_bound: "bit (le_word b :: 'a::len word) i \<Longrightarrow> i < 8 * length b"
proof (induction b arbitrary: i)
  case Nil
  then show ?case by simp
next
  case (Cons x b)
  show ?case
  proof (cases "i < 8")
    case False
    then have "bit (le_word b :: 'a word) (i - 8)"
      using Cons.prems by (auto simp: bit_simps dest: bit_imp_le_length)
    then have "i - 8 < 8 * length b" by (rule Cons.IH)
    with False show ?thesis by simp
  qed simp
qed

lemma le_bytes_le_word:
  "8 * length b \<le> LENGTH('a::len) \<Longrightarrow> le_bytes (length b) (le_word b :: 'a word) = b"
proof (induction b)
  case Nil
  then show ?case by simp
next
  case (Cons x b)
  have hd: "ucast (le_word (x # b) :: 'a word) = x"
    by (rule bit_word_eqI) (use Cons.prems in \<open>auto simp: bit_simps\<close>)
  have "bit (le_word b :: 'a word) n \<Longrightarrow> n + 8 < LENGTH('a)" for n
    using bit_le_word_bound [of b n, where ?'a = 'a] Cons.prems by simp
  then have tl: "drop_bit 8 (le_word (x # b) :: 'a word) = le_word b"
    by (intro bit_word_eqI) (auto simp: bit_simps add.commute dest: bit_imp_le_length)
  show ?case
    unfolding length_Cons le_bytes.simps hd tl using Cons by simp
qed

lemma Uint_le_bytes [codec_simps]:
  "Uint16 (le_bytes 2 v) = Ok v"
  "Uint32 (le_bytes 4 x) = Ok x"
  "Uint64 (le_bytes 8 y) = Ok y"
  by (simp_all add: Uint16_def Uint32_def Uint64_def le_word_le_bytes)

lemma Uint_total:
  "2 \<le> length b \<Longrightarrow> \<exists>v. Uint16 b = Ok v"
  "4 \<le> length b \<Longrightarrow> \<exists>v. Uint32 b = Ok v"
  "8 \<le> length b \<Longrightarrow> \<exists>v. Uint64 b = Ok v"
  by (simp_all add: Uint16_def Uint32_def Uint64_def)

lemma Uint_not_Err [simp]:
  "Uint16 b \<noteq> Err e" "Uint32 b \<noteq> Err e" "Uint64 b \<noteq> Err e"
  by (simp_all add: Uint16_def Uint32_def Uint64_def)

lemma unat_of_nat_lt: "n < 2 ^ LENGTH('a::len) \<Longrightarrow> unat (of_nat n :: 'a word) = n"
  by (simp add: unat_of_nat take_bit_nat_eq_self)

lemma uint_of_nat_lt: "n < 2 ^ LENGTH('a::len) \<Longrightarrow> uint (of_nat n :: 'a word) = int n"
  using unat_of_nat_lt [of n, where ?'a = 'a] by (metis uint_nat)

text \<open>Reading a fixed-width integer at the cursor.\<close>

lemma cursor_Uint16:
  "cursor d off (le_bytes 2 v @ rest) \<Longrightarrow> obind (slice d off (off + 2)) Uint16 = Ok v"
  by (simp add: cursor_slice codec_simps)

lemma cursor_Uint32:
  "cursor d off (le_bytes 4 v @ rest) \<Longrightarrow> obind (slice d off (off + 4)) Uint32 = Ok v"
  by (simp add: cursor_slice codec_simps)

lemma cursor_Uint64:
  "cursor d off (le_bytes 8 v @ rest) \<Longrightarrow> obind (slice d off (off + 8)) Uint64 = Ok v"
  by (simp add: cursor_slice codec_simps)

section \<open>Strings as byte sequences\<close>

text \<open>A Go string is a sequence of bytes; \<open>char\<close> has exactly 256 values.\<close>

definition string_bytes :: "string \<Rightarrow> bytes" where
  "string_bytes s = map of_char s"

definition bytes_string :: "bytes \<Rightarrow> string" where
  "bytes_string b = map (\<lambda>x. char_of (unat x)) b"

lemma length_string_bytes [simp]: "length (string_bytes s) = length s"
  by (simp add: string_bytes_def)

lemma char_of_unat_of_char: "char_of (unat (of_char c :: 8 word)) = c"
proof -
  have "(of_char c :: 8 word) = of_nat (of_char c)" by (simp only: of_nat_of_char)
  then have "unat (of_char c :: 8 word) = of_char c mod 256"
    by (simp only: unat_of_nat take_bit_eq_mod) simp
  then show ?thesis by simp
qed

lemma bytes_string_string_bytes [codec_simps, simp]: "bytes_string (string_bytes s) = s"
  by (simp add: bytes_string_def string_bytes_def comp_def char_of_unat_of_char)

section \<open>Counters\<close>

lemma unat_succ: "(x :: u64) \<noteq> - 1 \<Longrightarrow> unat (x + 1) = unat x + 1"
  by (metis Suc_eq_plus1 add.commute eq_neg_iff_add_eq_0 unatSuc)

lemma word_le_succ: "(x :: u64) \<noteq> - 1 \<Longrightarrow> x + 1 \<le> n \<longleftrightarrow> x \<le> n \<and> n \<noteq> x"
  using unat_succ [of x]
  by (auto simp: word_le_nat_alt unsigned_word_eqI) (metis Suc_leI le_neq_implies_less unsigned_word_eqI)

lemma word_less_succ: "(x :: u64) \<noteq> - 1 \<Longrightarrow> n < x + 1 \<longleftrightarrow> n < x \<or> n = x"
  using word_le_succ [of x n] by (metis not_less order.order_iff_strict)

section \<open>Number formats\<close>

text \<open>\<^verbatim>\<open>%d\<close> on a non-negative and on a signed integer, \<^verbatim>\<open>%016x\<close> on a uint64.\<close>

definition digit :: "nat \<Rightarrow> char" where
  "digit n = char_of (n + 48)"

fun show_nat :: "nat \<Rightarrow> string" where
  "show_nat n = (if n < 10 then [digit n] else show_nat (n div 10) @ [digit (n mod 10)])"

declare show_nat.simps [simp del]

definition show_int :: "int \<Rightarrow> string" where
  "show_int i = (if i < 0 then CHR ''-'' # show_nat (nat (- i)) else show_nat (nat i))"

definition hex_digit :: "nat \<Rightarrow> char" where
  "hex_digit n = (if n < 10 then char_of (n + 48) else char_of (n + 87))"

fun hex_digits :: "nat \<Rightarrow> nat \<Rightarrow> string" where
  "hex_digits 0 n = []"
| "hex_digits (Suc k) n = hex_digits k (n div 16) @ [hex_digit (n mod 16)]"

definition hex16 :: "u64 \<Rightarrow> string" where
  "hex16 w = hex_digits 16 (unat w)"

lemma digit_inj: "a < 10 \<Longrightarrow> b < 10 \<Longrightarrow> digit a = digit b \<Longrightarrow> a = b"
  by (auto simp: digit_def take_bit_eq_mod dest!: arg_cong [where f = "of_char :: char \<Rightarrow> nat"])

lemma hex_digit_inj: "a < 16 \<Longrightarrow> b < 16 \<Longrightarrow> hex_digit a = hex_digit b \<Longrightarrow> a = b"
  by (auto simp: hex_digit_def take_bit_eq_mod split: if_splits
      dest!: arg_cong [where f = "of_char :: char \<Rightarrow> nat"])

lemma show_nat_nonempty [simp]: "show_nat n \<noteq> []"
  by (subst show_nat.simps) simp

lemma show_nat_single: "show_nat n = [c] \<Longrightarrow> n < 10"
  by (subst (asm) show_nat.simps) (auto split: if_splits)

lemma show_nat_inject: "show_nat m = show_nat n \<Longrightarrow> m = n"
proof (induction m arbitrary: n rule: less_induct)
  case (less m)
  show ?case
  proof (cases "m < 10 \<or> n < 10")
    case True
    then have "m < 10" "n < 10"
      using less.prems show_nat_single [of m] show_nat_single [of n] show_nat.simps [of m]
        show_nat.simps [of n] by (metis)+
    then show ?thesis
      using less.prems digit_inj by (simp add: show_nat.simps)
  next
    case False
    then have eq: "show_nat (m div 10) = show_nat (n div 10)" "digit (m mod 10) = digit (n mod 10)"
      using less.prems show_nat.simps [of m] show_nat.simps [of n] by auto
    from False have "m div 10 < m" by simp
    then have "m div 10 = n div 10" using less.IH eq(1) by blast
    moreover have "m mod 10 = n mod 10" by (rule digit_inj) (use eq in auto)
    ultimately show ?thesis by (metis div_mult_mod_eq)
  qed
qed

lemma show_nat_hd: "hd (show_nat n) \<noteq> CHR ''-''"
proof (induction n rule: show_nat.induct)
  case (1 n)
  show ?case
  proof (cases "n < 10")
    case True
    then show ?thesis
      by (auto simp: show_nat.simps [of n] digit_def
          dest!: arg_cong [where f = "of_char :: char \<Rightarrow> nat"])
  next
    case False
    with 1 show ?thesis by (simp add: show_nat.simps [of n])
  qed
qed

lemma show_int_inject: "show_int i = show_int j \<Longrightarrow> i = j"
proof -
  assume eq: "show_int i = show_int j"
  have no_sign: "show_nat m \<noteq> CHR ''-'' # xs" for m xs
    using show_nat_hd [of m] by (metis list.sel(1))
  show "i = j"
    using eq no_sign no_sign [symmetric]
    by (auto simp: show_int_def split: if_splits dest!: show_nat_inject)
qed

lemma length_hex_digits [simp]: "length (hex_digits k n) = k"
  by (induction k arbitrary: n) auto

lemma hex_digits_inject:
  "m < 16 ^ k \<Longrightarrow> n < 16 ^ k \<Longrightarrow> hex_digits k m = hex_digits k n \<Longrightarrow> m = n"
proof (induction k arbitrary: m n)
  case 0
  then show ?case by simp
next
  case (Suc k)
  from Suc.prems have eq: "hex_digits k (m div 16) = hex_digits k (n div 16)"
    "hex_digit (m mod 16) = hex_digit (n mod 16)" by auto
  from Suc.prems have "m div 16 < 16 ^ k" "n div 16 < 16 ^ k"
    by (auto simp: less_mult_imp_div_less mult.commute)
  then have "m div 16 = n div 16" using Suc.IH eq(1) by blast
  moreover have "m mod 16 = n mod 16" by (rule hex_digit_inj) (use eq in auto)
  ultimately show ?case by (metis div_mult_mod_eq)
qed

lemma hex16_inject: "hex16 v = hex16 w \<Longrightarrow> v = w"
proof -
  assume "hex16 v = hex16 w"
  moreover have "unat v < 16 ^ 16" "unat w < 16 ^ 16"
    using unsigned_less [of v, where ?'a = nat] unsigned_less [of w, where ?'a = nat] by simp_all
  ultimately show "v = w"
    unfolding hex16_def by (metis hex_digits_inject unsigned_word_eqI)
qed

lemma length_hex16 [simp]: "length (hex16 w) = 16"
  by (simp add: hex16_def)

end
