(* ===== verification/Batch.thy ===== *)
theory Batch
  imports Prelude
begin

text \<open>
  The data-batch format of \<^verbatim>\<open>buffer/batch.go\<close>: a block of length-prefixed records,
  optionally zstd-compressed, followed by the seven-byte footer
  \<^verbatim>\<open>compression:u8 | record_count:u32 LE | version:u16 LE\<close>.  The zstd package is a
  parameter (\<open>zstd_lib\<close>); its documented contract is the predicate \<open>zstd_roundtrip\<close>.
  Buffer capacities passed to \<^verbatim>\<open>make\<close> do not influence any result and are left out.
\<close>

section \<open>Definitions\<close>

type_synonym CompressionType = "8 word"

definition CompressionNone :: CompressionType where "CompressionNone = 0"
definition CompressionZstd :: CompressionType where "CompressionZstd = 1"

definition batchEntryLenSize :: int where "batchEntryLenSize = 4"
definition batchFooterSize :: int where "batchFooterSize = 1 + 4 + 2"
definition batchVersion :: u16 where "batchVersion = 1"
definition MaxUint32 :: nat where "MaxUint32 = 4294967295"

text \<open>
  The calls the package makes into \<^verbatim>\<open>klauspost/compress/zstd\<close>: creating an encoder or
  a decoder may fail, closing the encoder may fail, \<^verbatim>\<open>EncodeAll(src, dst)\<close> appends the
  compressed form of \<^verbatim>\<open>src\<close> to \<^verbatim>\<open>dst\<close>, \<^verbatim>\<open>DecodeAll(src, nil)\<close> decompresses
  \<^verbatim>\<open>src\<close> or fails.
\<close>

record zstd_lib =
  zstd_NewWriter_err :: "string option"
  zstd_EncodeAll :: "bytes \<Rightarrow> bytes \<Rightarrow> bytes"
  zstd_Close_err :: "string option"
  zstd_NewReader_err :: "string option"
  zstd_DecodeAll :: "bytes \<Rightarrow> string + bytes"

fun check_entry_sizes :: "bytes list \<Rightarrow> unit res" where
  "check_entry_sizes [] = Ok ()"
| "check_entry_sizes (e # es) =
     (if length e > MaxUint32
      then Err (invalidInputErr (''entry size '' @ show_nat (length e) @ '' exceeds u32 max''))
      else check_entry_sizes es)"

fun append_entries :: "bytes \<Rightarrow> bytes list \<Rightarrow> bytes" where
  "append_entries buf [] = buf"
| "append_entries buf (e # es) =
     append_entries (AppendUint32 buf (of_nat (length e)) @ e) es"

definition append_footer :: "bytes \<Rightarrow> CompressionType \<Rightarrow> nat \<Rightarrow> bytes" where
  "append_footer buf compression n =
     AppendUint16 (AppendUint32 (buf @ [compression]) (of_nat n)) batchVersion"

definition EncodeBatch :: "zstd_lib \<Rightarrow> bytes list \<Rightarrow> CompressionType \<Rightarrow> bytes res" where
  "EncodeBatch z entries compression =
     obind (check_entry_sizes entries) (\<lambda>_.
       if compression = CompressionNone then
         Ok (append_footer (append_entries [] entries) compression (length entries))
       else if compression = CompressionZstd then
         (let entryBuf = append_entries [] entries in
          case zstd_NewWriter_err z of
            Some e \<Rightarrow> Err (serializationErr (''zstd encoder init failed: '' @ e))
          | None \<Rightarrow>
             (let buf = zstd_EncodeAll z entryBuf [] in
              case zstd_Close_err z of
                Some e \<Rightarrow> Err (serializationErr (''zstd encoder close failed: '' @ e))
              | None \<Rightarrow> Ok (append_footer buf compression (length entries))))
       else Err (serializationErr
             (''unsupported compression type: '' @ show_nat (unat compression))))"

fun decode_records :: "nat \<Rightarrow> bytes \<Rightarrow> int \<Rightarrow> bytes list \<Rightarrow> bytes list res" where
  "decode_records 0 entryData offset entries = Ok entries"
| "decode_records (Suc n) entryData offset entries =
     (if offset + batchEntryLenSize > int (length entryData)
      then Err (serializationErr ''truncated record length'')
      else obind (slice entryData offset (offset + batchEntryLenSize)) (\<lambda>lenBytes.
        obind (Uint32 lenBytes) (\<lambda>l.
          let entryLen = int (unat l); offset = offset + batchEntryLenSize in
          if offset + entryLen > int (length entryData)
          then Err (serializationErr ''truncated record data'')
          else obind (slice entryData offset (offset + entryLen)) (\<lambda>entry.
            decode_records n entryData (offset + entryLen) (entries @ [entry])))))"

definition decompress_block :: "zstd_lib \<Rightarrow> byte \<Rightarrow> bytes \<Rightarrow> bytes res" where
  "decompress_block z compressionByte recordBlock =
     (if compressionByte = CompressionNone then Ok recordBlock
      else if compressionByte = CompressionZstd then
        (case zstd_NewReader_err z of
           Some e \<Rightarrow> Err (serializationErr (''zstd decoder init failed: '' @ e))
         | None \<Rightarrow>
            (case zstd_DecodeAll z recordBlock of
               Inl e \<Rightarrow> Err (serializationErr (''zstd decompression failed: '' @ e))
             | Inr d \<Rightarrow> Ok d))
      else Err (serializationErr
            (''unsupported compression type: '' @ show_nat (unat compressionByte))))"

definition DecodeBatch :: "zstd_lib \<Rightarrow> bytes \<Rightarrow> bytes list res" where
  "DecodeBatch z data =
     (if int (length data) < batchFooterSize
      then Err (serializationErr ''batch too small for footer'')
      else let footerStart = int (length data) - batchFooterSize in
        obind (slice data footerStart (int (length data))) (\<lambda>footer.
        obind (slice footer 0 1) (\<lambda>cb.
        obind (obind (slice footer 1 5) Uint32) (\<lambda>recordCount.
        obind (obind (slice footer 5 7) Uint16) (\<lambda>version.
          if version \<noteq> batchVersion
          then Err (serializationErr (''unsupported batch version: '' @ show_nat (unat version)))
          else obind (slice data 0 footerStart) (\<lambda>recordBlock.
            obind (decompress_block z (hd cb) recordBlock) (\<lambda>entryData.
              decode_records (unat recordCount) entryData 0 [])))))))"

text \<open>The documented contract of the compressor: decompression inverts compression.\<close>

definition zstd_roundtrip :: "zstd_lib \<Rightarrow> bool" where
  "zstd_roundtrip z \<longleftrightarrow>
     zstd_NewWriter_err z = None \<and> zstd_Close_err z = None \<and> zstd_NewReader_err z = None \<and>
     (\<forall>src. zstd_DecodeAll z (zstd_EncodeAll z src []) = Inr src)"

text \<open>What fits the format: every record and the number of records in 32 bits.\<close>

definition batch_fits :: "bytes list \<Rightarrow> bool" where
  "batch_fits entries \<longleftrightarrow> length entries \<le> MaxUint32 \<and> list_all (\<lambda>e. length e \<le> MaxUint32) entries"

definition record_bytes :: "bytes \<Rightarrow> bytes" where
  "record_bytes e = le_bytes 4 (of_nat (length e) :: u32) @ e"

section \<open>Lemmas\<close>

lemmas batch_consts = batchEntryLenSize_def batchFooterSize_def batchVersion_def
  CompressionNone_def CompressionZstd_def

lemma check_entry_sizes_ok [simp]:
  "check_entry_sizes es = Ok u \<longleftrightarrow> list_all (\<lambda>e. length e \<le> MaxUint32) es"
  by (induction es) auto

text \<open>For evaluation: the bound as a binary numeral.\<close>

lemma check_entry_sizes_code [code]:
  "check_entry_sizes [] = Ok ()"
  "check_entry_sizes (e # es) =
     (if int (length e) > 4294967295
      then Err (invalidInputErr (''entry size '' @ show_nat (length e) @ '' exceeds u32 max''))
      else check_entry_sizes es)"
  by (simp_all add: MaxUint32_def)

lemma check_entry_sizes_fits:
  "list_all (\<lambda>e. length e \<le> MaxUint32) es \<Longrightarrow> check_entry_sizes es = Ok ()"
  by simp

lemma check_entry_sizes_not_Panic [simp]: "check_entry_sizes es \<noteq> Panic"
  by (induction es) auto

lemma check_entry_sizes_oversize:
  "\<exists>x \<in> set es. length x > MaxUint32 \<Longrightarrow> \<exists>n. check_entry_sizes es =
     Err (invalidInputErr (''entry size '' @ show_nat n @ '' exceeds u32 max''))"
  by (induction es) auto

lemma append_entries_eq: "append_entries buf es = buf @ concat (map record_bytes es)"
  by (induction es arbitrary: buf) (auto simp: AppendUint32_def record_bytes_def)

lemma append_footer_eq:
  "append_footer buf c n = buf @ (c # le_bytes 4 (of_nat n :: u32) @ le_bytes 2 batchVersion)"
  by (simp add: append_footer_def AppendUint16_def AppendUint32_def)

lemma unat_len32: "n \<le> MaxUint32 \<Longrightarrow> unat (of_nat n :: u32) = n"
  by (rule unat_of_nat_lt) (simp add: MaxUint32_def)

lemma uint_len32: "n \<le> MaxUint32 \<Longrightarrow> uint (of_nat n :: u32) = int n"
  by (rule uint_of_nat_lt) (simp add: MaxUint32_def)

lemma decode_records_prefix:
  assumes "list_all (\<lambda>e. length e \<le> MaxUint32) es"
  shows "decode_records (length es) (pre @ concat (map record_bytes es) @ post)
           (int (length pre)) acc = Ok (acc @ es)"
  using assms
proof (induction es arbitrary: pre acc)
  case Nil
  then show ?case by simp
next
  case (Cons e es)
  let ?l = "le_bytes 4 (of_nat (length e) :: u32)"
  let ?rest = "concat (map record_bytes es) @ post"
  have d: "pre @ concat (map record_bytes (e # es)) @ post = pre @ ?l @ e @ ?rest"
    by (simp add: record_bytes_def)
  have d': "pre @ ?l @ e @ ?rest = (pre @ ?l) @ e @ ?rest"
    and d'': "pre @ ?l @ e @ ?rest = (pre @ ?l @ e) @ ?rest" by simp_all
  have s1: "slice (pre @ ?l @ e @ ?rest) (int (length pre)) (int (length pre) + 4) = Ok ?l"
    by (rule slice_mid) auto
  have s2: "slice (pre @ ?l @ e @ ?rest) (int (length pre) + 4)
      (int (length pre) + 4 + int (length e)) = Ok e"
    unfolding d' by (rule slice_mid) auto
  have IH: "decode_records (length es) (pre @ ?l @ e @ ?rest)
      (int (length pre) + 4 + int (length e)) (acc @ [e]) = Ok ((acc @ [e]) @ es)"
    using Cons.IH [of "pre @ ?l @ e" "acc @ [e]"] Cons.prems by (simp add: add.assoc)
  show ?case
    unfolding d using Cons.prems
    by (simp add: batch_consts s1 s2 IH codec_simps uint_len32 Let_def del: append_assoc)
qed

lemma decode_records_not_Panic: "0 \<le> off \<Longrightarrow> decode_records n d off acc \<noteq> Panic"
proof (induction n arbitrary: off acc)
  case 0
  then show ?case by simp
next
  case (Suc n)
  then show ?case
    by (auto simp: batch_consts outcome_simps slice_def Uint32_def Let_def split: if_splits)
qed

lemma DecodeBatch_footer:
  assumes "n \<le> MaxUint32"
  shows "DecodeBatch z (append_footer buf c n) =
     obind (decompress_block z c buf) (\<lambda>entryData. decode_records n entryData 0 [])"
proof -
  let ?f = "c # le_bytes 4 (of_nat n :: u32) @ le_bytes 2 batchVersion"
  have s0: "slice (buf @ ?f) (int (length buf)) (int (length (buf @ ?f))) = Ok ?f"
    using slice_mid [OF refl refl, of buf ?f "[]"] by simp
  have s1: "slice ?f 0 1 = Ok [c]"
    using slice_mid [of 0 "[]" 1 "[c]"] by simp
  have s2: "slice ?f 1 5 = Ok (le_bytes 4 (of_nat n :: u32))"
    using slice_mid [of 1 "[c]" 5 "le_bytes 4 (of_nat n :: u32)"] by simp
  have s3: "slice ?f 5 7 = Ok (le_bytes 2 batchVersion)"
    using slice_mid [of 5 "c # le_bytes 4 (of_nat n :: u32)" 7 "le_bytes 2 batchVersion" "[]"]
    by simp
  have s4: "slice (buf @ ?f) 0 (int (length buf)) = Ok buf"
    using slice_mid [of 0 "[]" "int (length buf)" buf ?f] by simp
  have l: "int (length (buf @ ?f)) - batchFooterSize = int (length buf)"
    "\<not> int (length (buf @ ?f)) < batchFooterSize"
    by (simp_all add: batchFooterSize_def)
  show ?thesis
    unfolding append_footer_eq DecodeBatch_def
    by (simp add: l s0 s1 s2 s3 s4 Let_def codec_simps unat_len32 assms
        del: length_append length_Cons)
qed

lemma decompress_block_compressed:
  assumes "zstd_roundtrip z" and "EncodeBatch z es c = Ok data"
  obtains buf where "data = append_footer buf c (length es)"
    and "decompress_block z c buf = Ok (append_entries [] es)"
  using assms
  by (auto simp: EncodeBatch_def decompress_block_def zstd_roundtrip_def outcome_simps Let_def
      split: if_splits option.splits)

lemma EncodeBatch_Ok_iff:
  assumes "zstd_roundtrip z"
  shows "(\<exists>data. EncodeBatch z es c = Ok data) \<longleftrightarrow>
     list_all (\<lambda>e. length e \<le> MaxUint32) es \<and> (c = CompressionNone \<or> c = CompressionZstd)"
  using assms by (auto simp: EncodeBatch_def zstd_roundtrip_def outcome_simps Let_def)

lemma DecodeBatch_encoded:
  assumes "zstd_roundtrip z" and "EncodeBatch z entries c = Ok data" and "length entries \<le> MaxUint32"
  shows "DecodeBatch z data = Ok entries"
proof -
  from assms(1,2) obtain buf where data: "data = append_footer buf c (length entries)"
    and dec: "decompress_block z c buf = Ok (append_entries [] entries)"
    by (rule decompress_block_compressed)
  have fits: "list_all (\<lambda>e. length e \<le> MaxUint32) entries"
    using assms(2) by (auto simp: EncodeBatch_def outcome_simps)
  have "decode_records (length entries) (concat (map record_bytes entries)) 0 [] = Ok entries"
    using decode_records_prefix [of entries "[]" "[]" "[]"] fits by simp
  then show ?thesis using assms(3) dec by (simp add: data DecodeBatch_footer append_entries_eq)
qed

lemma EncodeBatch_not_Panic [simp]: "EncodeBatch z entries c \<noteq> Panic"
  by (auto simp: EncodeBatch_def outcome_simps Let_def split: option.splits if_splits)

section \<open>Properties\<close>

text \<open>
  C11. Batch round trip: for either supported compression, a batch whose record sizes and record
  count fit 32 bits is encoded, and \<^verbatim>\<open>DecodeBatch\<close> returns exactly its entries in order.
\<close>

theorem batch_roundtrip:
  assumes "zstd_roundtrip z" and "batch_fits entries"
    and "c = CompressionNone \<or> c = CompressionZstd"
  shows "\<exists>data. EncodeBatch z entries c = Ok data \<and> DecodeBatch z data = Ok entries"
  using EncodeBatch_Ok_iff [OF assms(1), of entries c] DecodeBatch_encoded [OF assms(1)] assms(2,3)
  by (auto simp: batch_fits_def)

definition stored_zstd :: zstd_lib where
  "stored_zstd = \<lparr>zstd_NewWriter_err = None, zstd_EncodeAll = (\<lambda>src dst. dst @ [40, 181] @ src),
     zstd_Close_err = None, zstd_NewReader_err = None,
     zstd_DecodeAll = (\<lambda>b. if take 2 b = [40, 181] then Inr (drop 2 b) else Inl ''bad magic'')\<rparr>"

lemma stored_zstd_roundtrip: "zstd_roundtrip stored_zstd"
  by (simp add: zstd_roundtrip_def stored_zstd_def)

theorem batch_roundtrip_witness:
  "zstd_roundtrip stored_zstd \<and> batch_fits [[1, 2, 3], [], [255]] \<and>
   (\<exists>data. EncodeBatch stored_zstd [[1, 2, 3], [], [255]] CompressionZstd = Ok data \<and>
      DecodeBatch stored_zstd data = Ok [[1, 2, 3], [], [255]])"
proof -
  have fits: "batch_fits [[1, 2, 3], [], [255]]" by (simp add: batch_fits_def MaxUint32_def)
  show ?thesis
    using batch_roundtrip [OF stored_zstd_roundtrip fits, of CompressionZstd]
      stored_zstd_roundtrip fits by simp
qed

text \<open>
  C22. \<^verbatim>\<open>DecodeBatch\<close> is total on untrusted input: whatever the bytes, and whatever the
  decompressor returns, no slice or integer read leaves its bounds.
\<close>

theorem DecodeBatch_never_panics: "DecodeBatch z data \<noteq> Panic"
  by (auto simp: DecodeBatch_def decompress_block_def batchFooterSize_def outcome_simps slice_def
      Uint16_def Uint32_def Let_def decode_records_not_Panic split: if_splits option.splits sum.splits)



end
