(* ===== verification/Manifest.thy ===== *)
theory Manifest
  imports Prelude
begin

text \<open>
  The queue manifest of \<^verbatim>\<open>buffer/manifest.go\<close>: its in-memory form (serialized entries and
  footer, plus the entries appended since), the entry codec, and the footer
  \<^verbatim>\<open>entries_count:u32 | next_sequence:u64 | epoch:u64 | version:u16\<close>.  The abstract
  specification is a \<open>queue\<close>: the list of its entries, the next sequence number and the
  epoch; \<open>queue_bytes\<close> is its serialized form, and the operations of the code are shown to
  implement the queue's on that form.

  Go's \<^verbatim>\<open>int\<close> offsets are \<open>int\<close>; they are sums of slice lengths and of decoded 32-bit
  fields and stay far below the 64-bit range.  An \<^verbatim>\<open>int64\<close> is kept as its bit pattern, so the
  conversions \<^verbatim>\<open>uint64(t)\<close> and \<^verbatim>\<open>int64(u)\<close> of the ingestion time are the identity.
\<close>

section \<open>Definitions\<close>

definition manifestVersion :: u16 where "manifestVersion = 1"
definition mEntryLenSize :: int where "mEntryLenSize = 4"
definition mSequenceSize :: int where "mSequenceSize = 8"
definition mLocationLenSize :: int where "mLocationLenSize = 2"
definition mMetadataCountSize :: int where "mMetadataCountSize = 4"
definition mStartIndexSize :: int where "mStartIndexSize = 4"
definition mIngestionTimeMsSize :: int where "mIngestionTimeMsSize = 8"
definition mMetadataLenSize :: int where "mMetadataLenSize = 4"
definition mEntriesCountSize :: int where "mEntriesCountSize = 4"
definition mEpochSize :: int where "mEpochSize = 8"
definition mVersionSize :: int where "mVersionSize = 2"
definition mFooterSize :: int where
  "mFooterSize = mEntriesCountSize + mSequenceSize + mEpochSize + mVersionSize"

record QueueMetadata =
  StartIndex :: u32
  IngestionTimeMs :: u64
  Payload :: bytes

record QueueEntry =
  Sequence :: u64
  Location :: string
  Metadata :: "QueueMetadata list"

record manifest =
  m_data :: bytes
  m_appended :: bytes
  m_appendedCount :: nat
  m_nextSequence :: u64
  m_epoch :: u64

definition footer_bytes :: "u32 \<Rightarrow> u64 \<Rightarrow> u64 \<Rightarrow> bytes \<Rightarrow> bytes" where
  "footer_bytes count nextSeq epoch buf =
     AppendUint16 (AppendUint64 (AppendUint64 (AppendUint32 buf count) nextSeq) epoch) manifestVersion"

definition emptyManifest :: manifest where
  "emptyManifest = \<lparr>m_data = footer_bytes 0 0 0 [], m_appended = [], m_appendedCount = 0,
     m_nextSequence = 0, m_epoch = 0\<rparr>"

definition manifestFromBytes :: "bytes \<Rightarrow> manifest res" where
  "manifestFromBytes data =
     (if length data = 0 then Err (serializationErr ''queue manifest data must not be empty'')
      else if int (length data) < mFooterSize
      then Err (serializationErr ''queue manifest too short for footer'')
      else let versionStart = int (length data) - mVersionSize in
        obind (obind (slice data versionStart (int (length data))) Uint16) (\<lambda>version.
        if version \<noteq> manifestVersion
        then Err (serializationErr
               (''unsupported queue manifest version: '' @ show_nat (unat version)))
        else let epochStart = int (length data) - mVersionSize - mEpochSize in
          obind (obind (slice data epochStart (epochStart + mEpochSize)) Uint64) (\<lambda>epoch.
          let seqStart = int (length data) - mVersionSize - mEpochSize - mSequenceSize in
          obind (obind (slice data seqStart (seqStart + mSequenceSize)) Uint64) (\<lambda>nextSeq.
            Ok \<lparr>m_data = data, m_appended = [], m_appendedCount = 0,
                 m_nextSequence = nextSeq, m_epoch = epoch\<rparr>))))"

definition existingEntriesCount :: "manifest \<Rightarrow> u32 res" where
  "existingEntriesCount m =
     (if length (m_data m) = 0 then Ok 0
      else let footerStart = int (length (m_data m)) - mFooterSize in
        obind (slice (m_data m) footerStart (footerStart + mEntriesCountSize)) Uint32)"

fun check_metadata_sizes :: "QueueMetadata list \<Rightarrow> int \<Rightarrow> int res" where
  "check_metadata_sizes [] metadataSize = Ok metadataSize"
| "check_metadata_sizes (m # ms) metadataSize =
     (if int (length (Payload m)) > 4294967295
      then Err (invalidInputErr
             (''metadata payload size '' @ show_nat (length (Payload m)) @ '' exceeds u32 max''))
      else check_metadata_sizes ms (metadataSize + (mStartIndexSize + mIngestionTimeMsSize +
             mMetadataLenSize + int (length (Payload m)))))"

fun append_metadata :: "bytes \<Rightarrow> QueueMetadata list \<Rightarrow> bytes" where
  "append_metadata buf [] = buf"
| "append_metadata buf (m # ms) =
     append_metadata
       (AppendUint32 (AppendUint64 (AppendUint32 buf (StartIndex m)) (IngestionTimeMs m))
          (of_nat (length (Payload m))) @ Payload m) ms"

definition encodeQueueEntry :: "QueueEntry \<Rightarrow> bytes res" where
  "encodeQueueEntry entry =
     (if int (length (Location entry)) > 65535
      then Err (invalidInputErr
             (''location length '' @ show_nat (length (Location entry)) @ '' exceeds u16 max''))
      else obind (check_metadata_sizes (Metadata entry) mMetadataCountSize) (\<lambda>metadataSize.
        let entryBodyLen = mSequenceSize + mLocationLenSize + int (length (Location entry)) +
              metadataSize;
            buf = AppendUint32 [] (of_int entryBodyLen);
            buf = AppendUint64 buf (Sequence entry);
            buf = AppendUint16 buf (of_nat (length (Location entry)));
            buf = buf @ string_bytes (Location entry);
            buf = AppendUint32 buf (of_nat (length (Metadata entry)))
        in Ok (append_metadata buf (Metadata entry))))"

definition manifest_append :: "manifest \<Rightarrow> QueueEntry \<Rightarrow> manifest res" where
  "manifest_append m entry =
     (let sequenced = entry\<lparr>Sequence := m_nextSequence m\<rparr> in
      obind (encodeQueueEntry sequenced) (\<lambda>encoded.
        Ok (m\<lparr>m_appended := m_appended m @ encoded, m_nextSequence := m_nextSequence m + 1,
              m_appendedCount := m_appendedCount m + 1\<rparr>)))"

definition manifest_toBytes :: "manifest \<Rightarrow> bytes res" where
  "manifest_toBytes m =
     (if length (m_appended m) = 0 then Ok (m_data m)
      else obind (existingEntriesCount m) (\<lambda>baseCount.
        obind (if length (m_data m) > 0
               then slice (m_data m) 0 (int (length (m_data m)) - mFooterSize) else Ok [])
          (\<lambda>prefix.
        let totalCount = (ucast baseCount :: u64) + of_nat (m_appendedCount m) in
        if totalCount > 4294967295
        then Err (serializationErr
               (''total entry count '' @ show_nat (unat totalCount) @ '' exceeds u32 max''))
        else Ok (footer_bytes (ucast totalCount) (m_nextSequence m) (m_epoch m)
               (prefix @ m_appended m)))))"

fun decode_metadata ::
  "nat \<Rightarrow> bytes \<Rightarrow> int \<Rightarrow> int \<Rightarrow> QueueMetadata list \<Rightarrow> QueueMetadata list res" where
  "decode_metadata 0 data offset entryEnd metadata = Ok metadata"
| "decode_metadata (Suc j) data offset entryEnd metadata =
     (if offset + mStartIndexSize > entryEnd
      then Err (serializationErr ''queue entry corrupt: start index overflow'')
      else obind (obind (slice data offset (offset + mStartIndexSize)) Uint32) (\<lambda>startIndex.
      let offset = offset + mStartIndexSize in
      if offset + mIngestionTimeMsSize > entryEnd
      then Err (serializationErr ''queue entry corrupt: ingestion time overflow'')
      else obind (obind (slice data offset (offset + mIngestionTimeMsSize)) Uint64) (\<lambda>ingestion.
      let offset = offset + mIngestionTimeMsSize in
      if offset + mMetadataLenSize > entryEnd
      then Err (serializationErr ''queue entry corrupt: metadata length overflow'')
      else obind (obind (slice data offset (offset + mMetadataLenSize)) Uint32) (\<lambda>l.
      let mLen = int (unat l); offset = offset + mMetadataLenSize in
      if offset + mLen > entryEnd
      then Err (serializationErr ''queue entry corrupt: metadata payload overflow'')
      else obind (slice data offset (offset + mLen)) (\<lambda>payload.
        decode_metadata j data (offset + mLen) entryEnd
          (metadata @ [\<lparr>StartIndex = startIndex, IngestionTimeMs = ingestion, Payload = payload\<rparr>]))))))"

definition decodeQueueEntry :: "bytes \<Rightarrow> int \<Rightarrow> int \<Rightarrow> (QueueEntry \<times> int) res" where
  "decodeQueueEntry data offset endOff =
     (if offset + mEntryLenSize > endOff
      then Err (serializationErr ''queue entry corrupt: entry length field does not fit'')
      else obind (obind (slice data offset (offset + mEntryLenSize)) Uint32) (\<lambda>el.
      let entryLen = int (unat el); offset = offset + mEntryLenSize in
      if offset + entryLen > endOff
      then Err (serializationErr ''queue entry corrupt: entry shorter than declared length'')
      else let entryEnd = offset + entryLen in
      obind (obind (slice data offset (offset + mSequenceSize)) Uint64) (\<lambda>seq.
      let offset = offset + mSequenceSize in
      obind (obind (slice data offset (offset + mLocationLenSize)) Uint16) (\<lambda>ll.
      let locLen = int (unat ll); offset = offset + mLocationLenSize in
      if offset + locLen + mMetadataCountSize > entryEnd
      then Err (serializationErr ''queue entry corrupt: location + metadata count overflow'')
      else obind (slice data offset (offset + locLen)) (\<lambda>loc.
      let offset = offset + locLen in
      obind (obind (slice data offset (offset + mMetadataCountSize)) Uint32) (\<lambda>mc.
      let offset = offset + mMetadataCountSize in
      obind (decode_metadata (unat mc) data offset entryEnd []) (\<lambda>metadata.
        Ok (\<lparr>Sequence = seq, Location = bytes_string loc, Metadata = metadata\<rparr>, entryEnd))))))))"

fun decode_entries ::
  "nat \<Rightarrow> bytes \<Rightarrow> int \<Rightarrow> int \<Rightarrow> QueueEntry list \<Rightarrow> QueueEntry list res" where
  "decode_entries 0 data offset footerStart entries = Ok entries"
| "decode_entries (Suc i) data offset footerStart entries =
     obind (decodeQueueEntry data offset footerStart) (\<lambda>(entry, newOffset).
       decode_entries i data newOffset footerStart (entries @ [entry]))"

definition DecodeManifestEntries :: "bytes \<Rightarrow> QueueEntry list res" where
  "DecodeManifestEntries data =
     (if int (length data) < mFooterSize
      then Err (serializationErr ''manifest too short for footer'')
      else let footerStart = int (length data) - mFooterSize in
        obind (obind (slice data footerStart (footerStart + mEntriesCountSize)) Uint32) (\<lambda>count.
          decode_entries (unat count) data 0 footerStart []))"

section \<open>Abstract queue\<close>

record queue =
  q_entries :: "QueueEntry list"
  q_next :: u64
  q_epoch :: u64

definition metadata_bytes :: "QueueMetadata \<Rightarrow> bytes" where
  "metadata_bytes m = le_bytes 4 (StartIndex m) @ le_bytes 8 (IngestionTimeMs m) @
     le_bytes 4 (of_nat (length (Payload m)) :: u32) @ Payload m"

definition entry_body :: "QueueEntry \<Rightarrow> bytes" where
  "entry_body e = le_bytes 8 (Sequence e) @ le_bytes 2 (of_nat (length (Location e)) :: u16) @
     string_bytes (Location e) @ le_bytes 4 (of_nat (length (Metadata e)) :: u32) @
     concat (map metadata_bytes (Metadata e))"

definition entry_bytes :: "QueueEntry \<Rightarrow> bytes" where
  "entry_bytes e = le_bytes 4 (of_nat (length (entry_body e)) :: u32) @ entry_body e"

text \<open>The bounds the encoder checks, and the two it does not: metadata count and body length.\<close>

definition entry_checked :: "QueueEntry \<Rightarrow> bool" where
  "entry_checked e \<longleftrightarrow> length (Location e) \<le> 65535 \<and>
     list_all (\<lambda>m. length (Payload m) \<le> 4294967295) (Metadata e)"

definition entry_fits :: "QueueEntry \<Rightarrow> bool" where
  "entry_fits e \<longleftrightarrow> entry_checked e \<and> length (Metadata e) \<le> 4294967295 \<and>
     length (entry_body e) \<le> 4294967295"

definition queue_bytes :: "queue \<Rightarrow> bytes" where
  "queue_bytes q = footer_bytes (of_nat (length (q_entries q))) (q_next q) (q_epoch q)
     (concat (map entry_bytes (q_entries q)))"

definition queue_fits :: "queue \<Rightarrow> bool" where
  "queue_fits q \<longleftrightarrow> length (q_entries q) \<le> 4294967295 \<and> list_all entry_fits (q_entries q)"

definition q_empty :: queue where
  "q_empty = \<lparr>q_entries = [], q_next = 0, q_epoch = 0\<rparr>"

definition q_enqueue :: "QueueEntry \<Rightarrow> queue \<Rightarrow> queue" where
  "q_enqueue e q = q\<lparr>q_entries := q_entries q @ [e\<lparr>Sequence := q_next q\<rparr>], q_next := q_next q + 1\<rparr>"

section \<open>Entry codec\<close>

lemmas manifest_sizes = mEntryLenSize_def mSequenceSize_def mLocationLenSize_def
  mMetadataCountSize_def mStartIndexSize_def mIngestionTimeMsSize_def mMetadataLenSize_def
  mEntriesCountSize_def mEpochSize_def mVersionSize_def mFooterSize_def

lemma QueueMetadata_eta [simp]:
  "\<lparr>StartIndex = StartIndex m, IngestionTimeMs = IngestionTimeMs m, Payload = Payload m\<rparr> = m"
  by simp

lemma QueueEntry_eta [simp]:
  "\<lparr>Sequence = Sequence e, Location = Location e, Metadata = Metadata e\<rparr> = e"
  by simp

lemma length_metadata_bytes: "length (metadata_bytes m) = 16 + length (Payload m)"
  by (simp add: metadata_bytes_def)

lemma append_metadata_eq: "append_metadata buf ms = buf @ concat (map metadata_bytes ms)"
  by (induction ms arbitrary: buf)
    (auto simp: AppendUint32_def AppendUint64_def metadata_bytes_def)

lemma check_metadata_sizes_Ok:
  "list_all (\<lambda>m. length (Payload m) \<le> 4294967295) ms \<Longrightarrow>
   check_metadata_sizes ms n = Ok (n + int (length (concat (map metadata_bytes ms))))"
  by (induction ms arbitrary: n) (auto simp: manifest_sizes length_metadata_bytes)

lemma check_metadata_sizes_Ok_iff:
  "(\<exists>k. check_metadata_sizes ms n = Ok k) \<longleftrightarrow>
     list_all (\<lambda>m. length (Payload m) \<le> 4294967295) ms"
  by (induction ms arbitrary: n) auto

lemma check_metadata_sizes_not_Panic [simp]: "check_metadata_sizes ms n \<noteq> Panic"
  by (induction ms arbitrary: n) auto

lemma check_metadata_sizes_Err:
  "check_metadata_sizes ms n = Err e \<Longrightarrow> errors_Is e ErrInvalidInput"
  by (induction ms arbitrary: n) (auto split: if_splits)

lemma length_entry_body:
  "length (entry_body e) =
     14 + length (Location e) + length (concat (map metadata_bytes (Metadata e)))"
  by (simp add: entry_body_def)

lemma encodeQueueEntry_Ok:
  assumes "entry_checked e"
  shows "encodeQueueEntry e = Ok (entry_bytes e)"
  using assms
  by (simp add: encodeQueueEntry_def entry_checked_def check_metadata_sizes_Ok manifest_sizes
      AppendUint16_def AppendUint32_def AppendUint64_def append_metadata_eq entry_bytes_def
      length_entry_body Let_def entry_body_def ac_simps)

lemma encodeQueueEntry_Err:
  assumes "\<not> entry_checked e"
  obtains err where "encodeQueueEntry e = Err err" and "errors_Is err ErrInvalidInput"
proof (cases "length (Location e) > 65535")
  case True
  then show ?thesis using that by (simp add: encodeQueueEntry_def)
next
  case False
  then have "\<nexists>k. check_metadata_sizes (Metadata e) mMetadataCountSize = Ok k"
    using assms by (simp add: entry_checked_def check_metadata_sizes_Ok_iff)
  then obtain err where "check_metadata_sizes (Metadata e) mMetadataCountSize = Err err"
    by (metis check_metadata_sizes_not_Panic res.exhaust)
  with False show ?thesis
    using that check_metadata_sizes_Err by (simp add: encodeQueueEntry_def)
qed

lemma entry_checked_sequence [simp]: "entry_checked (e\<lparr>Sequence := s\<rparr>) = entry_checked e"
  by (simp add: entry_checked_def)

lemma entry_fits_sequence [simp]: "entry_fits (e\<lparr>Sequence := s\<rparr>) = entry_fits e"
  by (simp add: entry_fits_def length_entry_body)

lemma manifest_append_Ok:
  "entry_checked e \<Longrightarrow> manifest_append m e =
     Ok (m\<lparr>m_appended := m_appended m @ entry_bytes (e\<lparr>Sequence := m_nextSequence m\<rparr>),
           m_nextSequence := m_nextSequence m + 1, m_appendedCount := m_appendedCount m + 1\<rparr>)"
  by (simp add: manifest_append_def encodeQueueEntry_Ok)

lemma decode_metadata_correct:
  assumes "list_all (\<lambda>m. length (Payload m) \<le> 4294967295) ms"
    and "cursor d off (concat (map metadata_bytes ms) @ rest)"
    and "off + int (length (concat (map metadata_bytes ms))) \<le> endOff"
  shows "decode_metadata (length ms) d off endOff acc = Ok (acc @ ms)"
  using assms
proof (induction ms arbitrary: off acc)
  case Nil
  then show ?case by simp
next
  case (Cons m ms)
  let ?tail = "concat (map metadata_bytes ms) @ rest"
  let ?l = "le_bytes 4 (of_nat (length (Payload m)) :: u32)"
  have c0: "cursor d off (le_bytes 4 (StartIndex m) @
      le_bytes 8 (IngestionTimeMs m) @ ?l @ Payload m @ ?tail)"
    using Cons.prems(2) by (simp add: metadata_bytes_def [of m])
  then have c1: "cursor d (off + 4) (le_bytes 8 (IngestionTimeMs m) @ ?l @ Payload m @ ?tail)"
    by (rule cursor_advance) simp
  then have c2: "cursor d (off + 4 + 8) (?l @ Payload m @ ?tail)" by (rule cursor_advance) simp
  then have c3: "cursor d (off + 4 + 8 + 4) (Payload m @ ?tail)" by (rule cursor_advance) simp
  then have c4: "cursor d (off + 4 + 8 + 4 + int (length (Payload m))) ?tail"
    by (rule cursor_advance) simp
  have len: "uint (of_nat (length (Payload m)) :: u32) = int (length (Payload m))"
    using Cons.prems(1) by (simp add: uint_of_nat_lt)
  have "off + 16 + int (length (Payload m)) + int (length (concat (map metadata_bytes ms))) \<le> endOff"
    using Cons.prems(3) by (simp add: length_metadata_bytes)
  moreover from this have "decode_metadata (length ms) d
      (off + 4 + 8 + 4 + int (length (Payload m))) endOff (acc @ [m]) = Ok (acc @ [m] @ ms)"
    using Cons.IH [OF _ c4, of "acc @ [m]"] Cons.prems(1) by simp
  ultimately show ?case
    using cursor_Uint32 [OF c0] cursor_Uint64 [OF c1] cursor_Uint32 [OF c2]
      cursor_slice [OF c3 refl] len
    by (simp add: manifest_sizes Let_def)
qed

lemma decodeQueueEntry_correct:
  assumes "entry_fits e" and "cursor d off (entry_bytes e @ rest)"
    and "off + int (length (entry_bytes e)) \<le> endOff"
  shows "decodeQueueEntry d off endOff = Ok (e, off + int (length (entry_bytes e)))"
proof -
  let ?l = "le_bytes 2 (of_nat (length (Location e)) :: u16)"
  let ?n = "le_bytes 4 (of_nat (length (Metadata e)) :: u32)"
  let ?md = "concat (map metadata_bytes (Metadata e))"
  let ?len = "int (length (entry_body e))"
  let ?loc = "int (length (Location e))"
  have c0: "cursor d off (le_bytes 4 (of_nat (length (entry_body e)) :: u32) @
      le_bytes 8 (Sequence e) @ ?l @ string_bytes (Location e) @ ?n @ ?md @ rest)"
    using assms(2) by (simp add: entry_bytes_def entry_body_def)
  then have c1: "cursor d (off + 4)
      (le_bytes 8 (Sequence e) @ ?l @ string_bytes (Location e) @ ?n @ ?md @ rest)"
    by (rule cursor_advance) simp
  then have c2: "cursor d (off + 4 + 8) (?l @ string_bytes (Location e) @ ?n @ ?md @ rest)"
    by (rule cursor_advance) simp
  then have c3: "cursor d (off + 4 + 8 + 2) (string_bytes (Location e) @ ?n @ ?md @ rest)"
    by (rule cursor_advance) simp
  then have c4: "cursor d (off + 4 + 8 + 2 + ?loc) (?n @ ?md @ rest)"
    by (rule cursor_advance) simp
  then have c5: "cursor d (off + 4 + 8 + 2 + ?loc + 4) (?md @ rest)"
    by (rule cursor_advance) simp
  have bl: "uint (of_nat (length (entry_body e)) :: u32) = ?len"
    and ll: "uint (of_nat (length (Location e)) :: u16) = ?loc"
    and nl: "unat (of_nat (length (Metadata e)) :: u32) = length (Metadata e)"
    using assms(1)
    by (simp_all add: entry_fits_def entry_checked_def uint_of_nat_lt unat_of_nat_lt)
  have body: "?len = 14 + ?loc + int (length ?md)" by (simp add: length_entry_body)
  have bound: "off + 4 + ?len \<le> endOff" "?len + (off + 4) \<le> endOff"
    using assms(3) by (simp_all add: entry_bytes_def)
  have md: "decode_metadata (length (Metadata e)) d (off + 4 + 8 + 2 + ?loc + 4)
      (off + 4 + ?len) [] = Ok (Metadata e)"
    using decode_metadata_correct [OF _ c5, of "off + 4 + ?len" "[]"] assms(1) body
    by (simp add: entry_fits_def entry_checked_def)
  have loc: "slice d (off + 4 + 8 + 2) (off + 4 + 8 + 2 + ?loc) = Ok (string_bytes (Location e))"
    using cursor_slice [OF c3] by simp
  have total: "int (length (entry_bytes e)) = 4 + ?len" by (simp add: entry_bytes_def)
  have guard: "\<not> off + 4 + 8 + 2 + ?loc + 4 > off + 4 + ?len" "\<not> off + 4 + ?len > endOff"
    "\<not> off + 4 > endOff"
    using body bound by simp_all
  show ?thesis
    unfolding decodeQueueEntry_def manifest_sizes total Let_def
    using guard md
    by (simp only: cursor_Uint32 [OF c0] cursor_Uint64 [OF c1] cursor_Uint16 [OF c2] loc
        cursor_Uint32 [OF c4] obind.simps bl ll nl uint_nat [symmetric] if_False md) simp
qed

lemma decode_entries_correct:
  assumes "list_all entry_fits es" and "cursor d off (concat (map entry_bytes es) @ rest)"
    and "off + int (length (concat (map entry_bytes es))) \<le> endOff"
  shows "decode_entries (length es) d off endOff acc = Ok (acc @ es)"
  using assms
proof (induction es arbitrary: off acc)
  case Nil
  then show ?case by simp
next
  case (Cons e es)
  let ?off = "off + int (length (entry_bytes e))"
  have c: "cursor d off (entry_bytes e @ concat (map entry_bytes es) @ rest)"
    using Cons.prems(2) by simp
  have "decodeQueueEntry d off endOff = Ok (e, ?off)"
    using decodeQueueEntry_correct [OF _ c] Cons.prems by simp
  moreover have "decode_entries (length es) d ?off endOff (acc @ [e]) = Ok ((acc @ [e]) @ es)"
    using Cons.IH [OF _ cursor_advance [OF c refl]] Cons.prems by simp
  ultimately show ?case by simp
qed

section \<open>Reads never leave the manifest\<close>

text \<open>
  The sequence and location-length fields are read before they are checked against the entry's
  end.  They still lie inside the data: the entry ends before the 22-byte footer.
\<close>

lemma decode_metadata_not_Panic:
  "0 \<le> off \<Longrightarrow> entryEnd \<le> int (length d) \<Longrightarrow> decode_metadata n d off entryEnd acc \<noteq> Panic"
proof (induction n arbitrary: off acc)
  case 0
  then show ?case by simp
next
  case (Suc n)
  then show ?case
    by (auto simp: manifest_sizes outcome_simps slice_def Uint32_def Uint64_def Let_def
        split: if_splits)
qed

lemma decodeQueueEntry_not_Panic:
  assumes "0 \<le> off" and "endOff + mFooterSize \<le> int (length d)"
  shows "decodeQueueEntry d off endOff \<noteq> Panic"
  using assms
  by (auto simp: decodeQueueEntry_def manifest_sizes outcome_simps slice_def Uint16_def Uint32_def
      Uint64_def Let_def decode_metadata_not_Panic split: if_splits)

lemma decodeQueueEntry_offset:
  assumes "decodeQueueEntry d off endOff = Ok (e, off')" and "0 \<le> off"
  shows "off + 4 \<le> off' \<and> off' \<le> endOff"
  using assms
  by (auto simp: decodeQueueEntry_def manifest_sizes outcome_simps Let_def split: if_splits)

lemma decode_entries_not_Panic:
  "0 \<le> off \<Longrightarrow> endOff + mFooterSize \<le> int (length d) \<Longrightarrow> decode_entries n d off endOff acc \<noteq> Panic"
proof (induction n arbitrary: off acc)
  case 0
  then show ?case by simp
next
  case (Suc n)
  then show ?case
    using decodeQueueEntry_offset [of d off endOff]
    by (fastforce simp: outcome_simps decodeQueueEntry_not_Panic)
qed

section \<open>The manifest as a queue\<close>

text \<open>
  \<open>manifest_rel q as m\<close>: the serialized part of \<open>m\<close> is the queue \<open>q\<close>, its appended part
  the encoded entries \<open>as\<close>.
\<close>

definition manifest_rel :: "queue \<Rightarrow> QueueEntry list \<Rightarrow> manifest \<Rightarrow> bool" where
  "manifest_rel q as m \<longleftrightarrow> m_data m = queue_bytes q \<and> m_appended m = concat (map entry_bytes as) \<and>
     m_appendedCount m = length as \<and> m_epoch m = q_epoch q \<and>
     m_nextSequence m = q_next q + of_nat (length as)"

definition q_extend :: "queue \<Rightarrow> QueueEntry list \<Rightarrow> queue" where
  "q_extend q as = q\<lparr>q_entries := q_entries q @ as, q_next := q_next q + of_nat (length as)\<rparr>"

lemma footer_bytes_eq:
  "footer_bytes c n ep buf =
     buf @ le_bytes 4 c @ le_bytes 8 n @ le_bytes 8 ep @ le_bytes 2 manifestVersion"
  by (simp add: footer_bytes_def AppendUint16_def AppendUint32_def AppendUint64_def)

lemma footer_cursor:
  assumes "cursor d off (le_bytes 4 c @ le_bytes 8 n @ le_bytes 8 ep @ le_bytes 2 v)"
  shows "int (length d) = off + 22"
    and "obind (slice d off (off + 4)) Uint32 = Ok c"
    and "obind (slice d (off + 4) (off + 12)) Uint64 = Ok n"
    and "obind (slice d (off + 12) (off + 20)) Uint64 = Ok ep"
    and "obind (slice d (off + 20) (off + 22)) Uint16 = Ok v"
proof -
  from assms have c1: "cursor d (off + 4) (le_bytes 8 n @ le_bytes 8 ep @ le_bytes 2 v)"
    by (rule cursor_advance) simp
  then have c2: "cursor d (off + 4 + 8) (le_bytes 8 ep @ le_bytes 2 v)"
    by (rule cursor_advance) simp
  then have c3: "cursor d (off + 4 + 8 + 8) (le_bytes 2 v @ [])"
    using cursor_advance [OF c2, of 8] by simp
  show "int (length d) = off + 22" using cursor_length [OF assms] by simp
  show "obind (slice d off (off + 4)) Uint32 = Ok c" by (rule cursor_Uint32 [OF assms])
  show "obind (slice d (off + 4) (off + 12)) Uint64 = Ok n" using cursor_Uint64 [OF c1] by (simp add: add.commute)
  show "obind (slice d (off + 12) (off + 20)) Uint64 = Ok ep"
    using cursor_Uint64 [OF c2] by (simp add: add.commute)
  show "obind (slice d (off + 20) (off + 22)) Uint16 = Ok v"
    using cursor_Uint16 [OF c3] by (simp add: add.commute)
qed

lemma footer_bytes_cursor:
  "cursor (footer_bytes c n ep buf) (int (length buf))
     (le_bytes 4 c @ le_bytes 8 n @ le_bytes 8 ep @ le_bytes 2 manifestVersion)"
  by (simp add: cursor_def footer_bytes_eq)

lemmas footer_reads = footer_cursor [OF footer_bytes_cursor]

lemma manifestFromBytes_footer:
  "manifestFromBytes (footer_bytes c n ep buf) =
     Ok \<lparr>m_data = footer_bytes c n ep buf, m_appended = [], m_appendedCount = 0,
         m_nextSequence = n, m_epoch = ep\<rparr>"
proof -
  let ?d = "footer_bytes c n ep buf"
  have "?d \<noteq> []" by (simp add: footer_bytes_eq)
  then show ?thesis
    using footer_reads [of c n ep buf]
    by (simp add: manifestFromBytes_def manifest_sizes Let_def add.commute)
qed

lemma existingEntriesCount_queue:
  "m_data m = queue_bytes q \<Longrightarrow> existingEntriesCount m = Ok (of_nat (length (q_entries q)))"
  using footer_reads [of "of_nat (length (q_entries q))" "q_next q" "q_epoch q"
      "concat (map entry_bytes (q_entries q))"]
  by (auto simp: existingEntriesCount_def queue_bytes_def manifest_sizes Let_def footer_bytes_eq)

lemma queue_prefix:
  "slice (queue_bytes q) 0 (int (length (queue_bytes q)) - mFooterSize) =
     Ok (concat (map entry_bytes (q_entries q)))"
  by (simp add: slice_def queue_bytes_def footer_bytes_eq manifest_sizes)

lemma entry_bytes_nonempty [simp]: "entry_bytes e \<noteq> []"
  using length_entry_body [of e] by (auto simp: entry_bytes_def)

lemma manifest_rel_read:
  "\<exists>m. manifestFromBytes (queue_bytes q) = Ok m \<and> manifest_rel q [] m"
  by (simp add: manifestFromBytes_footer queue_bytes_def manifest_rel_def)

lemma manifest_rel_empty: "manifest_rel q_empty [] emptyManifest"
  by (simp add: manifest_rel_def emptyManifest_def q_empty_def queue_bytes_def)

lemma manifest_rel_append:
  assumes "manifest_rel q as m" and "entry_checked e"
  shows "\<exists>m'. manifest_append m e = Ok m' \<and>
     manifest_rel q (as @ [e\<lparr>Sequence := q_next q + of_nat (length as)\<rparr>]) m'"
  using assms by (auto simp: manifest_append_Ok manifest_rel_def)

lemma total_count_word:
  assumes "a \<le> 4294967295" and "b < 2 ^ 63"
  shows "unat ((ucast (of_nat a :: u32) :: u64) + of_nat b) = a + b"
proof -
  have "(ucast (of_nat a :: u32) :: u64) = of_nat a"
    using assms(1) by (simp add: unat_of_nat_lt unsigned_of_nat take_bit_nat_eq_self)
  then show ?thesis
    using assms unat_of_nat_lt [of "a + b", where ?'a = 64] by simp
qed

lemma manifest_rel_toBytes:
  assumes "manifest_rel q as m" and "queue_fits q" and "length as < 2 ^ 63"
  shows "manifest_toBytes m =
     (if length (q_entries q) + length as \<le> 4294967295 then Ok (queue_bytes (q_extend q as))
      else Err (serializationErr (''total entry count '' @
             show_nat (length (q_entries q) + length as) @ '' exceeds u32 max'')))"
proof (cases "as = []")
  case True
  with assms show ?thesis
    by (simp add: manifest_toBytes_def manifest_rel_def q_extend_def queue_fits_def)
next
  case False
  let ?t = "(ucast (of_nat (length (q_entries q)) :: u32) :: u64) + of_nat (length as)"
  have t: "unat ?t = length (q_entries q) + length as"
    by (rule total_count_word) (use assms in \<open>auto simp: queue_fits_def\<close>)
  have big: "?t > 4294967295 \<longleftrightarrow> length (q_entries q) + length as > 4294967295"
    unfolding word_less_nat_alt t by simp
  have cast: "(ucast ?t :: u32) = of_nat (length (q_entries q) + length as)"
    by (metis t of_nat_unat)
  have ne: "length (m_appended m) \<noteq> 0" "length (m_data m) > 0"
    using assms(1) False by (auto simp: manifest_rel_def queue_bytes_def footer_bytes_eq)
  have "manifest_toBytes m =
      (if ?t > 4294967295 then Err (serializationErr (''total entry count '' @
         show_nat (unat ?t) @ '' exceeds u32 max''))
       else Ok (footer_bytes (ucast ?t) (m_nextSequence m) (m_epoch m)
         (concat (map entry_bytes (q_entries q)) @ m_appended m)))"
    using assms(1) ne existingEntriesCount_queue [of m q] queue_prefix [of q]
    by (simp add: manifest_toBytes_def manifest_rel_def Let_def)
  then show ?thesis
    using assms(1) unfolding big cast t
    by (simp add: manifest_rel_def queue_bytes_def q_extend_def)
qed

lemma q_extend_single:
  "q_extend q [e\<lparr>Sequence := q_next q\<rparr>] = q_enqueue e q"
  by (simp add: q_extend_def q_enqueue_def)

lemma decode_queue_bytes:
  assumes "queue_fits q"
  shows "DecodeManifestEntries (queue_bytes q) = Ok (q_entries q)"
proof -
  let ?es = "q_entries q" and ?body = "concat (map entry_bytes (q_entries q))"
  have d: "queue_bytes q = footer_bytes (of_nat (length ?es)) (q_next q) (q_epoch q) ?body"
    by (simp add: queue_bytes_def)
  have n: "unat (of_nat (length ?es) :: u32) = length ?es"
    using assms by (simp add: queue_fits_def unat_of_nat_lt)
  have "cursor (queue_bytes q) 0 (?body @ drop (length ?body) (queue_bytes q))"
    by (simp add: cursor_def d footer_bytes_eq)
  then have "decode_entries (length ?es) (queue_bytes q) 0 (int (length ?body)) [] = Ok ?es"
    using decode_entries_correct [of ?es "queue_bytes q" 0 _ "int (length ?body)" "[]"] assms
    by (simp add: queue_fits_def)
  then show ?thesis
    using footer_reads [of "of_nat (length ?es)" "q_next q" "q_epoch q" ?body]
    by (simp add: DecodeManifestEntries_def manifest_sizes Let_def d n)
qed

lemma manifestFromBytes_queue_bytes:
  "manifestFromBytes (queue_bytes q) =
     Ok \<lparr>m_data = queue_bytes q, m_appended = [], m_appendedCount = 0,
         m_nextSequence = q_next q, m_epoch = q_epoch q\<rparr>"
  by (simp add: queue_bytes_def manifestFromBytes_footer)

lemma queue_bytes_inject:
  assumes "queue_fits q" and "queue_fits r" and "queue_bytes q = queue_bytes r"
  shows "q = r"
  using decode_queue_bytes [OF assms(1)] decode_queue_bytes [OF assms(2)]
    manifestFromBytes_queue_bytes [of q] manifestFromBytes_queue_bytes [of r] assms(3)
  by (cases q, cases r) simp

lemma manifestFromBytes_not_Panic [simp]: "manifestFromBytes d \<noteq> Panic"
  by (auto simp: manifestFromBytes_def manifest_sizes outcome_simps slice_def Uint16_def
      Uint64_def Let_def split: if_splits)

definition sample_queue :: queue where
  "sample_queue = \<lparr>q_entries =
     [\<lparr>Sequence = 5, Location = ''ingest/r/0'',
       Metadata = [\<lparr>StartIndex = 0, IngestionTimeMs = 1700000000000, Payload = [1, 1, 1, 0]\<rparr>]\<rparr>],
     q_next = 6, q_epoch = 3\<rparr>"

definition sample_entry :: QueueEntry where
  "sample_entry = \<lparr>Sequence = 0, Location = ''ingest/r/1'',
     Metadata = [\<lparr>StartIndex = 0, IngestionTimeMs = 1700000000100, Payload = []\<rparr>,
       \<lparr>StartIndex = 2, IngestionTimeMs = 1700000000200, Payload = [9]\<rparr>]\<rparr>"

lemma sample_queue_fits: "queue_fits sample_queue"
  by (simp add: queue_fits_def sample_queue_def entry_fits_def entry_checked_def length_entry_body
      length_metadata_bytes)

lemma sample_entry_fits: "entry_fits sample_entry"
  by (simp add: sample_entry_def entry_fits_def entry_checked_def length_entry_body
      length_metadata_bytes)

section \<open>Properties\<close>

text \<open>
  C19. Decoding a serialized manifest returns its entries: sequence numbers, locations and metadata
  ranges, in order, whenever every entry is within the format's field widths; opening it for an
  append recovers the next sequence number and the epoch.
\<close>

theorem DecodeManifestEntries_roundtrip:
  assumes "queue_fits q"
  shows "DecodeManifestEntries (queue_bytes q) = Ok (q_entries q) \<and>
    (\<exists>m. manifestFromBytes (queue_bytes q) = Ok m \<and> m_nextSequence m = q_next q \<and> m_epoch m = q_epoch q)"
  using decode_queue_bytes [OF assms] by (simp add: manifestFromBytes_queue_bytes)

theorem DecodeManifestEntries_roundtrip_witness:
  "queue_fits sample_queue \<and>
   DecodeManifestEntries (queue_bytes sample_queue) = Ok (q_entries sample_queue) \<and>
   (\<exists>m. manifestFromBytes (queue_bytes sample_queue) = Ok m \<and> m_nextSequence m = q_next sample_queue \<and>
      m_epoch m = q_epoch sample_queue)"
  using DecodeManifestEntries_roundtrip [OF sample_queue_fits] sample_queue_fits by simp

text \<open>
  C12. Appending refines the abstract queue: reading a serialized queue, appending an entry and
  serializing again gives the bytes of the queue with that entry at its end, numbered with the next
  sequence, the epoch unchanged.
\<close>

theorem manifest_append_refines_enqueue:
  assumes "queue_fits q" and "entry_fits e" and "length (q_entries q) < 4294967295"
  shows "obind (manifestFromBytes (queue_bytes q)) (\<lambda>m. obind (manifest_append m e) manifest_toBytes) =
           Ok (queue_bytes (q_enqueue e q)) \<and> queue_fits (q_enqueue e q)"
proof -
  obtain m where m: "manifestFromBytes (queue_bytes q) = Ok m" "manifest_rel q [] m"
    using manifest_rel_read by blast
  obtain m' where m': "manifest_append m e = Ok m'" "manifest_rel q [e\<lparr>Sequence := q_next q\<rparr>] m'"
    using manifest_rel_append [OF m(2), of e] assms(2) by (auto simp: entry_fits_def)
  have "manifest_toBytes m' = Ok (queue_bytes (q_enqueue e q))"
    using manifest_rel_toBytes [OF m'(2) assms(1)] assms(3) by (simp add: q_extend_single)
  moreover have "queue_fits (q_enqueue e q)"
    using assms by (simp add: queue_fits_def q_enqueue_def)
  ultimately show ?thesis using m(1) m'(1) by simp
qed

theorem manifest_append_refines_enqueue_witness:
  "obind (manifestFromBytes (queue_bytes sample_queue))
      (\<lambda>m. obind (manifest_append m sample_entry) manifest_toBytes) =
     Ok (queue_bytes (q_enqueue sample_entry sample_queue)) \<and>
   q_entries (q_enqueue sample_entry sample_queue) =
     q_entries sample_queue @ [sample_entry\<lparr>Sequence := 6\<rparr>]"
  using manifest_append_refines_enqueue [OF sample_queue_fits sample_entry_fits]
  by (simp add: sample_queue_def q_enqueue_def)

text \<open>
  C24. Reading a manifest is total on untrusted bytes: neither opening it for an append nor decoding
  its entries can read outside the data, even though two fixed fields of an entry are read before
  they are checked against the entry's declared end.
\<close>

theorem manifest_reads_never_panic:
  "manifestFromBytes d \<noteq> Panic \<and> DecodeManifestEntries d \<noteq> Panic"
proof
  show "manifestFromBytes d \<noteq> Panic" by simp
  show "DecodeManifestEntries d \<noteq> Panic"
    by (auto simp: DecodeManifestEntries_def outcome_simps slice_def Uint32_def Let_def
        decode_entries_not_Panic split: if_splits) (auto simp: manifest_sizes)
qed


definition full_queue :: "nat \<Rightarrow> queue" where
  "full_queue n = \<lparr>q_entries = replicate n sample_entry, q_next = 0, q_epoch = 0\<rparr>"

lemma full_queue_fits: "n \<le> 4294967295 \<Longrightarrow> queue_fits (full_queue n)"
  using sample_entry_fits by (auto simp: queue_fits_def full_queue_def list_all_iff)

lemma full_queue_length: "length (q_entries (full_queue n)) = n"
  by (simp add: full_queue_def)


text \<open>
  \<^verbatim>\<open>manifestFromBytes\<close> accepts exactly the data that is long enough for a footer and
  ends in format version 1; it then keeps the bytes unchanged, with nothing appended.
\<close>

lemma manifestFromBytes_accepts:
  "(\<exists>m. manifestFromBytes d = Ok m) \<longleftrightarrow>
     mFooterSize \<le> int (length d) \<and> drop (length d - 2) d = le_bytes 2 manifestVersion"
proof (cases "mFooterSize \<le> int (length d)")
  case True
  then have n: "22 \<le> length d" "d \<noteq> []" by (auto simp: manifest_sizes)
  have v: "obind (slice d (int (length d) - 2) (int (length d))) Uint16 =
      Ok (le_word (drop (length d - 2) d))"
    using n by (simp add: slice_def Uint16_def nat_diff_distrib')
  have "\<exists>v. obind (slice d (int (length d) - 10) (int (length d) - 2)) Uint64 = Ok v"
    and "\<exists>v. obind (slice d (int (length d) - 18) (int (length d) - 10)) Uint64 = Ok v"
    using n by (simp_all add: slice_def Uint64_def)
  then have "(\<exists>m. manifestFromBytes d = Ok m) \<longleftrightarrow>
      le_word (drop (length d - 2) d) = manifestVersion"
    using n v by (auto simp: manifestFromBytes_def manifest_sizes Let_def split: if_splits)
  also have "\<dots> \<longleftrightarrow> drop (length d - 2) d = le_bytes 2 manifestVersion"
    using n le_bytes_le_word [of "drop (length d - 2) d", where ?'a = 16]
    by (auto simp: le_word_le_bytes)
  finally show ?thesis using True by simp
next
  case False
  then show ?thesis by (auto simp: manifestFromBytes_def)
qed

end
