(* ===== verification/Objstore.thy ===== *)
theory Objstore
  imports Prelude
begin

text \<open>
  The object-store abstraction of \<^verbatim>\<open>objstore/\<close>: the interface \<^verbatim>\<open>ObjectStore\<close> as a
  record of operations over a store state, its in-memory implementation (\<^verbatim>\<open>memory.go\<close>) and
  its S3 implementation (\<^verbatim>\<open>s3.go\<close>) over an S3 client that is a parameter.  The contract the
  buffer relies on is the locale \<open>cas_store\<close>; \<open>exact_store\<close> adds that calls do not fail
  spuriously.  Contexts are not modelled as values: a call that its context cancels is a call that
  returns an error, which the contract allows.
\<close>

section \<open>The interface\<close>

record Version =
  ETag :: string

record GetResult =
  gr_Data :: bytes
  gr_Version :: Version

record 's ObjectStore =
  os_Get :: "string \<Rightarrow> 's \<Rightarrow> GetResult res \<times> 's"
  os_Put :: "string \<Rightarrow> bytes \<Rightarrow> 's \<Rightarrow> gerror option \<times> 's"
  os_PutIfMatch :: "string \<Rightarrow> bytes \<Rightarrow> Version option \<Rightarrow> 's \<Rightarrow> gerror option \<times> 's"
  os_Delete :: "string \<Rightarrow> 's \<Rightarrow> gerror option \<times> 's"

type_synonym objects = "string \<Rightarrow> (bytes \<times> Version) option"

section \<open>In-memory store\<close>

text \<open>The version is an \<^verbatim>\<open>int64\<close>, kept as its bit pattern; \<^verbatim>\<open>%d\<close> prints it signed.\<close>

record memObject =
  mo_data :: bytes
  mo_version :: u64

type_synonym InMemory = "string \<Rightarrow> memObject option"

definition NewInMemory :: InMemory where
  "NewInMemory = Map.empty"

definition mem_etag :: "u64 \<Rightarrow> string" where
  "mem_etag v = show_int (sint v)"

definition InMemory_Get :: "string \<Rightarrow> InMemory \<Rightarrow> GetResult res \<times> InMemory" where
  "InMemory_Get path m =
     (case m path of
        None \<Rightarrow> (Err ErrNotFound, m)
      | Some obj \<Rightarrow>
          (Ok \<lparr>gr_Data = mo_data obj, gr_Version = \<lparr>ETag = mem_etag (mo_version obj)\<rparr>\<rparr>, m))"

definition InMemory_Put :: "string \<Rightarrow> bytes \<Rightarrow> InMemory \<Rightarrow> gerror option \<times> InMemory" where
  "InMemory_Put path data m =
     (case m path of
        Some obj \<Rightarrow> (None, m(path \<mapsto> \<lparr>mo_data = data, mo_version = mo_version obj + 1\<rparr>))
      | None \<Rightarrow> (None, m(path \<mapsto> \<lparr>mo_data = data, mo_version = 1\<rparr>)))"

definition InMemory_PutIfMatch ::
  "string \<Rightarrow> bytes \<Rightarrow> Version option \<Rightarrow> InMemory \<Rightarrow> gerror option \<times> InMemory" where
  "InMemory_PutIfMatch path data version m =
     (case version of
        None \<Rightarrow>
          (case m path of
             Some _ \<Rightarrow> (Some ErrPreconditionFailed, m)
           | None \<Rightarrow> (None, m(path \<mapsto> \<lparr>mo_data = data, mo_version = 1\<rparr>)))
      | Some v \<Rightarrow>
          (case m path of
             None \<Rightarrow> (Some ErrPreconditionFailed, m)
           | Some obj \<Rightarrow>
               if ETag v \<noteq> mem_etag (mo_version obj) then (Some ErrPreconditionFailed, m)
               else (None, m(path \<mapsto> \<lparr>mo_data = data, mo_version = mo_version obj + 1\<rparr>))))"

definition InMemory_Delete :: "string \<Rightarrow> InMemory \<Rightarrow> gerror option \<times> InMemory" where
  "InMemory_Delete path m = (None, m(path := None))"

definition InMemory_store :: "InMemory ObjectStore" where
  "InMemory_store = \<lparr>os_Get = InMemory_Get, os_Put = InMemory_Put,
     os_PutIfMatch = InMemory_PutIfMatch, os_Delete = InMemory_Delete\<rparr>"

definition InMemory_objects :: "InMemory \<Rightarrow> objects" where
  "InMemory_objects m p =
     map_option (\<lambda>obj. (mo_data obj, \<lparr>ETag = mem_etag (mo_version obj)\<rparr>)) (m p)"

section \<open>S3 store\<close>

text \<open>
  The AWS client is third-party code: a parameter with the calls the adapter makes.  An SDK error
  carries whether \<^verbatim>\<open>errors.As\<close> finds a \<^verbatim>\<open>NoSuchKey\<close> in it, and its message.
\<close>

record s3_error =
  s3e_NoSuchKey :: bool
  s3e_msg :: string

record s3_object =
  s3o_Body :: "gerror + bytes"
  s3o_ETag :: "string option"

record 's s3_client =
  s3_GetObject :: "string \<Rightarrow> string \<Rightarrow> 's \<Rightarrow> (s3_error + s3_object) \<times> 's"
  s3_PutObject :: "string \<Rightarrow> string \<Rightarrow> bytes \<Rightarrow> string option \<Rightarrow> string option \<Rightarrow> 's \<Rightarrow>
                     s3_error option \<times> 's"
  s3_DeleteObject :: "string \<Rightarrow> string \<Rightarrow> 's \<Rightarrow> s3_error option \<times> 's"

fun strings_Contains :: "string \<Rightarrow> string \<Rightarrow> bool" where
  "strings_Contains [] sub = (sub = [])"
| "strings_Contains (c # s) sub = (take (length sub) (c # s) = sub \<or> strings_Contains s sub)"

definition S3_Get :: "'s s3_client \<Rightarrow> string \<Rightarrow> string \<Rightarrow> 's \<Rightarrow> GetResult res \<times> 's" where
  "S3_Get c bucket path s =
     (case s3_GetObject c bucket path s of
        (Inl err, s') \<Rightarrow>
          if s3e_NoSuchKey err then (Err ErrNotFound, s')
          else if strings_Contains (s3e_msg err) ''NoSuchKey'' \<or>
                  strings_Contains (s3e_msg err) ''StatusCode: 404''
          then (Err ErrNotFound, s')
          else (Err (OtherErr (s3e_msg err)), s')
      | (Inr out, s') \<Rightarrow>
          (case s3o_Body out of
             Inl err \<Rightarrow> (Err err, s')
           | Inr data \<Rightarrow>
               (Ok \<lparr>gr_Data = data,
                    gr_Version = \<lparr>ETag = (case s3o_ETag out of None \<Rightarrow> '''' | Some e \<Rightarrow> e)\<rparr>\<rparr>, s')))"

definition S3_Put :: "'s s3_client \<Rightarrow> string \<Rightarrow> string \<Rightarrow> bytes \<Rightarrow> 's \<Rightarrow> gerror option \<times> 's" where
  "S3_Put c bucket path data s =
     (case s3_PutObject c bucket path data None None s of
        (err, s') \<Rightarrow> (map_option (\<lambda>e. OtherErr (s3e_msg e)) err, s'))"

definition s3_precondition_msg :: "string \<Rightarrow> bool" where
  "s3_precondition_msg m \<longleftrightarrow> strings_Contains m ''PreconditionFailed'' \<or>
     strings_Contains m ''StatusCode: 412'' \<or> strings_Contains m ''ConditionalRequestConflict'' \<or>
     strings_Contains m ''At least one of the pre-conditions''"

definition S3_PutIfMatch ::
  "'s s3_client \<Rightarrow> string \<Rightarrow> string \<Rightarrow> bytes \<Rightarrow> Version option \<Rightarrow> 's \<Rightarrow> gerror option \<times> 's" where
  "S3_PutIfMatch c bucket path data version s =
     (let (ifNoneMatch, ifMatch) =
        (case version of None \<Rightarrow> (Some ''*'', None) | Some v \<Rightarrow> (None, Some (ETag v))) in
      case s3_PutObject c bucket path data ifNoneMatch ifMatch s of
        (Some err, s') \<Rightarrow>
          if s3_precondition_msg (s3e_msg err) then (Some ErrPreconditionFailed, s')
          else (Some (OtherErr (s3e_msg err)), s')
      | (None, s') \<Rightarrow> (None, s'))"

definition S3_Delete :: "'s s3_client \<Rightarrow> string \<Rightarrow> string \<Rightarrow> 's \<Rightarrow> gerror option \<times> 's" where
  "S3_Delete c bucket path s =
     (case s3_DeleteObject c bucket path s of
        (err, s') \<Rightarrow> (map_option (\<lambda>e. OtherErr (s3e_msg e)) err, s'))"

definition S3_store :: "'s s3_client \<Rightarrow> string \<Rightarrow> 's ObjectStore" where
  "S3_store c bucket = \<lparr>os_Get = S3_Get c bucket, os_Put = S3_Put c bucket,
     os_PutIfMatch = S3_PutIfMatch c bucket, os_Delete = S3_Delete c bucket\<rparr>"

section \<open>The contract\<close>

text \<open>
  What \<^verbatim>\<open>objstore.go\<close> documents.  \<open>objs s\<close> is the observable content of the store: the
  data and version under each path.  A write that reports an error other than a failed precondition
  may or may not have taken effect, as with any request whose response is lost.
\<close>

definition written :: "objects \<Rightarrow> string \<Rightarrow> bytes \<Rightarrow> objects \<Rightarrow> bool" where
  "written o1 p d o2 \<longleftrightarrow> (\<exists>v. o2 = o1(p \<mapsto> (d, v)))"

definition version_at :: "objects \<Rightarrow> string \<Rightarrow> Version option" where
  "version_at o1 p = map_option snd (o1 p)"

locale cas_store =
  fixes S :: "'s ObjectStore"
    and objs :: "'s \<Rightarrow> objects"
  assumes get_frame: "os_Get S p s = (r, s') \<Longrightarrow> objs s' = objs s"
    and get_found: "os_Get S p s = (Ok g, s') \<Longrightarrow> objs s p = Some (gr_Data g, gr_Version g)"
    and get_missing: "os_Get S p s = (Err e, s') \<Longrightarrow> errors_Is e ErrNotFound \<Longrightarrow> objs s p = None"
    and get_returns: "fst (os_Get S p s) \<noteq> Panic"
    and put_ok: "os_Put S p d s = (None, s') \<Longrightarrow> written (objs s) p d (objs s')"
    and put_error: "os_Put S p d s = (Some e, s') \<Longrightarrow>
          objs s' = objs s \<or> written (objs s) p d (objs s')"
    and cas_ok: "os_PutIfMatch S p d v s = (None, s') \<Longrightarrow>
          version_at (objs s) p = v \<and> written (objs s) p d (objs s')"
    and cas_conflict: "os_PutIfMatch S p d v s = (Some e, s') \<Longrightarrow>
          errors_Is e ErrPreconditionFailed \<Longrightarrow> objs s' = objs s"
    and cas_error: "os_PutIfMatch S p d v s = (Some e, s') \<Longrightarrow>
          objs s' = objs s \<or> version_at (objs s) p = v \<and> written (objs s) p d (objs s')"
    and delete_ok: "os_Delete S p s = (None, s') \<Longrightarrow> objs s' = (objs s)(p := None)"

locale exact_store = cas_store +
  assumes get_hit: "objs s p = Some (d, w) \<Longrightarrow>
          fst (os_Get S p s) = Ok \<lparr>gr_Data = d, gr_Version = w\<rparr>"
    and get_miss: "objs s p = None \<Longrightarrow> fst (os_Get S p s) = Err ErrNotFound"
    and put_total: "fst (os_Put S p d s) = None"
    and cas_hit: "version_at (objs s) p = v \<Longrightarrow> fst (os_PutIfMatch S p d v s) = None"
    and cas_miss: "version_at (objs s) p \<noteq> v \<Longrightarrow>
          fst (os_PutIfMatch S p d v s) = Some ErrPreconditionFailed"

section \<open>The in-memory store keeps the contract\<close>

lemma mem_etag_inject: "mem_etag v = mem_etag w \<longleftrightarrow> v = w"
  by (auto simp: mem_etag_def dest!: show_int_inject intro: signed_word_eqI)

lemmas InMemory_defs = InMemory_store_def InMemory_Get_def InMemory_Put_def InMemory_PutIfMatch_def
  InMemory_Delete_def

lemma InMemory_objects_upd:
  "InMemory_objects (m(p \<mapsto> obj)) =
     (InMemory_objects m)(p \<mapsto> (mo_data obj, \<lparr>ETag = mem_etag (mo_version obj)\<rparr>))"
  "InMemory_objects (m(p := None)) = (InMemory_objects m)(p := None)"
  by (auto simp: InMemory_objects_def fun_eq_iff)

interpretation mem: exact_store InMemory_store InMemory_objects
proof (unfold_locales, goal_cases)
  case (7 p d v s s')
  then show ?case
    by (auto simp: InMemory_defs InMemory_objects_upd written_def version_at_def
        InMemory_objects_def split: option.splits if_splits)
next
  case (14 s p v d)
  then show ?case
    by (auto simp: InMemory_defs version_at_def InMemory_objects_def split: option.splits)
next
  case (15 s p v d)
  then show ?case
    by (cases v) (auto simp: InMemory_defs version_at_def InMemory_objects_def split: option.splits)
qed (auto simp: InMemory_defs InMemory_objects_upd written_def InMemory_objects_def
      split: option.splits if_splits)

section \<open>The S3 adapter keeps the contract of the service\<close>

text \<open>
  The documented behaviour of the S3 calls, over the content \<open>objs s\<close> of the bucket: a read
  returns the stored body and entity tag and is reported missing only when it is; a write with
  \<^verbatim>\<open>If-None-Match: *\<close> takes effect only on an absent key and one with \<^verbatim>\<open>If-Match\<close> only on
  the given tag; a refused condition writes nothing.  \<open>s3_condition\<close> is the condition the two
  headers express.
\<close>

definition s3_missing :: "s3_error \<Rightarrow> bool" where
  "s3_missing err \<longleftrightarrow> s3e_NoSuchKey err \<or> strings_Contains (s3e_msg err) ''NoSuchKey'' \<or>
     strings_Contains (s3e_msg err) ''StatusCode: 404''"

definition s3_condition :: "objects \<Rightarrow> string \<Rightarrow> string option \<Rightarrow> string option \<Rightarrow> bool" where
  "s3_condition o1 key ifNoneMatch ifMatch \<longleftrightarrow>
     (ifNoneMatch = Some ''*'' \<longrightarrow> o1 key = None) \<and>
     (\<forall>e. ifMatch = Some e \<longrightarrow> (\<exists>d. o1 key = Some (d, \<lparr>ETag = e\<rparr>)))"

lemma s3_condition_code [code]:
  "s3_condition o1 key ifNoneMatch ifMatch \<longleftrightarrow>
     (if ifNoneMatch = Some ''*'' then o1 key = None else True) \<and>
     (case ifMatch of None \<Rightarrow> True
      | Some e \<Rightarrow> (case o1 key of None \<Rightarrow> False | Some (d, v) \<Rightarrow> v = \<lparr>ETag = e\<rparr>))"
  by (auto simp: s3_condition_def split: option.splits)

definition s3_contract :: "'s s3_client \<Rightarrow> string \<Rightarrow> ('s \<Rightarrow> objects) \<Rightarrow> bool" where
  "s3_contract c bucket objs \<longleftrightarrow>
     (\<forall>key s. objs (snd (s3_GetObject c bucket key s)) = objs s) \<and>
     (\<forall>key s out data. fst (s3_GetObject c bucket key s) = Inr out \<longrightarrow> s3o_Body out = Inr data \<longrightarrow>
        objs s key = Some (data, \<lparr>ETag = (case s3o_ETag out of None \<Rightarrow> '''' | Some e \<Rightarrow> e)\<rparr>)) \<and>
     (\<forall>key s out e. fst (s3_GetObject c bucket key s) = Inr out \<longrightarrow> s3o_Body out = Inl e \<longrightarrow>
        \<not> errors_Is e ErrNotFound) \<and>
     (\<forall>key s err. fst (s3_GetObject c bucket key s) = Inl err \<longrightarrow> s3_missing err \<longrightarrow>
        objs s key = None) \<and>
     (\<forall>key d inm im s. fst (s3_PutObject c bucket key d inm im s) = None \<longrightarrow>
        s3_condition (objs s) key inm im \<and>
        written (objs s) key d (objs (snd (s3_PutObject c bucket key d inm im s)))) \<and>
     (\<forall>key d inm im s err. fst (s3_PutObject c bucket key d inm im s) = Some err \<longrightarrow>
        objs (snd (s3_PutObject c bucket key d inm im s)) = objs s \<or>
        \<not> ((inm \<noteq> None \<or> im \<noteq> None) \<and> s3_precondition_msg (s3e_msg err)) \<and>
        s3_condition (objs s) key inm im \<and>
        written (objs s) key d (objs (snd (s3_PutObject c bucket key d inm im s)))) \<and>
     (\<forall>key s. fst (s3_DeleteObject c bucket key s) = None \<longrightarrow>
        objs (snd (s3_DeleteObject c bucket key s)) = (objs s)(key := None))"

lemmas S3_defs = S3_store_def S3_Get_def S3_Put_def S3_Delete_def

lemma s3_condition_version:
  "s3_condition o1 p (Some ''*'') None \<longleftrightarrow> version_at o1 p = None"
  "s3_condition o1 p None (Some (ETag v)) \<longleftrightarrow> version_at o1 p = Some v"
  by (auto simp: s3_condition_def version_at_def)

text \<open>The adapter sends exactly one conditional header, expressing the version it was given.\<close>

lemma S3_PutIfMatch_request:
  obtains inm im where "inm \<noteq> None \<or> im \<noteq> None"
    and "\<forall>o1. s3_condition o1 p inm im \<longleftrightarrow> version_at o1 p = v"
    and "S3_PutIfMatch c b p d v s = (case s3_PutObject c b p d inm im s of
       (err, s') \<Rightarrow> (map_option (\<lambda>e. if s3_precondition_msg (s3e_msg e)
          then ErrPreconditionFailed else OtherErr (s3e_msg e)) err, s'))"
proof (cases v)
  case None
  then show ?thesis
    using that [of "Some ''*''" None]
    by (auto simp: S3_PutIfMatch_def s3_condition_version split: option.splits prod.splits)
next
  case (Some w)
  then show ?thesis
    using that [of None "Some (ETag w)"]
    by (auto simp: S3_PutIfMatch_def s3_condition_version split: option.splits prod.splits)
qed

lemma S3_PutIfMatch_outcome:
  assumes ct: "s3_contract c b objs" and eq: "S3_PutIfMatch c b p d v s = (r, s')"
  shows "r = None \<Longrightarrow> version_at (objs s) p = v \<and> written (objs s) p d (objs s')"
    and "r = Some e \<Longrightarrow> errors_Is e ErrPreconditionFailed \<Longrightarrow> objs s' = objs s"
    and "r = Some e \<Longrightarrow>
      objs s' = objs s \<or> version_at (objs s) p = v \<and> written (objs s) p d (objs s')"
proof -
  obtain inm im where h: "inm \<noteq> None \<or> im \<noteq> None"
    and cond: "\<forall>o1. s3_condition o1 p inm im \<longleftrightarrow> version_at o1 p = v"
    and req: "S3_PutIfMatch c b p d v s = (case s3_PutObject c b p d inm im s of
       (err, s') \<Rightarrow> (map_option (\<lambda>e. if s3_precondition_msg (s3e_msg e)
          then ErrPreconditionFailed else OtherErr (s3e_msg e)) err, s'))"
    by (rule S3_PutIfMatch_request [where c = c and b = b and p = p and d = d and v = v and s = s])
  obtain err where put: "s3_PutObject c b p d inm im s = (err, s')"
    and r: "r = map_option (\<lambda>e. if s3_precondition_msg (s3e_msg e)
          then ErrPreconditionFailed else OtherErr (s3e_msg e)) err"
    using eq req by (auto split: prod.splits)
  have ok: "err = None \<Longrightarrow> version_at (objs s) p = v \<and> written (objs s) p d (objs s')"
    using ct put cond unfolding s3_contract_def by (metis fst_conv snd_conv)
  have bad: "err = Some x \<Longrightarrow> objs s' = objs s \<or> \<not> s3_precondition_msg (s3e_msg x) \<and>
      version_at (objs s) p = v \<and> written (objs s) p d (objs s')" for x
    using ct put cond h unfolding s3_contract_def by (metis fst_conv snd_conv)
  show "r = None \<Longrightarrow> version_at (objs s) p = v \<and> written (objs s) p d (objs s')"
    using r ok by simp
  show "r = Some e \<Longrightarrow> errors_Is e ErrPreconditionFailed \<Longrightarrow> objs s' = objs s"
    using r bad by (auto split: if_splits)
  show "r = Some e \<Longrightarrow>
      objs s' = objs s \<or> version_at (objs s) p = v \<and> written (objs s) p d (objs s')"
    using r bad by (auto split: if_splits)
qed

lemma S3_Get_outcome:
  assumes ct: "s3_contract c b objs" and eq: "S3_Get c b p s = (r, s')"
  shows "objs s' = objs s" and "r \<noteq> Panic"
    and "r = Ok g \<Longrightarrow> objs s p = Some (gr_Data g, gr_Version g)"
    and "r = Err e \<Longrightarrow> errors_Is e ErrNotFound \<Longrightarrow> objs s p = None"
proof -
  obtain x where get: "s3_GetObject c b p s = (x, s')"
    using eq by (auto simp: S3_Get_def split: prod.splits sum.splits if_splits)
  show "objs s' = objs s" using ct get unfolding s3_contract_def by (metis snd_conv)
  show "r \<noteq> Panic"
    using eq get by (auto simp: S3_Get_def split: sum.splits if_splits)
  show "r = Ok g \<Longrightarrow> objs s p = Some (gr_Data g, gr_Version g)"
    using eq get ct unfolding s3_contract_def S3_Get_def
    by (fastforce split: sum.splits if_splits)
  show "r = Err e \<Longrightarrow> errors_Is e ErrNotFound \<Longrightarrow> objs s p = None"
  proof -
    assume r: "r = Err e" and nf: "errors_Is e ErrNotFound"
    show "objs s p = None"
    proof (cases x)
      case (Inl err)
      then have "s3_missing err"
        using eq get r nf by (auto simp: S3_Get_def s3_missing_def split: if_splits)
      then show ?thesis using ct get Inl unfolding s3_contract_def by (metis fst_conv)
    next
      case (Inr out)
      then have "s3o_Body out = Inl e"
        using eq get r by (auto simp: S3_Get_def split: sum.splits)
      then show ?thesis using ct get Inr nf unfolding s3_contract_def by (metis fst_conv)
    qed
  qed
qed

section \<open>Properties\<close>

text \<open>
  C26. The in-memory store is an exact compare-and-swap register: a conditional put succeeds exactly
  when the stored version is the one presented; a refused put changes nothing; after a successful
  one a read returns the new data under a version different from the old one.
\<close>

theorem InMemory_compare_and_swap:
  "case InMemory_PutIfMatch p d v m of
     (None, m') \<Rightarrow>
       version_at (InMemory_objects m) p = v \<and>
       (\<exists>v'. InMemory_Get p m' = (Ok \<lparr>gr_Data = d, gr_Version = v'\<rparr>, m') \<and> Some v' \<noteq> v) \<and>
       m'(p := m p) = m
   | (Some e, m') \<Rightarrow>
       version_at (InMemory_objects m) p \<noteq> v \<and> e = ErrPreconditionFailed \<and> m' = m"
  by (auto simp: InMemory_PutIfMatch_def InMemory_Get_def version_at_def InMemory_objects_def
      mem_etag_inject split: option.splits)

lemma S3_store_cas:
  assumes "s3_contract c bucket objs"
  shows "cas_store (S3_store c bucket) objs"
proof
  fix p s r s' assume "os_Get (S3_store c bucket) p s = (r, s')"
  then show "objs s' = objs s" using S3_Get_outcome(1) [OF assms] by (simp add: S3_store_def)
next
  fix p s g s' assume "os_Get (S3_store c bucket) p s = (Ok g, s')"
  then show "objs s p = Some (gr_Data g, gr_Version g)"
    using S3_Get_outcome(3) [OF assms] by (simp add: S3_store_def)
next
  fix p s e s' assume "os_Get (S3_store c bucket) p s = (Err e, s')" "errors_Is e ErrNotFound"
  then show "objs s p = None" using S3_Get_outcome(4) [OF assms] by (simp add: S3_store_def)
next
  fix p s show "fst (os_Get (S3_store c bucket) p s) \<noteq> Panic"
    using S3_Get_outcome(2) [OF assms] by (simp add: S3_store_def) (metis prod.collapse)
next
  fix p d s s' assume "os_Put (S3_store c bucket) p d s = (None, s')"
  then have "s3_PutObject c bucket p d None None s = (None, s')"
    by (simp add: S3_store_def S3_Put_def split: prod.splits)
  then show "written (objs s) p d (objs s')"
    using assms unfolding s3_contract_def by (metis fst_conv snd_conv)
next
  fix p d s e s' assume "os_Put (S3_store c bucket) p d s = (Some e, s')"
  then obtain err where "s3_PutObject c bucket p d None None s = (Some err, s')"
    by (auto simp add: S3_store_def S3_Put_def split: prod.splits)
  then show "objs s' = objs s \<or> written (objs s) p d (objs s')"
    using assms unfolding s3_contract_def by (metis fst_conv snd_conv)
next
  fix p d v s s' assume "os_PutIfMatch (S3_store c bucket) p d v s = (None, s')"
  then show "version_at (objs s) p = v \<and> written (objs s) p d (objs s')"
    using S3_PutIfMatch_outcome(1) [OF assms] by (simp add: S3_store_def)
next
  fix p d v s e s'
  assume "os_PutIfMatch (S3_store c bucket) p d v s = (Some e, s')" "errors_Is e ErrPreconditionFailed"
  then show "objs s' = objs s" using S3_PutIfMatch_outcome(2) [OF assms] by (simp add: S3_store_def)
next
  fix p d v s e s' assume "os_PutIfMatch (S3_store c bucket) p d v s = (Some e, s')"
  then show "objs s' = objs s \<or> version_at (objs s) p = v \<and> written (objs s) p d (objs s')"
    using S3_PutIfMatch_outcome(3) [OF assms] by (simp add: S3_store_def)
next
  fix p s s' assume "os_Delete (S3_store c bucket) p s = (None, s')"
  then have "s3_DeleteObject c bucket p s = (None, s')"
    by (simp add: S3_store_def S3_Delete_def split: prod.splits)
  then show "objs s' = (objs s)(p := None)"
    using assms unfolding s3_contract_def by (metis fst_conv snd_conv)
qed


text \<open>A client over one bucket whose entity tags are write counters, for the witness.\<close>

definition counter_client :: "InMemory s3_client" where
  "counter_client = \<lparr>
     s3_GetObject = (\<lambda>_ key m. (case m key of
        None \<Rightarrow> Inl \<lparr>s3e_NoSuchKey = True, s3e_msg = ''NoSuchKey''\<rparr>
      | Some obj \<Rightarrow> Inr \<lparr>s3o_Body = Inr (mo_data obj), s3o_ETag = Some (mem_etag (mo_version obj))\<rparr>, m)),
     s3_PutObject = (\<lambda>_ key d inm im m.
        if s3_condition (InMemory_objects m) key inm im then (None, snd (InMemory_Put key d m))
        else (Some \<lparr>s3e_NoSuchKey = False, s3e_msg = ''StatusCode: 412''\<rparr>, m)),
     s3_DeleteObject = (\<lambda>_ key m. (None, m(key := None)))\<rparr>"

lemma counter_client_contract: "s3_contract counter_client ''b'' InMemory_objects"
  by (auto simp: s3_contract_def counter_client_def InMemory_objects_def InMemory_Put_def written_def
      InMemory_objects_upd fun_eq_iff split: option.splits if_splits)


text \<open>
  The in-memory store does not detect a delete and re-create: version counters restart at 1, so
  a conditional put based on a read from before the delete succeeds against a different object.
\<close>

theorem InMemory_recreate_not_detected:
  assumes "m p = None" and "InMemory_Get p (snd (InMemory_Put p d1 m)) = (Ok g, m1)"
  shows "InMemory_PutIfMatch p d3 (Some (gr_Version g))
           (snd (InMemory_Put p d2 (snd (InMemory_Delete p m1)))) =
         (None, m(p \<mapsto> \<lparr>mo_data = d3, mo_version = 2\<rparr>))"
  using assms
  by (auto simp: InMemory_Put_def InMemory_Get_def InMemory_Delete_def InMemory_PutIfMatch_def)

theorem InMemory_recreate_not_detected_witness:
  "InMemory_PutIfMatch ''k'' [3] (Some \<lparr>ETag = mem_etag 1\<rparr>)
      (snd (InMemory_Put ''k'' [2] (snd (InMemory_Delete ''k'' [''k'' \<mapsto> \<lparr>mo_data = [1], mo_version = 1\<rparr>])))) =
    (None, [''k'' \<mapsto> \<lparr>mo_data = [3], mo_version = 2\<rparr>])"
  using InMemory_recreate_not_detected [of Map.empty "''k''" "[1]"
      "\<lparr>gr_Data = [1], gr_Version = \<lparr>ETag = mem_etag 1\<rparr>\<rparr>" "[''k'' \<mapsto> \<lparr>mo_data = [1], mo_version = 1\<rparr>]" "[3]" "[2]"]
  by (simp add: InMemory_Put_def InMemory_Get_def)

end
