(* ===== verification/Enqueuer.thy ===== *)
theory Enqueuer
  imports Complex_Main Manifest Objstore
begin

text \<open>
  The manifest enqueuer of \<^verbatim>\<open>buffer/manifest.go\<close>: the conflict counter, reading the
  manifest and the optimistic-concurrency loop \<^verbatim>\<open>enqueueBatch\<close>.  Other clients of the store
  act between the calls of the loop: \<open>env i\<close> is what they do to the store before the
  \<open>i\<close>-th store call of this \<^verbatim>\<open>enqueueBatch\<close> (round \<open>c\<close> makes the calls \<open>2c\<close>, a read,
  and \<open>2c + 1\<close>, a conditional write).  The loop has no bound in the source, so it is a partial
  function whose value is \<open>None\<close> when it never returns.
\<close>

section \<open>Conflict counter\<close>

record conflictCounter =
  writeCount :: u64
  conflictCount :: u64

definition recordWrite :: "conflictCounter \<Rightarrow> conflictCounter" where
  "recordWrite c = c\<lparr>writeCount := writeCount c + 1\<rparr>"

definition recordConflict :: "conflictCounter \<Rightarrow> conflictCounter" where
  "recordConflict c = c\<lparr>conflictCount := conflictCount c + 1\<rparr>"

text \<open>The rate as a real number; the rounding of \<^verbatim>\<open>float64\<close> is not modelled.\<close>

definition counter_conflictRate :: "conflictCounter \<Rightarrow> real" where
  "counter_conflictRate c =
     (let writes = writeCount c in
      if writes = 0 then 0
      else
        let conflicts = conflictCount c;
            rate = (real (unat conflicts) / real (unat writes)) * 100 in
        if rate > 100 then 100 else rate)"

section \<open>Enqueuer\<close>

record 's manifestEnqueuer =
  me_store :: "'s ObjectStore"
  me_manifestPath :: string
  me_counter :: conflictCounter

definition newManifestEnqueuer :: "'s ObjectStore \<Rightarrow> string \<Rightarrow> 's manifestEnqueuer" where
  "newManifestEnqueuer store manifestPath =
     \<lparr>me_store = store, me_manifestPath = manifestPath,
      me_counter = \<lparr>writeCount = 0, conflictCount = 0\<rparr>\<rparr>"

definition me_conflictRate :: "'s manifestEnqueuer \<Rightarrow> real" where
  "me_conflictRate p = counter_conflictRate (me_counter p)"

record enqueueItem =
  ei_Location :: string
  ei_Metadata :: "QueueMetadata list"

definition readManifest ::
  "'s manifestEnqueuer \<Rightarrow> 's \<Rightarrow> (manifest \<times> Version option) res \<times> 's" where
  "readManifest p s =
     (case os_Get (me_store p) (me_manifestPath p) s of
        (Panic, s') \<Rightarrow> (Panic, s')
      | (Err err, s') \<Rightarrow>
          if errors_Is err ErrNotFound then (Ok (emptyManifest, None), s')
          else (Err (storageErr (Error_msg err)), s')
      | (Ok result, s') \<Rightarrow>
          (case manifestFromBytes (gr_Data result) of
             Panic \<Rightarrow> (Panic, s')
           | Err err \<Rightarrow> (Err err, s')
           | Ok m \<Rightarrow> (Ok (m, Some (gr_Version result)), s')))"

definition item_entry :: "enqueueItem \<Rightarrow> QueueEntry" where
  "item_entry i = \<lparr>Sequence = 0, Location = ei_Location i, Metadata = ei_Metadata i\<rparr>"

fun append_items :: "manifest \<Rightarrow> enqueueItem list \<Rightarrow> manifest res" where
  "append_items m [] = Ok m"
| "append_items m (i # items) = obind (manifest_append m (item_entry i)) (\<lambda>m'. append_items m' items)"

text \<open>A call returns a conflict count and an error, or panics; a round returns or starts over.\<close>

datatype 'a run = Returned 'a | Panicked

type_synonym enqueue_result = "(nat \<times> gerror option) run"

datatype 's round = Done enqueue_result "'s manifestEnqueuer" 's | Retry "'s manifestEnqueuer" 's

definition enqueue_round ::
  "(nat \<Rightarrow> 's \<Rightarrow> 's) \<Rightarrow> enqueueItem list \<Rightarrow> nat \<Rightarrow> 's manifestEnqueuer \<Rightarrow> 's \<Rightarrow> 's round" where
  "enqueue_round env items conflicts p s =
     (case readManifest p (env (2 * conflicts) s) of
        (Panic, s1) \<Rightarrow> Done Panicked p s1
      | (Err err, s1) \<Rightarrow> Done (Returned (conflicts, Some err)) p s1
      | (Ok (m0, version), s1) \<Rightarrow>
          (case append_items m0 items of
             Panic \<Rightarrow> Done Panicked p s1
           | Err err \<Rightarrow> Done (Returned (conflicts, Some err)) p s1
           | Ok m \<Rightarrow>
               (case manifest_toBytes m of
                  Panic \<Rightarrow> Done Panicked p s1
                | Err err \<Rightarrow> Done (Returned (conflicts, Some err)) p s1
                | Ok data \<Rightarrow>
                    let p1 = p\<lparr>me_counter := recordWrite (me_counter p)\<rparr> in
                    (case os_PutIfMatch (me_store p) (me_manifestPath p) data version
                            (env (2 * conflicts + 1) s1) of
                       (None, s2) \<Rightarrow> Done (Returned (conflicts, None)) p1 s2
                     | (Some err, s2) \<Rightarrow>
                         if errors_Is err ErrPreconditionFailed
                         then Retry (p1\<lparr>me_counter := recordConflict (me_counter p1)\<rparr>) s2
                         else Done (Returned (conflicts, Some (storageErr (Error_msg err)))) p1 s2))))"

partial_function (option) enqueue_loop ::
  "(nat \<Rightarrow> 's \<Rightarrow> 's) \<Rightarrow> enqueueItem list \<Rightarrow> nat \<Rightarrow> 's manifestEnqueuer \<Rightarrow> 's \<Rightarrow>
     (enqueue_result \<times> 's manifestEnqueuer \<times> 's) option" where
  "enqueue_loop env items conflicts p s =
     (case enqueue_round env items conflicts p s of
        Done r p' s' \<Rightarrow> Some (r, p', s')
      | Retry p' s' \<Rightarrow> enqueue_loop env items (Suc conflicts) p' s')"

definition enqueueBatch ::
  "(nat \<Rightarrow> 's \<Rightarrow> 's) \<Rightarrow> enqueueItem list \<Rightarrow> 's manifestEnqueuer \<Rightarrow> 's \<Rightarrow>
     (enqueue_result \<times> 's manifestEnqueuer \<times> 's) option" where
  "enqueueBatch env items p s =
     (if length items = 0 then Some (Returned (0, None), p, s)
      else enqueue_loop env items 0 p s)"

section \<open>Specification\<close>

text \<open>
  The object at the manifest path as an abstract queue: no object is the empty queue.  \<open>q_items\<close>
  enqueues items one by one.
\<close>

definition queue_at :: "objects \<Rightarrow> string \<Rightarrow> queue \<Rightarrow> bool" where
  "queue_at o1 path q \<longleftrightarrow> queue_fits q \<and>
     (case o1 path of None \<Rightarrow> q = q_empty | Some (d, v) \<Rightarrow> d = queue_bytes q)"

definition q_items :: "queue \<Rightarrow> enqueueItem list \<Rightarrow> queue" where
  "q_items q items = fold (\<lambda>i q. q_enqueue (item_entry i) q) items q"

definition item_fits :: "enqueueItem \<Rightarrow> bool" where
  "item_fits i \<longleftrightarrow> entry_fits (item_entry i)"

text \<open>
  \<open>appends_only\<close>: step \<open>i\<close> of the other clients enqueues the items \<open>ext i\<close> (while they
  fit) and the version of the manifest changes when its content does.
\<close>

definition appends_only ::
  "('s \<Rightarrow> objects) \<Rightarrow> string \<Rightarrow> (nat \<Rightarrow> 's \<Rightarrow> 's) \<Rightarrow> (nat \<Rightarrow> enqueueItem list) \<Rightarrow> bool" where
  "appends_only objs path env ext \<longleftrightarrow>
     (\<forall>i s q. queue_at (objs s) path q \<longrightarrow> queue_fits (q_items q (ext i)) \<longrightarrow>
        queue_at (objs (env i s)) path (q_items q (ext i))) \<and>
     (\<forall>i s. version_at (objs (env i s)) path = version_at (objs s) path \<longrightarrow>
        objs (env i s) path = objs s path)"

definition others :: "(nat \<Rightarrow> enqueueItem list) \<Rightarrow> nat \<Rightarrow> nat \<Rightarrow> enqueueItem list" where
  "others ext a b = concat (map ext [a..<b])"

text \<open>
  The postcondition of \<^verbatim>\<open>enqueueBatch\<close> after it started on the queue \<open>q\<close>: a nil error
  means that the items are at the end, after everything the others enqueued in the meantime; an error
  means that the items are not there, or, after a write that failed for a reason other than a
  conflict, that all of them may be.
\<close>

definition enqueue_post ::
  "objects \<Rightarrow> string \<Rightarrow> queue \<Rightarrow> (nat \<Rightarrow> enqueueItem list) \<Rightarrow> enqueueItem list \<Rightarrow> enqueue_result \<Rightarrow> bool" where
  "enqueue_post o1 path q ext items r \<longleftrightarrow>
     (case r of
        Panicked \<Rightarrow> False
      | Returned (c, None) \<Rightarrow> queue_at o1 path (q_items q (others ext 0 (2 * c + 2) @ items))
      | Returned (c, Some e) \<Rightarrow>
          queue_at o1 path (q_items q (others ext 0 (2 * c + 1))) \<or>
          queue_at o1 path (q_items q (others ext 0 (2 * c + 2))) \<or>
          errors_Is e ErrStorage \<and> queue_at o1 path (q_items q (others ext 0 (2 * c + 2) @ items)))"

section \<open>Abstract lemmas\<close>

lemma q_items_simps [simp]:
  "q_items q [] = q"
  "q_items q (i # items) = q_items (q_enqueue (item_entry i) q) items"
  "q_items q (xs @ ys) = q_items (q_items q xs) ys"
  by (simp_all add: q_items_def)

lemma q_items_length: "length (q_entries (q_items q items)) = length (q_entries q) + length items"
  by (induction items arbitrary: q) (simp_all add: q_enqueue_def)

lemma q_items_fits:
  "queue_fits (q_items q items) \<longleftrightarrow>
     length (q_entries q) + length items \<le> 4294967295 \<and> list_all entry_fits (q_entries q) \<and>
     list_all item_fits items"
  by (induction items arbitrary: q)
    (auto simp: queue_fits_def q_enqueue_def item_fits_def)

lemma q_items_fits_prefix: "queue_fits (q_items (q_items q xs) ys) \<Longrightarrow> queue_fits (q_items q xs)"
  using q_items_fits [of q "xs @ ys"] q_items_fits [of q xs] by simp

lemma q_enqueue_extend:
  "q_enqueue e (q_extend q as) = q_extend q (as @ [e\<lparr>Sequence := q_next q + of_nat (length as)\<rparr>])"
  by (simp add: q_enqueue_def q_extend_def)

lemma others_simps [simp]:
  "others ext a a = []"
  "others ext a (Suc a) = ext a"
  "others ext a (Suc (Suc a)) = ext a @ ext (Suc a)"
  by (simp_all add: others_def upt_rec)

lemma others_split: "a \<le> b \<Longrightarrow> b \<le> c \<Longrightarrow> others ext a c = others ext a b @ others ext b c"
  unfolding others_def by (metis concat_append le_Suc_ex map_append upt_add_eq_append)

lemma enqueue_loop_induct:
  fixes p :: "'s manifestEnqueuer"
  assumes ret: "enqueue_loop env items c p s = Some out"
    and step_Done: "\<And>c p s r p' s'. enqueue_round env items c p s = Done r p' s' \<Longrightarrow> P c p s (r, p', s')"
    and step_Retry: "\<And>c p s p1 s1 out. enqueue_round env items c p s = Retry p1 s1 \<Longrightarrow>
      P (Suc c) p1 s1 out \<Longrightarrow> P c p s out"
  shows "P c p s out"
proof -
  let ?P = "\<lambda>e i c (p :: 's manifestEnqueuer) s out. e = env \<longrightarrow> i = items \<longrightarrow> P c p s out"
  have "?P env items c p s out"
  proof (rule enqueue_loop.raw_induct [OF _ ret, where P = ?P])
    fix f e i c and p :: "'s manifestEnqueuer" and s out
    assume IH: "\<And>e i c p s out. f e i c p s = Some out \<Longrightarrow> ?P e i c p s out"
      and eq: "(case enqueue_round e i c p s of Done r p' s' \<Rightarrow> Some (r, p', s')
        | Retry p' s' \<Rightarrow> f e i (Suc c) p' s') = Some out"
    show "?P e i c p s out"
    proof (cases "enqueue_round e i c p s")
      case (Done r p' s')
      then show ?thesis using eq step_Done by auto
    next
      case (Retry p1 s1)
      then have "f e i (Suc c) p1 s1 = Some out" using eq by simp
      from IH [OF this] Retry show ?thesis using step_Retry by blast
    qed
  qed
  then show ?thesis by simp
qed

section \<open>One round\<close>

lemma append_items_rel:
  assumes "manifest_rel q as m" and "list_all item_fits items"
  shows "\<exists>m' as'. append_items m items = Ok m' \<and> manifest_rel q as' m' \<and>
     length as' = length as + length items \<and> q_extend q as' = q_items (q_extend q as) items"
  using assms
proof (induction items arbitrary: as m)
  case (Cons i items)
  have "entry_checked (item_entry i)" using Cons.prems(2) by (simp add: item_fits_def entry_fits_def)
  from manifest_rel_append [OF Cons.prems(1) this] obtain m1 where
    "manifest_append m (item_entry i) = Ok m1"
    "manifest_rel q (as @ [(item_entry i)\<lparr>Sequence := q_next q + of_nat (length as)\<rparr>]) m1"
    by blast
  then show ?case
    using Cons.IH [of "as @ [(item_entry i)\<lparr>Sequence := q_next q + of_nat (length as)\<rparr>]" m1] Cons.prems(2)
    by (simp add: q_enqueue_extend)
qed auto

text \<open>What appending to and serializing a manifest read at the queue \<open>q\<close> computes.\<close>

lemma append_items_toBytes:
  assumes "manifest_rel q [] m" and "queue_fits q" and "list_all item_fits items"
    and "length items < 2 ^ 63"
  shows "\<exists>m'. append_items m items = Ok m' \<and>
     (if queue_fits (q_items q items) then manifest_toBytes m' = Ok (queue_bytes (q_items q items))
      else \<exists>e. manifest_toBytes m' = Err e \<and> errors_Is e ErrSerialization)"
proof -
  obtain m' as' where "append_items m items = Ok m'" and rel: "manifest_rel q as' m'"
    and len: "length as' = length items" and q: "q_extend q as' = q_items q items"
    using append_items_rel [OF assms(1,3)] by (auto simp: q_extend_def)
  moreover have "queue_fits (q_items q items) \<longleftrightarrow> length (q_entries q) + length as' \<le> 4294967295"
    unfolding q_items_fits using assms(2,3) len by (simp add: queue_fits_def)
  ultimately show ?thesis
    using manifest_rel_toBytes [OF rel assms(2)] assms(4) by simp
qed

lemma queue_at_unique:
  assumes "queue_at o1 path q" and "queue_at o2 path r" and "o1 path = o2 path"
  shows "q = r"
  using assms queue_bytes_inject by (auto simp: queue_at_def split: option.splits)

lemma queue_at_written:
  "queue_fits q \<Longrightarrow> written o1 path (queue_bytes q) o2 \<Longrightarrow> queue_at o2 path q"
  by (auto simp: written_def queue_at_def)

context cas_store
begin

lemma readManifest_outcome:
  assumes "me_store p = S" and "queue_at (objs s) (me_manifestPath p) q"
    and "readManifest p s = (r, s')"
  shows "objs s' = objs s"
    and "(\<exists>e. r = Err e) \<or> (\<exists>m. r = Ok (m, version_at (objs s) (me_manifestPath p)) \<and> manifest_rel q [] m)"
proof -
  obtain x where get: "os_Get S (me_manifestPath p) s = (x, s')"
    using assms(1,3) by (auto simp: readManifest_def split: prod.splits res.splits if_splits)
  show "objs s' = objs s" by (rule get_frame [OF get])
  show "(\<exists>e. r = Err e) \<or> (\<exists>m. r = Ok (m, version_at (objs s) (me_manifestPath p)) \<and> manifest_rel q [] m)"
  proof (cases x)
    case (Ok g)
    then have o: "objs s (me_manifestPath p) = Some (gr_Data g, gr_Version g)"
      using get get_found by blast
    then have "gr_Data g = queue_bytes q" using assms(2) by (simp add: queue_at_def)
    with assms(1,3) get Ok o manifest_rel_read [of q] show ?thesis
      by (auto simp: readManifest_def version_at_def)
  next
    case (Err e)
    have "errors_Is e ErrNotFound \<Longrightarrow> objs s (me_manifestPath p) = None"
      using get get_missing Err by blast
    with assms Err get show ?thesis
      by (auto simp: readManifest_def version_at_def queue_at_def manifest_rel_empty split: if_splits)
  next
    case Panic
    then show ?thesis using get_returns [of "me_manifestPath p" s] get by simp
  qed
qed

text \<open>The conditional write takes effect only if nobody changed the queue since it was read.\<close>

lemma cas_queue_outcome:
  assumes "queue_at (objs s1) path q1" and at2: "queue_at (objs s2) path q2"
    and stable: "version_at (objs s2) path = version_at (objs s1) path \<Longrightarrow> objs s2 path = objs s1 path"
    and "queue_fits (q_items q1 items)"
    and put: "os_PutIfMatch S path (queue_bytes (q_items q1 items)) (version_at (objs s1) path) s2 = (r, s3)"
  shows "r = None \<Longrightarrow> queue_at (objs s3) path (q_items q2 items)"
    and "r = Some e \<Longrightarrow> errors_Is e ErrPreconditionFailed \<Longrightarrow> queue_at (objs s3) path q2"
    and "r = Some e \<Longrightarrow> queue_at (objs s3) path q2 \<or> queue_at (objs s3) path (q_items q2 items)"
proof -
  have hit: "queue_at (objs s3) path (q_items q2 items)"
    if "version_at (objs s2) path = version_at (objs s1) path"
      "written (objs s2) path (queue_bytes (q_items q1 items)) (objs s3)"
    using queue_at_unique [OF assms(1) at2] stable [OF that(1)] queue_at_written [OF assms(4) that(2)]
    by simp
  show "r = None \<Longrightarrow> queue_at (objs s3) path (q_items q2 items)"
    using hit put cas_ok by blast
  show "r = Some e \<Longrightarrow> errors_Is e ErrPreconditionFailed \<Longrightarrow> queue_at (objs s3) path q2"
    using put cas_conflict at2 by metis
  show "r = Some e \<Longrightarrow> queue_at (objs s3) path q2 \<or> queue_at (objs s3) path (q_items q2 items)"
    using put cas_error hit at2 by metis
qed

text \<open>
  The rest of a round after a successful read at the queue \<open>q1\<close>, with \<open>q2\<close> the queue at the
  time of the write.
\<close>

lemma enqueue_round_write:
  assumes "me_store p = S" and "me_manifestPath p = path"
    and rd: "readManifest p (env (2 * c) s) = (Ok (m, version_at (objs s1) path), s1)"
    and rel: "manifest_rel q1 [] m" and at1: "queue_at (objs s1) path q1"
    and at2: "queue_at (objs (env (2 * c + 1) s1)) path q2"
    and stable: "version_at (objs (env (2 * c + 1) s1)) path = version_at (objs s1) path \<Longrightarrow>
      objs (env (2 * c + 1) s1) path = objs s1 path"
    and items: "list_all item_fits items" "length items < 2 ^ 63"
  shows "case enqueue_round env items c p s of
      Retry p' s' \<Rightarrow> queue_at (objs s') path q2 \<and> me_store p' = S \<and> me_manifestPath p' = path
    | Done Panicked p' s' \<Rightarrow> False
    | Done (Returned (c', None)) p' s' \<Rightarrow> c' = c \<and> queue_at (objs s') path (q_items q2 items)
    | Done (Returned (c', Some e)) p' s' \<Rightarrow> c' = c \<and> (queue_at (objs s') path q1 \<or>
        queue_at (objs s') path q2 \<or> errors_Is e ErrStorage \<and> queue_at (objs s') path (q_items q2 items))"
proof -
  have "queue_fits q1" using at1 by (simp add: queue_at_def)
  from append_items_toBytes [OF rel this items] obtain m' where app: "append_items m items = Ok m'" and
    ser: "if queue_fits (q_items q1 items) then manifest_toBytes m' = Ok (queue_bytes (q_items q1 items))
        else \<exists>e. manifest_toBytes m' = Err e \<and> errors_Is e ErrSerialization" by blast
  show ?thesis
  proof (cases "queue_fits (q_items q1 items)")
    case False
    then obtain e where "manifest_toBytes m' = Err e" using ser by auto
    then show ?thesis using rd app at1 by (auto simp: enqueue_round_def)
  next
    case True
    let ?s2 = "env (2 * c + 1) s1" and ?d = "queue_bytes (q_items q1 items)"
    obtain r3 s3 where put: "os_PutIfMatch S path ?d (version_at (objs s1) path) ?s2 = (r3, s3)"
      by fastforce
    have "manifest_toBytes m' = Ok ?d" using ser True by simp
    then show ?thesis
      using rd app put assms(1,2) cas_queue_outcome [OF at1 at2 stable True put]
      by (cases r3) (auto simp: enqueue_round_def Let_def)
  qed
qed

lemma enqueue_round_outcome:
  assumes st: "me_store p = S" and path: "me_manifestPath p = path"
    and env: "appends_only objs path env ext"
    and room: "\<forall>n. queue_fits (q_items q (others ext 0 n))"
    and items: "list_all item_fits items" "length items < 2 ^ 63"
    and cur: "queue_at (objs s) path (q_items q (others ext 0 (2 * c)))"
  shows "case enqueue_round env items c p s of
      Retry p' s' \<Rightarrow> queue_at (objs s') path (q_items q (others ext 0 (2 * Suc c))) \<and>
        me_store p' = S \<and> me_manifestPath p' = path
    | Done r p' s' \<Rightarrow> enqueue_post (objs s') path q ext items r"
proof -
  let ?q1 = "q_items q (others ext 0 (2 * c + 1))" and ?q2 = "q_items q (others ext 0 (2 * c + 2))"
  have q: "?q1 = q_items (q_items q (others ext 0 (2 * c))) (ext (2 * c))"
    "?q2 = q_items ?q1 (ext (2 * c + 1))"
    using others_split [of 0 "2 * c" "2 * c + 1" ext] others_split [of 0 "2 * c + 1" "2 * c + 2" ext] by simp_all
  have step: "queue_at (objs s) path r \<Longrightarrow> queue_fits (q_items r (ext i)) \<Longrightarrow>
      queue_at (objs (env i s)) path (q_items r (ext i))" for i s r
    using env by (simp add: appends_only_def)
  have at0: "queue_at (objs (env (2 * c) s)) path ?q1" using step [OF cur] room q(1) by metis
  obtain r1 s1 where rd: "readManifest p (env (2 * c) s) = (r1, s1)" by fastforce
  note out = readManifest_outcome [OF st, unfolded path, OF at0 rd]
  have at1: "queue_at (objs s1) path ?q1" using at0 out(1) by simp
  have at2: "queue_at (objs (env (2 * c + 1) s1)) path ?q2" using step [OF at1] room q(2) by metis
  consider (err) e where "r1 = Err e"
    | (ok) m where "r1 = Ok (m, version_at (objs s1) path)" "manifest_rel ?q1 [] m"
    using out by auto
  then show ?thesis
  proof cases
    case err
    with rd at1 show ?thesis by (auto simp: enqueue_round_def enqueue_post_def)
  next
    case ok
    with rd have rd': "readManifest p (env (2 * c) s) = (Ok (m, version_at (objs s1) path), s1)" by simp
    have "version_at (objs (env (2 * c + 1) s1)) path = version_at (objs s1) path \<Longrightarrow>
      objs (env (2 * c + 1) s1) path = objs s1 path" using env by (simp add: appends_only_def)
    from enqueue_round_write [OF st path rd' ok(2) at1 at2 this items] show ?thesis
      by (auto simp: enqueue_post_def split: round.splits run.splits option.splits)
  qed
qed

section \<open>The loop\<close>

lemma enqueue_loop_outcome:
  assumes ret: "enqueue_loop env items c p s = Some (r, p', s')"
    and pre: "me_store p = S" "me_manifestPath p = path"
    and env: "appends_only objs path env ext"
    and room: "\<forall>n. queue_fits (q_items q (others ext 0 n))"
    and items: "list_all item_fits items" "length items < 2 ^ 63"
    and cur: "queue_at (objs s) path (q_items q (others ext 0 (2 * c)))"
  shows "enqueue_post (objs s') path q ext items r"
proof -
  note step = enqueue_round_outcome [OF _ _ env room items]
  have "me_store p = S \<longrightarrow> me_manifestPath p = path \<longrightarrow>
      queue_at (objs s) path (q_items q (others ext 0 (2 * c))) \<longrightarrow>
      (case (r, p', s') of (r, p', s') \<Rightarrow> enqueue_post (objs s') path q ext items r)"
    by (rule enqueue_loop_induct [OF ret]) (use step in \<open>fastforce\<close>)+
  with pre cur show ?thesis by simp
qed

end

section \<open>No panics\<close>

lemma encodeQueueEntry_not_Panic [simp]: "encodeQueueEntry e \<noteq> Panic"
  by (auto simp: encodeQueueEntry_def outcome_simps Let_def)

lemma append_items_inv:
  "append_items m items \<noteq> Panic \<and> (\<forall>m'. append_items m items = Ok m' \<longrightarrow> m_data m' = m_data m)"
  by (induction items arbitrary: m) (auto simp: manifest_append_def outcome_simps)

lemma manifestFromBytes_footer_room: "manifestFromBytes d = Ok m \<Longrightarrow> mFooterSize \<le> int (length (m_data m))"
  by (auto simp: manifestFromBytes_def outcome_simps Let_def split: if_splits)

lemma emptyManifest_footer_room: "mFooterSize \<le> int (length (m_data emptyManifest))"
  by (simp add: emptyManifest_def footer_bytes_eq manifest_sizes)

lemma manifest_toBytes_not_Panic:
  "mFooterSize \<le> int (length (m_data m)) \<Longrightarrow> manifest_toBytes m \<noteq> Panic"
  by (auto simp: manifest_toBytes_def existingEntriesCount_def outcome_simps slice_def Uint32_def
      manifest_sizes Let_def split: if_splits)

lemma readManifest_footer_room:
  "readManifest p s = (Ok (m, v), s') \<Longrightarrow> mFooterSize \<le> int (length (m_data m))"
  by (auto simp: readManifest_def emptyManifest_footer_room split: prod.splits res.splits if_splits
      intro: manifestFromBytes_footer_room)

context cas_store
begin

lemma readManifest_not_Panic: "me_store p = S \<Longrightarrow> readManifest p s \<noteq> (Panic, s')"
  using get_returns [of "me_manifestPath p" s]
  by (auto simp: readManifest_def split: prod.splits res.splits if_splits)

lemma enqueue_round_not_Panic: "me_store p = S \<Longrightarrow> enqueue_round env items c p s \<noteq> Done Panicked p' s'"
  using append_items_inv readManifest_not_Panic [of p]
  by (auto simp: enqueue_round_def Let_def manifest_toBytes_not_Panic
      dest: readManifest_footer_room
      split: prod.splits res.splits option.splits if_splits)

end

section \<open>Progress\<close>

context exact_store
begin

lemma readManifest_exact:
  assumes "me_store p = S" and "me_manifestPath p = path" and "queue_at (objs s) path q"
  shows "\<exists>m s'. readManifest p s = (Ok (m, version_at (objs s) path), s') \<and> objs s' = objs s \<and>
     manifest_rel q [] m"
proof -
  obtain r s' where rd: "readManifest p s = (r, s')" by fastforce
  have "r \<noteq> Err e" for e
    using rd assms get_hit [of s path] get_miss [of s path] manifestFromBytes_queue_bytes [of q]
    by (cases "objs s path") (auto simp: readManifest_def queue_at_def split: prod.splits res.splits if_splits)
  with readManifest_outcome [OF assms(1) assms(3) [folded assms(2)] rd] rd assms(2) show ?thesis by auto
qed

lemma enqueue_round_exact:
  assumes st: "me_store p = S" and path: "me_manifestPath p = path"
    and env: "appends_only objs path env ext"
    and room: "\<forall>n. queue_fits (q_items q (others ext 0 n @ items))"
    and items: "length items < 2 ^ 63"
    and cur: "queue_at (objs s) path (q_items q (others ext 0 (2 * c)))"
  shows "case enqueue_round env items c p s of
      Retry p' s' \<Rightarrow> \<not> (\<forall>s. objs (env (2 * c + 1) s) path = objs s path)
    | Done r p' s' \<Rightarrow> r = Returned (c, None)"
proof -
  let ?q1 = "q_items q (others ext 0 (2 * c + 1))"
  have fits: "queue_fits (q_items ?q1 items)" "list_all item_fits items"
    using room q_items_fits [of ?q1 items] by auto
  have q1: "?q1 = q_items (q_items q (others ext 0 (2 * c))) (ext (2 * c))"
    using others_split [of 0 "2 * c" "2 * c + 1" ext] by simp
  have at0: "queue_at (objs (env (2 * c) s)) path ?q1"
    using env cur q_items_fits_prefix [OF fits(1)] q1 by (metis appends_only_def)
  from readManifest_exact [OF st path at0] obtain m s1 where
    rd: "readManifest p (env (2 * c) s) = (Ok (m, version_at (objs (env (2 * c) s)) path), s1)"
    and o: "objs s1 = objs (env (2 * c) s)" and rel: "manifest_rel ?q1 [] m" by blast
  from append_items_toBytes [OF rel _ fits(2) items] fits(1) q_items_fits_prefix [OF fits(1)]
  obtain m' d where ser: "append_items m items = Ok m'" "manifest_toBytes m' = Ok d" by auto
  let ?s2 = "env (2 * c + 1) s1" and ?v = "version_at (objs s1) path"
  obtain r s3 where put: "os_PutIfMatch S path d ?v ?s2 = (r, s3)" by fastforce
  have "r = None \<or> r = Some ErrPreconditionFailed \<and> objs ?s2 path \<noteq> objs s1 path"
    using cas_hit [of ?s2 path ?v d] cas_miss [of ?s2 path ?v d] put by (fastforce simp: version_at_def)
  with rd ser put st path o show ?thesis by (auto simp: enqueue_round_def Let_def intro!: exI [of _ s1])
qed

lemma enqueue_loop_returns:
  assumes "me_store p = S" and "me_manifestPath p = path"
    and "appends_only objs path env ext"
    and "\<forall>n. queue_fits (q_items q (others ext 0 n @ items))"
    and "length items < 2 ^ 63"
    and "queue_at (objs s) path (q_items q (others ext 0 (2 * c)))"
    and "\<forall>s. objs (env (2 * n + 1) s) path = objs s path" and "c \<le> n"
  shows "\<exists>c' p' s'. enqueue_loop env items c p s = Some (Returned (c', None), p', s') \<and> c' \<le> n"
  using assms
proof (induction "n - c" arbitrary: c p s rule: less_induct)
  case less
  have room: "\<forall>n. queue_fits (q_items q (others ext 0 n))"
    using less.prems(4) q_items_fits_prefix by (metis q_items_simps(3))
  have fits: "list_all item_fits items"
    using less.prems(4) q_items_fits by (metis q_items_simps(3))
  note out = enqueue_round_outcome [OF less.prems(1-3) room fits less.prems(5,6)]
    and ex = enqueue_round_exact [OF less.prems(1-6)]
  show ?case
  proof (cases "enqueue_round env items c p s")
    case (Done r p' s')
    then show ?thesis using ex less.prems(8) by (simp add: enqueue_loop.simps)
  next
    case (Retry p' s')
    then have "c \<noteq> n" using ex less.prems(7) by auto
    then have "n - Suc c < n - c" "Suc c \<le> n" using less.prems(8) by auto
    from less.hyps [OF this(1) _ _ less.prems(3-5) _ less.prems(7) this(2)] show ?thesis
      using out Retry by (simp add: enqueue_loop.simps)
  qed
qed

end

section \<open>Other producers as the environment\<close>

text \<open>
  Another producer on an in-memory store commits one batch, \<open>its i\<close>, before our \<open>i\<close>-th call.
\<close>

definition rival :: "string \<Rightarrow> (nat \<Rightarrow> enqueueItem list) \<Rightarrow> nat \<Rightarrow> InMemory \<Rightarrow> InMemory" where
  "rival path its i m =
     (case enqueueBatch (\<lambda>_ m. m) (its i) (newManifestEnqueuer InMemory_store path) m of
        Some (_, _, m') \<Rightarrow> m'
      | None \<Rightarrow> m)"

lemma newManifestEnqueuer_simps [simp]:
  "me_store (newManifestEnqueuer S path) = S"
  "me_manifestPath (newManifestEnqueuer S path) = path"
  "writeCount (me_counter (newManifestEnqueuer S path)) = 0"
  "conflictCount (me_counter (newManifestEnqueuer S path)) = 0"
  by (simp_all add: newManifestEnqueuer_def)

lemma idle_appends_only: "appends_only objs path (\<lambda>_ s. s) (\<lambda>_. [])"
  by (simp add: appends_only_def)

lemma others_idle [simp]: "others (\<lambda>_. []) a b = []"
  by (simp add: others_def)

lemma enqueueBatch_uncontended:
  assumes "queue_at (InMemory_objects m) path q" and fits: "queue_fits (q_items q items)"
  shows "\<exists>p' m'. enqueueBatch (\<lambda>_ m. m) items (newManifestEnqueuer InMemory_store path) m =
      Some (Returned (0, None), p', m') \<and> queue_at (InMemory_objects m') path (q_items q items)"
proof (cases "items = []")
  case False
  let ?p = "newManifestEnqueuer InMemory_store path"
  have len: "length items < 2 ^ 63" and ok: "list_all item_fits items"
    and room: "\<forall>n. queue_fits (q_items q (others (\<lambda>_. []) 0 n))"
    using fits q_items_fits [of q items] q_items_fits [of q "[]"] by auto
  obtain p' m' where ret: "enqueue_loop (\<lambda>_ m. m) items 0 ?p m = Some (Returned (0, None), p', m')"
    using mem.enqueue_loop_returns [of ?p path "\<lambda>_ m. m" "\<lambda>_. []" q items m 0 0] assms(1) fits len
      idle_appends_only by auto
  from mem.enqueue_loop_outcome [OF this _ _ idle_appends_only room ok len] assms(1)
  show ?thesis using ret False by (simp add: enqueueBatch_def enqueue_post_def)
qed (use assms in \<open>simp add: enqueueBatch_def\<close>)

lemma InMemory_Get_state: "os_Get InMemory_store p m = (r, m') \<Longrightarrow> m' = m"
  by (auto simp: InMemory_defs split: option.splits)

lemma InMemory_PutIfMatch_version:
  "os_PutIfMatch InMemory_store p d v m = (r, m') \<Longrightarrow>
     (if r = None then version_at (InMemory_objects m') p \<noteq> version_at (InMemory_objects m) p else m' = m)"
  by (auto simp: InMemory_defs version_at_def InMemory_objects_def mem_etag_inject
      split: option.splits if_splits)

lemma InMemory_round_version:
  assumes "me_store p = InMemory_store"
  shows "case enqueue_round (\<lambda>_ m. m) items c p m of
      Retry p' m' \<Rightarrow> m' = m \<and> me_store p' = InMemory_store \<and> me_manifestPath p' = me_manifestPath p
    | Done r p' m' \<Rightarrow> m' = m \<or>
        version_at (InMemory_objects m') (me_manifestPath p) \<noteq> version_at (InMemory_objects m) (me_manifestPath p)"
proof -
  obtain r1 where rd: "readManifest p m = (r1, m)"
    using assms InMemory_Get_state
    by (fastforce simp: readManifest_def split: prod.splits res.splits if_splits)
  show ?thesis
    using InMemory_PutIfMatch_version [of "me_manifestPath p" _ _ m]
    by (auto simp: enqueue_round_def rd assms Let_def split: res.splits option.splits prod.splits)
qed

lemma InMemory_loop_version:
  assumes ret: "enqueue_loop (\<lambda>_ m. m) items c p m = Some (r, p', m')" and "me_store p = InMemory_store"
  shows "m' = m \<or>
    version_at (InMemory_objects m') (me_manifestPath p) \<noteq> version_at (InMemory_objects m) (me_manifestPath p)"
proof -
  have "me_store p = InMemory_store \<longrightarrow> (case (r, p', m') of (r, p', m') \<Rightarrow> m' = m \<or>
      version_at (InMemory_objects m') (me_manifestPath p) \<noteq> version_at (InMemory_objects m) (me_manifestPath p))"
  proof (rule enqueue_loop_induct [OF ret], goal_cases)
    case (1 c p m r p' m')
    then show ?case using InMemory_round_version [where items = items and c = c and m = m and p = p] by auto
  next
    case (2 c p m p1 m1 out)
    then show ?case using InMemory_round_version [where items = items and c = c and m = m and p = p] by auto
  qed
  with assms(2) show ?thesis by simp
qed

lemma rival_appends_only: "appends_only InMemory_objects path (rival path its) its"
  unfolding appends_only_def
proof (intro conjI allI impI)
  fix i m q assume "queue_at (InMemory_objects m) path q" "queue_fits (q_items q (its i))"
  from enqueueBatch_uncontended [OF this]
  show "queue_at (InMemory_objects (rival path its i m)) path (q_items q (its i))"
    by (auto simp: rival_def)
next
  fix i m assume eq: "version_at (InMemory_objects (rival path its i m)) path = version_at (InMemory_objects m) path"
  have "rival path its i m = m"
  proof (cases "enqueueBatch (\<lambda>_ m. m) (its i) (newManifestEnqueuer InMemory_store path) m")
    case (Some out)
    then obtain r p' m' where out: "out = (r, p', m')" by (cases out)
    then have "rival path its i m = m'" using Some by (simp add: rival_def)
    then show ?thesis
      using Some out eq InMemory_loop_version [of "its i" 0 "newManifestEnqueuer InMemory_store path" m r p' m']
      by (auto simp: enqueueBatch_def split: if_splits)
  qed (simp add: rival_def)
  then show "InMemory_objects (rival path its i m) path = InMemory_objects m path" by simp
qed

section \<open>Conflict accounting\<close>

lemma enqueue_round_counter:
  "case enqueue_round env items c p s of
     Done (Returned (c', None)) p' s' \<Rightarrow> c' = c \<and> me_counter p' = recordWrite (me_counter p)
   | Done _ p' s' \<Rightarrow> True
   | Retry p' s' \<Rightarrow> me_counter p' = recordConflict (recordWrite (me_counter p)) \<and> me_store p' = me_store p"
  by (auto simp: enqueue_round_def Let_def split: prod.splits res.splits option.splits if_splits)

lemma enqueue_loop_counts:
  fixes p :: "'s manifestEnqueuer"
  assumes ret: "enqueue_loop env items c p s = Some (Returned (c', None), p', s')"
  shows "c \<le> c' \<and> writeCount (me_counter p') = writeCount (me_counter p) + of_nat (c' - c) + 1 \<and>
    conflictCount (me_counter p') = conflictCount (me_counter p) + of_nat (c' - c)"
proof -
  let ?P = "\<lambda>c (p :: 's manifestEnqueuer) (s :: 's) (out :: enqueue_result \<times> 's manifestEnqueuer \<times> 's). \<forall>c' p' s'. out = (Returned (c', None), p', s') \<longrightarrow> c \<le> c' \<and>
    writeCount (me_counter p') = writeCount (me_counter p) + of_nat (c' - c) + 1 \<and>
    conflictCount (me_counter p') = conflictCount (me_counter p) + of_nat (c' - c)"
  have "?P c p s (Returned (c', None), p', s')"
  proof (rule enqueue_loop_induct [OF ret, where P = ?P])
    fix c p s r p' s' assume "enqueue_round env items c p s = Done r p' s'"
    with enqueue_round_counter [where env = env and items = items and c = c and p = p and s = s] show "?P c p s (r, p', s')"
      by (auto simp: recordWrite_def)
  next
    fix c p s p1 s1 out assume "enqueue_round env items c p s = Retry p1 s1" "?P (Suc c) p1 s1 out"
    with enqueue_round_counter [where env = env and items = items and c = c and p = p and s = s] show "?P c p s out"
      by (auto simp: recordConflict_def recordWrite_def of_nat_diff)
  qed
  then show ?thesis by simp
qed

lemma enqueue_loop_not_Panicked:
  fixes p :: "'s manifestEnqueuer"
  assumes S: "cas_store (me_store p) objs"
  shows "enqueue_loop env items c p s \<noteq> Some (Panicked, p', s')"
proof
  let ?P = "\<lambda>c (p :: 's manifestEnqueuer) (s :: 's) (out :: enqueue_result \<times> 's manifestEnqueuer \<times> 's). cas_store (me_store p) objs \<longrightarrow> fst out \<noteq> Panicked"
  assume ret: "enqueue_loop env items c p s = Some (Panicked, p', s')"
  have "?P c p s (Panicked, p', s')"
  proof (rule enqueue_loop_induct [OF ret, where P = ?P])
    fix c p s r p' s' assume "enqueue_round env items c p s = Done r p' s'"
    then show "?P c p s (r, p', s')" using cas_store.enqueue_round_not_Panic by fastforce
  next
    fix c p s p1 s1 out assume "enqueue_round env items c p s = Retry p1 s1" "?P (Suc c) p1 s1 out"
    with enqueue_round_counter [where env = env and items = items and c = c and p = p and s = s] show "?P c p s out" by simp
  qed
  with S show False by simp
qed

section \<open>A contended run\<close>

text \<open>One rival commits between the first read and the first write; used by the witnesses.\<close>

definition one_item :: "string \<Rightarrow> enqueueItem" where
  "one_item loc = \<lparr>ei_Location = loc, ei_Metadata = []\<rparr>"

definition one_rival :: "nat \<Rightarrow> enqueueItem list" where
  "one_rival i = (if i = 1 then [one_item ''b''] else [])"

lemma one_rival_room:
  "queue_fits (q_items q_empty (others one_rival 0 n))"
  "queue_fits (q_items q_empty (others one_rival 0 n @ [one_item ''a'']))"
proof -
  have "others one_rival 0 n = (if n \<le> 1 then [] else [one_item ''b''])"
    by (induction n) (auto simp: others_def one_rival_def)
  then show "queue_fits (q_items q_empty (others one_rival 0 n))"
    "queue_fits (q_items q_empty (others one_rival 0 n @ [one_item ''a'']))"
    by (simp_all add: q_empty_def queue_fits_def q_enqueue_def entry_fits_def
        entry_checked_def length_entry_body item_entry_def one_item_def)
qed

lemma NewInMemory_queue: "queue_at (InMemory_objects NewInMemory) path q_empty"
  by (simp add: queue_at_def InMemory_objects_def NewInMemory_def queue_fits_def q_empty_def)

lemma one_item_fits: "list_all item_fits [one_item l] \<longleftrightarrow> length l \<le> 65535"
  by (auto simp: item_fits_def entry_fits_def entry_checked_def length_entry_body item_entry_def one_item_def)

declare enqueue_loop.simps [code]

lemma contended_run:
  "map_option fst (enqueueBatch (rival ''m'' one_rival) [one_item ''a'']
     (newManifestEnqueuer InMemory_store ''m'') NewInMemory) = Some (Returned (1, None))"
  by code_simp

section \<open>Properties\<close>

text \<open>
  C4. A batch is enqueued atomically and nothing is lost, whatever the store: when
  \<^verbatim>\<open>enqueueBatch\<close> returns on a store that keeps the compare-and-swap contract, while other
  clients enqueue entries before any of its calls, a nil error means that the queue is the initial
  one, then everything the others enqueued, then all the items in order with the next sequence
  numbers; an error means that none of the items is there, or, only for a storage error of unknown
  outcome, that all of them are.
\<close>

theorem enqueueBatch_atomic:
  assumes "cas_store (me_store p) objs"
    and "appends_only objs (me_manifestPath p) env ext"
    and "\<forall>n. queue_fits (q_items q (others ext 0 n))"
    and "items \<noteq> []" and "list_all item_fits items" and "length items < 2 ^ 63"
    and "queue_at (objs s) (me_manifestPath p) q"
    and "enqueueBatch env items p s = Some (r, p', s')"
  shows "enqueue_post (objs s') (me_manifestPath p) q ext items r"
  using cas_store.enqueue_loop_outcome [OF assms(1) _ _ _ assms(2,3,5,6), of 0 p s r p' s'] assms(4,7,8)
  by (simp add: enqueueBatch_def)

theorem enqueueBatch_atomic_witness:
  "\<exists>p' m'. enqueueBatch (rival ''m'' one_rival) [one_item ''a'']
     (newManifestEnqueuer InMemory_store ''m'') NewInMemory = Some (Returned (1, None), p', m') \<and>
   enqueue_post (InMemory_objects m') ''m'' q_empty one_rival [one_item ''a''] (Returned (1, None))"
proof -
  obtain p' m' where ret: "enqueueBatch (rival ''m'' one_rival) [one_item ''a'']
     (newManifestEnqueuer InMemory_store ''m'') NewInMemory = Some (Returned (1, None), p', m')"
    using contended_run by auto
  show ?thesis
    using enqueueBatch_atomic [OF _ _ _ _ _ _ _ ret, of InMemory_objects one_rival q_empty]
      mem.cas_store_axioms rival_appends_only one_rival_room one_item_fits NewInMemory_queue ret by simp
qed

text \<open>
  C27. The retry loop makes progress: on a store without spurious failures, with room for the items,
  \<^verbatim>\<open>enqueueBatch\<close> returns success as soon as the others leave the manifest alone between one
  of its reads and the following write, after at most that many conflicts.
\<close>

theorem enqueueBatch_returns:
  assumes "exact_store (me_store p) objs"
    and "appends_only objs (me_manifestPath p) env ext"
    and "\<forall>n. queue_fits (q_items q (others ext 0 n @ items))"
    and "queue_at (objs s) (me_manifestPath p) q"
    and "\<forall>s. objs (env (2 * n + 1) s) (me_manifestPath p) = objs s (me_manifestPath p)"
  shows "\<exists>c p' s'. enqueueBatch env items p s = Some (Returned (c, None), p', s') \<and> c \<le> n"
proof (cases "items = []")
  case False
  have "queue_fits (q_items q items)" using spec [OF assms(3), of 0] by simp
  then have "length items < 2 ^ 63" by (simp add: q_items_fits)
  then show ?thesis
    using exact_store.enqueue_loop_returns [OF assms(1) _ _ assms(2,3) _ _ assms(5), of p s 0] assms(4) False
    by (simp add: enqueueBatch_def)
qed (simp add: enqueueBatch_def)

theorem enqueueBatch_returns_witness:
  "\<exists>c p' s'. enqueueBatch (rival ''m'' one_rival) [one_item ''a'']
     (newManifestEnqueuer InMemory_store ''m'') NewInMemory = Some (Returned (c, None), p', s') \<and> c \<le> 1"
proof -
  have "InMemory_objects (rival ''m'' one_rival (2 * 1 + 1) s) ''m'' = InMemory_objects s ''m''" for s
    by (simp add: rival_def enqueueBatch_def one_rival_def)
  then show ?thesis
    using enqueueBatch_returns [of "newManifestEnqueuer InMemory_store ''m''" InMemory_objects
        "rival ''m'' one_rival" one_rival q_empty "[one_item ''a'']" NewInMemory 1]
      mem.exact_store_axioms rival_appends_only one_rival_room NewInMemory_queue by simp
qed

text \<open>
  C15. Producers racing on one in-memory store serialize: while rivals commit batches before any of
  its store calls, an \<^verbatim>\<open>enqueueBatch\<close> finds a round in which no rival commits between its read
  and its write, returns success there at the latest, and leaves the queue holding every rival batch
  committed so far followed by its own items.
\<close>

theorem racing_producers_serialize:
  assumes "queue_at (InMemory_objects m) path q"
    and "\<forall>n. queue_fits (q_items q (others its 0 n @ items))"
    and "its (2 * n + 1) = []" and "items \<noteq> []"
  shows "\<exists>c p' m'. enqueueBatch (rival path its) items (newManifestEnqueuer InMemory_store path) m =
      Some (Returned (c, None), p', m') \<and> c \<le> n \<and>
      queue_at (InMemory_objects m') path (q_items q (others its 0 (2 * c + 2) @ items))"
proof -
  let ?p = "newManifestEnqueuer InMemory_store path"
  have quiet: "InMemory_objects (rival path its (2 * n + 1) m) path = InMemory_objects m path" for m
    using assms(3) by (simp add: rival_def enqueueBatch_def)
  have fits: "queue_fits (q_items q items)" using spec [OF assms(2), of 0] by simp
  then have len: "length items < 2 ^ 63" "list_all item_fits items" by (simp_all add: q_items_fits)
  have room: "\<forall>n. queue_fits (q_items q (others its 0 n))"
    using assms(2) q_items_fits_prefix by (metis q_items_simps(3))
  obtain c p' m' where ret: "enqueue_loop (rival path its) items 0 ?p m = Some (Returned (c, None), p', m')"
    and c: "c \<le> n"
    using mem.enqueue_loop_returns [of ?p path "rival path its" its q items m 0 n] assms(1,2) len
      rival_appends_only quiet by auto
  from mem.enqueue_loop_outcome [OF ret _ _ rival_appends_only room len(2,1)] assms(1)
  show ?thesis using ret c assms(4) by (simp add: enqueueBatch_def enqueue_post_def)
qed

theorem racing_producers_serialize_witness:
  "\<exists>c p' m'. enqueueBatch (rival ''m'' one_rival) [one_item ''a''] (newManifestEnqueuer InMemory_store ''m'')
      NewInMemory = Some (Returned (c, None), p', m') \<and> c \<le> 1 \<and>
    queue_at (InMemory_objects m') ''m'' (q_items q_empty (others one_rival 0 (2 * c + 2) @ [one_item ''a'']))"
  by (rule racing_producers_serialize)
    (auto simp: NewInMemory_queue one_rival_room(2) [simplified] one_rival_def)

text \<open>
  C28. The enqueuer never panics on a store that keeps the contract, whatever bytes it finds at the
  manifest path and whatever the other clients do.
\<close>

theorem enqueueBatch_never_panics:
  assumes "cas_store (me_store p) objs" and "enqueueBatch env items p s = Some (r, p', s')"
  shows "r \<noteq> Panicked"
  using assms enqueue_loop_not_Panicked by (fastforce simp: enqueueBatch_def split: if_splits)

theorem enqueueBatch_never_panics_witness:
  "cas_store (me_store (newManifestEnqueuer InMemory_store ''m'')) InMemory_objects \<and>
   (\<exists>r p' m'. enqueueBatch (\<lambda>_ m. m) [one_item ''a''] (newManifestEnqueuer InMemory_store ''m'')
      [''m'' \<mapsto> \<lparr>mo_data = [7], mo_version = 1\<rparr>] = Some (r, p', m') \<and> r \<noteq> Panicked)"
proof -
  have "enqueueBatch (\<lambda>_ m. m) [one_item ''a''] (newManifestEnqueuer InMemory_store ''m'')
      [''m'' \<mapsto> \<lparr>mo_data = [7], mo_version = 1\<rparr>] \<noteq> None"
    by code_simp
  then obtain r p' m' where ret: "enqueueBatch (\<lambda>_ m. m) [one_item ''a'']
      (newManifestEnqueuer InMemory_store ''m'') [''m'' \<mapsto> \<lparr>mo_data = [7], mo_version = 1\<rparr>] = Some (r, p', m')"
    by (metis option.exhaust prod.exhaust)
  then show ?thesis
    using enqueueBatch_never_panics [OF _ ret] mem.cas_store_axioms by auto
qed



end
