(* ===== verification/Signals.thy ===== *)
theory Signals
  imports Prelude
begin

text \<open>
  Channels used only as signals (\<^verbatim>\<open>chan struct{}\<close> that is closed and never sent on): the
  budget's waiter and drain channels.  \<^verbatim>\<open>make\<close> hands out fresh references, \<^verbatim>\<open>close\<close>
  panics on a channel that is closed already, and a receive is enabled exactly on a closed channel.
\<close>

type_synonym signal = nat

record signals =
  sg_next :: nat
  sg_closed :: "nat set"

definition no_signals :: signals where
  "no_signals = \<lparr>sg_next = 0, sg_closed = {}\<rparr>"

definition make_signal :: "signals \<Rightarrow> signal \<times> signals" where
  "make_signal h = (sg_next h, h\<lparr>sg_next := Suc (sg_next h)\<rparr>)"

definition close_signal :: "signal \<Rightarrow> signals \<Rightarrow> signals res" where
  "close_signal c h = (if c \<in> sg_closed h then Panic else Ok (h\<lparr>sg_closed := insert c (sg_closed h)\<rparr>))"

text \<open>References handed out so far, and those of them not closed.\<close>

definition signals_ok :: "signals \<Rightarrow> bool" where
  "signals_ok h \<longleftrightarrow> (\<forall>c\<in>sg_closed h. c < sg_next h)"

definition open_signal :: "signals \<Rightarrow> signal \<Rightarrow> bool" where
  "open_signal h c \<longleftrightarrow> c < sg_next h \<and> c \<notin> sg_closed h"

lemma make_signal_open:
  assumes "signals_ok h" and "make_signal h = (c, h')"
  shows "open_signal h' c" and "\<not> open_signal h c" and "signals_ok h'" and "sg_closed h' = sg_closed h"
    and "open_signal h' d \<longleftrightarrow> d = c \<or> open_signal h d"
  using assms by (auto simp: make_signal_def open_signal_def signals_ok_def less_Suc_eq)

lemma close_signal_open:
  "open_signal h c \<Longrightarrow> close_signal c h = Ok (h\<lparr>sg_closed := insert c (sg_closed h)\<rparr>)"
  by (simp add: close_signal_def open_signal_def)

lemma open_signal_closing:
  "open_signal (h\<lparr>sg_closed := insert c (sg_closed h)\<rparr>) d \<longleftrightarrow> d \<noteq> c \<and> open_signal h d"
  by (auto simp: open_signal_def)

lemma signals_ok_closing:
  "signals_ok h \<Longrightarrow> open_signal h c \<Longrightarrow> signals_ok (h\<lparr>sg_closed := insert c (sg_closed h)\<rparr>)"
  by (auto simp: signals_ok_def open_signal_def)

lemma no_signals_ok [simp]: "signals_ok no_signals"
  by (simp add: signals_ok_def no_signals_def)

end
