(* ===== verification/Budget.thy ===== *)
theory Budget
  imports Signals
begin

text \<open>
  The in-flight budget of \<^verbatim>\<open>buffer/budget.go\<close>.  Each critical section under \<^verbatim>\<open>b.mu\<close>
  is one function; the blocking calls alternate a critical section with a \<^verbatim>\<open>select\<close>, and any
  number of callers run them interleaved with releases (relation \<open>budget_step\<close>).  The counters are
  integers: they sum lengths of slices held in memory, far below the 64-bit bound.
\<close>

section \<open>Critical sections\<close>

record producerBudget =
  bytesUsed :: int
  batchesUsed :: int
  maxBytes :: int
  maxBatches :: int
  waiter :: "signal option"
  drainCh :: "signal option"

definition newProducerBudget :: "int \<Rightarrow> int \<Rightarrow> producerBudget" where
  "newProducerBudget maxB maxN =
     (let maxB = (if maxB < 1 then 1 else maxB);
          maxN = (if maxN < 1 then 1 else maxN) in
      \<lparr>bytesUsed = 0, batchesUsed = 0, maxBytes = maxB, maxBatches = maxN,
       waiter = None, drainCh = None\<rparr>)"

definition ensureWaiterLocked ::
  "producerBudget \<Rightarrow> signals \<Rightarrow> signal \<times> producerBudget \<times> signals" where
  "ensureWaiterLocked b h =
     (case waiter b of
        None \<Rightarrow> (let (c, h') = make_signal h in (c, b\<lparr>waiter := Some c\<rparr>, h'))
      | Some c \<Rightarrow> (c, b, h))"

text \<open>A critical section of a blocking call either returns nil or yields the channel to wait on.\<close>

datatype attempt_outcome = Granted | WaitOn signal

definition can_reserve :: "int \<Rightarrow> producerBudget \<Rightarrow> bool" where
  "can_reserve n b \<longleftrightarrow> bytesUsed b = 0 \<or> bytesUsed b + n \<le> maxBytes b"

definition reserve_attempt ::
  "int \<Rightarrow> producerBudget \<Rightarrow> signals \<Rightarrow> attempt_outcome \<times> producerBudget \<times> signals" where
  "reserve_attempt n b h =
     (if can_reserve n b then (Granted, b\<lparr>bytesUsed := bytesUsed b + n\<rparr>, h)
      else let (c, b', h') = ensureWaiterLocked b h in (WaitOn c, b', h'))"

definition acquire_attempt ::
  "producerBudget \<Rightarrow> signals \<Rightarrow> attempt_outcome \<times> producerBudget \<times> signals" where
  "acquire_attempt b h =
     (if batchesUsed b < maxBatches b then (Granted, b\<lparr>batchesUsed := batchesUsed b + 1\<rparr>, h)
      else let (c, b', h') = ensureWaiterLocked b h in (WaitOn c, b', h'))"

definition drain_attempt ::
  "producerBudget \<Rightarrow> signals \<Rightarrow> attempt_outcome \<times> producerBudget \<times> signals" where
  "drain_attempt b h =
     (if batchesUsed b = 0 then (Granted, b, h)
      else case drainCh b of
          None \<Rightarrow> (let (c, h') = make_signal h in (WaitOn c, b\<lparr>drainCh := Some c\<rparr>, h'))
        | Some c \<Rightarrow> (WaitOn c, b, h))"

definition close_waiter :: "producerBudget \<times> signals \<Rightarrow> (producerBudget \<times> signals) res" where
  "close_waiter = (\<lambda>(b, h). case waiter b of
       None \<Rightarrow> Ok (b, h)
     | Some c \<Rightarrow> obind (close_signal c h) (\<lambda>h'. Ok (b\<lparr>waiter := None\<rparr>, h')))"

definition release ::
  "int \<Rightarrow> int \<Rightarrow> producerBudget \<Rightarrow> signals \<Rightarrow> (producerBudget \<times> signals) res" where
  "release bytes batches b h =
     (let b = b\<lparr>bytesUsed := bytesUsed b - bytes\<rparr>;
          b = (if bytesUsed b < 0 then b\<lparr>bytesUsed := 0\<rparr> else b);
          b = b\<lparr>batchesUsed := batchesUsed b - batches\<rparr>;
          b = (if batchesUsed b < 0 then b\<lparr>batchesUsed := 0\<rparr> else b) in
      obind (close_waiter (b, h)) (\<lambda>(b, h).
        case drainCh b of
          Some c \<Rightarrow>
            if batchesUsed b = 0
            then obind (close_signal c h) (\<lambda>h'. Ok (b\<lparr>drainCh := None\<rparr>, h'))
            else Ok (b, h)
        | None \<Rightarrow> Ok (b, h)))"

definition addReservation ::
  "int \<Rightarrow> producerBudget \<Rightarrow> signals \<Rightarrow> (producerBudget \<times> signals) res" where
  "addReservation extra b h =
     (let b = b\<lparr>bytesUsed := bytesUsed b + extra\<rparr>;
          b = (if bytesUsed b < 0 then b\<lparr>bytesUsed := 0\<rparr> else b) in
      close_waiter (b, h))"

definition snapshot :: "producerBudget \<Rightarrow> int \<times> int" where
  "snapshot b = (bytesUsed b, batchesUsed b)"

definition appendByteCost :: "bytes list \<Rightarrow> bytes \<Rightarrow> int" where
  "appendByteCost entries metadata =
     foldl (\<lambda>total e. total + int (length e)) 0 entries + int (length metadata)"

section \<open>Blocking calls\<close>

text \<open>
  The three blocking calls.  Only \<^verbatim>\<open>reserveBytes\<close> and \<^verbatim>\<open>waitDrained\<close> take a context.
  The byte count is a natural number: the producer passes \<^verbatim>\<open>appendByteCost\<close>, a sum of lengths.
\<close>

datatype request = ReserveBytes nat | AcquireBatchSlot | WaitDrained

fun try_request :: "request \<Rightarrow> producerBudget \<Rightarrow> signals \<Rightarrow> attempt_outcome \<times> producerBudget \<times> signals" where
  "try_request (ReserveBytes n) b h = reserve_attempt (int n) b h"
| "try_request AcquireBatchSlot b h = acquire_attempt b h"
| "try_request WaitDrained b h = drain_attempt b h"

datatype caller = Trying request | Waiting request signal | Finished request "gerror option"

record budget_state =
  bs_budget :: producerBudget
  bs_signals :: signals
  bs_callers :: "nat \<Rightarrow> caller option"
  bs_shutdown :: bool

text \<open>
  Interleaved execution: a critical section of a trying caller; the three ways a \<^verbatim>\<open>select\<close>
  can proceed (its channel is closed, its context is done, shutdown is signalled); and the
  non-blocking updates made by the other goroutines.
\<close>

inductive budget_step :: "budget_state \<Rightarrow> budget_state \<Rightarrow> bool" where
  call: "bs_callers s t = None \<Longrightarrow>
    budget_step s (s\<lparr>bs_callers := (bs_callers s)(t \<mapsto> Trying r)\<rparr>)"
| grant: "bs_callers s t = Some (Trying r) \<Longrightarrow>
    try_request r (bs_budget s) (bs_signals s) = (Granted, b, h) \<Longrightarrow>
    budget_step s (s\<lparr>bs_budget := b, bs_signals := h,
      bs_callers := (bs_callers s)(t \<mapsto> Finished r None)\<rparr>)"
| block: "bs_callers s t = Some (Trying r) \<Longrightarrow>
    try_request r (bs_budget s) (bs_signals s) = (WaitOn c, b, h) \<Longrightarrow>
    budget_step s (s\<lparr>bs_budget := b, bs_signals := h,
      bs_callers := (bs_callers s)(t \<mapsto> Waiting r c)\<rparr>)"
| wake: "bs_callers s t = Some (Waiting r c) \<Longrightarrow> c \<in> sg_closed (bs_signals s) \<Longrightarrow>
    budget_step s (s\<lparr>bs_callers := (bs_callers s)(t \<mapsto> Trying r)\<rparr>)"
| ctx_done: "bs_callers s t = Some (Waiting r c) \<Longrightarrow> r \<noteq> AcquireBatchSlot \<Longrightarrow>
    e \<in> {ContextCanceled, ContextDeadlineExceeded} \<Longrightarrow>
    budget_step s (s\<lparr>bs_callers := (bs_callers s)(t \<mapsto> Finished r (Some e))\<rparr>)"
| shut: "bs_callers s t = Some (Waiting r c) \<Longrightarrow> bs_shutdown s \<Longrightarrow>
    budget_step s (s\<lparr>bs_callers := (bs_callers s)(t \<mapsto> Finished r (Some ErrShutdown))\<rparr>)"
| shutdown: "budget_step s (s\<lparr>bs_shutdown := True\<rparr>)"
| releases: "release bytes batches (bs_budget s) (bs_signals s) = Ok (b, h) \<Longrightarrow>
    0 \<le> bytes \<Longrightarrow> 0 \<le> batches \<Longrightarrow>
    budget_step s (s\<lparr>bs_budget := b, bs_signals := h\<rparr>)"
| adds: "addReservation extra (bs_budget s) (bs_signals s) = Ok (b, h) \<Longrightarrow>
    budget_step s (s\<lparr>bs_budget := b, bs_signals := h\<rparr>)"

definition budget_init :: "int \<Rightarrow> int \<Rightarrow> budget_state" where
  "budget_init maxB maxN = \<lparr>bs_budget = newProducerBudget maxB maxN, bs_signals = no_signals,
     bs_callers = Map.empty, bs_shutdown = False\<rparr>"

abbreviation budget_reachable :: "int \<Rightarrow> int \<Rightarrow> budget_state \<Rightarrow> bool" where
  "budget_reachable maxB maxN \<equiv> budget_step\<^sup>*\<^sup>* (budget_init maxB maxN)"

section \<open>Well-formed budgets\<close>

definition budget_ok :: "producerBudget \<Rightarrow> signals \<Rightarrow> bool" where
  "budget_ok b h \<longleftrightarrow> signals_ok h \<and> 0 \<le> bytesUsed b \<and> 0 \<le> batchesUsed b \<and>
     batchesUsed b \<le> maxBatches b \<and> 1 \<le> maxBytes b \<and>
     (\<forall>c. waiter b = Some c \<longrightarrow> open_signal h c) \<and>
     (\<forall>c. drainCh b = Some c \<longrightarrow> open_signal h c \<and> 0 < batchesUsed b) \<and>
     (waiter b = None \<or> waiter b \<noteq> drainCh b)"

fun ready_of :: "request \<Rightarrow> producerBudget \<Rightarrow> bool" where
  "ready_of (ReserveBytes n) b \<longleftrightarrow> can_reserve (int n) b"
| "ready_of AcquireBatchSlot b \<longleftrightarrow> batchesUsed b < maxBatches b"
| "ready_of WaitDrained b \<longleftrightarrow> batchesUsed b = 0"

fun chan_of :: "request \<Rightarrow> producerBudget \<Rightarrow> signal option" where
  "chan_of (ReserveBytes n) b = waiter b"
| "chan_of AcquireBatchSlot b = waiter b"
| "chan_of WaitDrained b = drainCh b"

lemma newProducerBudget_ok: "budget_ok (newProducerBudget maxB maxN) no_signals"
  by (simp add: budget_ok_def newProducerBudget_def)

lemma ensureWaiterLocked_cases:
  assumes "ensureWaiterLocked b h = (c, b', h')"
  obtains (old) "waiter b = Some c" "b' = b" "h' = h"
  | (new) "waiter b = None" "b' = b\<lparr>waiter := Some c\<rparr>" "make_signal h = (c, h')"
  using assms by (auto simp: ensureWaiterLocked_def split: option.splits prod.splits)

lemma budget_ok_new_waiter:
  "budget_ok b h \<Longrightarrow> waiter b = None \<Longrightarrow> make_signal h = (c, h') \<Longrightarrow> budget_ok (b\<lparr>waiter := Some c\<rparr>) h'"
  using make_signal_open [of h c h'] by (auto simp: budget_ok_def)

lemma budget_ok_new_drain:
  "budget_ok b h \<Longrightarrow> drainCh b = None \<Longrightarrow> batchesUsed b \<noteq> 0 \<Longrightarrow> make_signal h = (c, h') \<Longrightarrow>
     budget_ok (b\<lparr>drainCh := Some c\<rparr>) h'"
  using make_signal_open [of h c h'] by (auto simp: budget_ok_def)

lemma make_signal_closed: "make_signal h = (c, h') \<Longrightarrow> sg_closed h' = sg_closed h"
  by (auto simp: make_signal_def)

text \<open>What an attempt does: it is granted exactly when the caller's condition holds.\<close>

lemma attempt_cases:
  assumes "try_request r b h = (out, b', h')"
  obtains (granted) "ready_of r b" "out = Granted" "h' = h"
      "b' = (case r of ReserveBytes n \<Rightarrow> b\<lparr>bytesUsed := bytesUsed b + int n\<rparr>
         | AcquireBatchSlot \<Rightarrow> b\<lparr>batchesUsed := batchesUsed b + 1\<rparr> | WaitDrained \<Rightarrow> b)"
  | (old) c where "\<not> ready_of r b" "out = WaitOn c" "chan_of r b = Some c" "b' = b" "h' = h"
  | (new_waiter) c where "\<not> ready_of r b" "out = WaitOn c" "r \<noteq> WaitDrained" "waiter b = None"
      "make_signal h = (c, h')" "b' = b\<lparr>waiter := Some c\<rparr>"
  | (new_drain) c where "\<not> ready_of r b" "out = WaitOn c" "r = WaitDrained" "drainCh b = None"
      "make_signal h = (c, h')" "b' = b\<lparr>drainCh := Some c\<rparr>"
  using assms
  by (cases r) (auto simp: reserve_attempt_def acquire_attempt_def drain_attempt_def
      split: if_splits prod.splits option.splits elim!: ensureWaiterLocked_cases)

lemma attempt_ok:
  assumes "budget_ok b h" and "try_request r b h = (out, b', h')"
  shows "budget_ok b' h' \<and> sg_closed h' = sg_closed h \<and> maxBytes b' = maxBytes b \<and> maxBatches b' = maxBatches b"
  using assms(2)
proof (cases rule: attempt_cases)
  case granted
  then show ?thesis using assms(1) by (cases r) (auto simp: budget_ok_def)
qed (use assms(1) budget_ok_new_waiter budget_ok_new_drain make_signal_closed in auto)

lemma release_result:
  fixes batches :: int
  assumes "budget_ok b h"
  defines "u \<equiv> max 0 (batchesUsed b - batches)"
  shows "release bytes batches b h = Ok
     (b\<lparr>bytesUsed := max 0 (bytesUsed b - bytes), batchesUsed := u, waiter := None,
        drainCh := (if u = 0 then None else drainCh b)\<rparr>,
      h\<lparr>sg_closed := sg_closed h \<union> set_option (waiter b) \<union> (if u = 0 then set_option (drainCh b) else {})\<rparr>)"
  using assms
  by (cases "waiter b"; cases "drainCh b")
    (auto simp: release_def close_waiter_def budget_ok_def Let_def close_signal_def open_signal_def u_def
      max_def insert_commute)

lemma addReservation_result:
  assumes "budget_ok b h"
  shows "addReservation extra b h = Ok (b\<lparr>bytesUsed := max 0 (bytesUsed b + extra), waiter := None\<rparr>,
      h\<lparr>sg_closed := sg_closed h \<union> set_option (waiter b)\<rparr>)"
  using assms
  by (cases "waiter b")
    (auto simp: addReservation_def close_waiter_def budget_ok_def Let_def close_signal_def open_signal_def
      max_def)

lemma release_ok:
  assumes "budget_ok b h" and "release bytes batches b h = Ok (b', h')" and "0 \<le> batches"
  shows "budget_ok b' h'"
  using assms(2) unfolding release_result [OF assms(1)]
  using assms(1,3) by (auto simp: budget_ok_def signals_ok_def open_signal_def split: if_splits)

lemma addReservation_ok:
  assumes "budget_ok b h" and "addReservation extra b h = Ok (b', h')"
  shows "budget_ok b' h'"
  using assms(2) unfolding addReservation_result [OF assms(1)]
  using assms(1) by (auto simp: budget_ok_def signals_ok_def open_signal_def)

lemma update_closed_mono:
  assumes "budget_ok b h"
  shows "release x y b h = Ok (b', h') \<Longrightarrow> sg_closed h \<subseteq> sg_closed h'"
    and "addReservation e b h = Ok (b', h') \<Longrightarrow> sg_closed h \<subseteq> sg_closed h'"
  using assms by (auto simp: release_result addReservation_result)

section \<open>Waiting\<close>

text \<open>
  The contract the three blocking calls share: a caller whose condition \<open>ready\<close> is false waits
  on \<open>chan\<close>; no other caller makes the condition true, and an update that might make it true
  closes the channel.  \<open>parked\<close> is what then holds of a caller from the moment it waits.
\<close>

definition parked ::
  "(producerBudget \<Rightarrow> bool) \<Rightarrow> (producerBudget \<Rightarrow> signal option) \<Rightarrow> signal \<Rightarrow> producerBudget \<Rightarrow> signals \<Rightarrow> bool" where
  "parked ready chan c b h \<longleftrightarrow> c \<in> sg_closed h \<or> chan b = Some c \<and> \<not> ready b"

locale budget_wait =
  fixes ready :: "producerBudget \<Rightarrow> bool"
    and chan :: "producerBudget \<Rightarrow> signal option"
  assumes attempt_keeps: "budget_ok b h \<Longrightarrow> try_request r b h = (out, b', h') \<Longrightarrow> \<not> ready b \<Longrightarrow>
      chan b = Some c \<Longrightarrow> \<not> ready b' \<and> chan b' = Some c"
    and release_wakes: "budget_ok b h \<Longrightarrow> release x y b h = Ok (b', h') \<Longrightarrow> 0 \<le> x \<Longrightarrow> 0 \<le> y \<Longrightarrow>
      \<not> ready b \<Longrightarrow> chan b = Some c \<Longrightarrow> c \<in> sg_closed h' \<or> \<not> ready b' \<and> chan b' = Some c"
    and add_wakes: "budget_ok b h \<Longrightarrow> addReservation e b h = Ok (b', h') \<Longrightarrow>
      \<not> ready b \<Longrightarrow> chan b = Some c \<Longrightarrow> c \<in> sg_closed h' \<or> \<not> ready b' \<and> chan b' = Some c"
begin

lemma parked_attempt:
  "budget_ok b h \<Longrightarrow> try_request r b h = (out, b', h') \<Longrightarrow> parked ready chan c b h \<Longrightarrow> parked ready chan c b' h'"
  using attempt_ok attempt_keeps by (auto simp: parked_def)

lemma parked_release:
  "budget_ok b h \<Longrightarrow> release x y b h = Ok (b', h') \<Longrightarrow> 0 \<le> x \<Longrightarrow> 0 \<le> y \<Longrightarrow> parked ready chan c b h \<Longrightarrow>
     parked ready chan c b' h'"
  unfolding parked_def using release_wakes update_closed_mono(1) by blast

lemma parked_add:
  "budget_ok b h \<Longrightarrow> addReservation e b h = Ok (b', h') \<Longrightarrow> parked ready chan c b h \<Longrightarrow>
     parked ready chan c b' h'"
  unfolding parked_def using add_wakes update_closed_mono(2) by blast

end

interpretation bytes_wait: budget_wait "can_reserve (int n)" waiter for n
proof (unfold_locales, goal_cases)
  case (1 b h r out b' h' c)
  from 1(2) show ?case
    by (cases rule: attempt_cases) (use 1 in \<open>auto simp: can_reserve_def budget_ok_def split: request.splits\<close>)
qed (auto simp: release_result addReservation_result)

interpretation slot_wait: budget_wait "\<lambda>b. batchesUsed b < maxBatches b" waiter
proof (unfold_locales, goal_cases)
  case (1 b h r out b' h' c)
  from 1(2) show ?case by (cases rule: attempt_cases) (use 1 in \<open>auto split: request.splits\<close>)
qed (auto simp: release_result addReservation_result)

interpretation drain_wait: budget_wait "\<lambda>b. batchesUsed b = 0" drainCh
proof (unfold_locales, goal_cases)
  case (1 b h r out b' h' c)
  from 1(2) show ?case
    by (cases rule: attempt_cases) (use 1 in \<open>auto simp: budget_ok_def split: request.splits\<close>)
next
  case (2 b h x y b' h' c)
  then show ?case by (auto simp: release_result split: if_splits)
qed (auto simp: addReservation_result)

section \<open>Invariant of the interleaved execution\<close>

definition budget_inv :: "budget_state \<Rightarrow> bool" where
  "budget_inv s \<longleftrightarrow> budget_ok (bs_budget s) (bs_signals s) \<and>
     (\<forall>t r c. bs_callers s t = Some (Waiting r c) \<longrightarrow>
        parked (ready_of r) (chan_of r) c (bs_budget s) (bs_signals s))"

lemma ready_of_eq:
  "ready_of (ReserveBytes n) = can_reserve (int n)"
  "ready_of AcquireBatchSlot = (\<lambda>b. batchesUsed b < maxBatches b)"
  "ready_of WaitDrained = (\<lambda>b. batchesUsed b = 0)"
  "chan_of (ReserveBytes n) = waiter" "chan_of AcquireBatchSlot = waiter" "chan_of WaitDrained = drainCh"
  by (auto simp: fun_eq_iff)

lemma request_wait: "budget_wait (ready_of r) (chan_of r)"
  by (cases r) (simp_all add: ready_of_eq bytes_wait.budget_wait_axioms slot_wait.budget_wait_axioms
      drain_wait.budget_wait_axioms)

lemma attempt_parks:
  assumes "try_request r b h = (WaitOn c, b', h')"
  shows "parked (ready_of r) (chan_of r) c b' h'"
  using assms
proof (cases rule: attempt_cases)
  case new_waiter
  then show ?thesis by (cases r) (auto simp: parked_def can_reserve_def)
qed (auto simp: parked_def)

lemma budget_inv_step:
  assumes "budget_step s s'" and "budget_inv s"
  shows "budget_inv s'"
  using assms
proof (induction rule: budget_step.induct)
  case (grant s t r b h)
  then show ?case
    using attempt_ok budget_wait.parked_attempt [OF request_wait] by (auto simp: budget_inv_def)
next
  case (block s t r c b h)
  then show ?case
    using attempt_ok attempt_parks budget_wait.parked_attempt [OF request_wait] by (auto simp: budget_inv_def)
next
  case (releases bytes batches s b h)
  then have "budget_ok (bs_budget s) (bs_signals s)" by (simp add: budget_inv_def)
  moreover from this have "budget_ok b h" using releases by (simp add: release_ok)
  ultimately show ?case
    using releases budget_wait.parked_release [OF request_wait] by (auto simp: budget_inv_def)
next
  case (adds extra s b h)
  then have "budget_ok (bs_budget s) (bs_signals s)" by (simp add: budget_inv_def)
  moreover from this have "budget_ok b h" using adds by (simp add: addReservation_ok)
  ultimately show ?case
    using adds budget_wait.parked_add [OF request_wait] by (auto simp: budget_inv_def)
qed (auto simp: budget_inv_def)

lemma budget_inv_reachable:
  assumes "budget_reachable maxB maxN s"
  shows "budget_inv s"
  using assms
proof (induction rule: rtranclp_induct)
  case base
  show ?case by (simp add: budget_inv_def budget_init_def newProducerBudget_ok)
qed (rule budget_inv_step)

section \<open>A contended run\<close>

text \<open>
  Caller 0 takes the whole byte budget, caller 1 blocks on channel 0, the budget is released and
  channel 0 closed; used by the witnesses.
\<close>

definition woken_state :: budget_state where
  "woken_state = \<lparr>bs_budget = newProducerBudget 10 1, bs_signals = \<lparr>sg_next = 1, sg_closed = {0}\<rparr>,
     bs_callers = [0 \<mapsto> Finished (ReserveBytes 10) None, 1 \<mapsto> Waiting (ReserveBytes 5) 0],
     bs_shutdown = False\<rparr>"

lemmas attempt_defs = reserve_attempt_def acquire_attempt_def drain_attempt_def can_reserve_def
  ensureWaiterLocked_def make_signal_def

lemma woken_reachable: "budget_reachable 10 1 woken_state"
proof -
  let ?b = "newProducerBudget 10 1" and ?s0 = "budget_init 10 1"
  let ?c1 = "[0 \<mapsto> Trying (ReserveBytes 10)] :: nat \<Rightarrow> caller option"
  let ?c2 = "[0 \<mapsto> Finished (ReserveBytes 10) None] :: nat \<Rightarrow> caller option"
  let ?s1 = "?s0\<lparr>bs_callers := ?c1\<rparr>"
  let ?s2 = "?s0\<lparr>bs_budget := ?b\<lparr>bytesUsed := 10\<rparr>, bs_callers := ?c2\<rparr>"
  let ?s3 = "?s2\<lparr>bs_callers := ?c2(1 \<mapsto> Trying (ReserveBytes 5))\<rparr>"
  let ?s4 = "?s2\<lparr>bs_budget := ?b\<lparr>bytesUsed := 10, waiter := Some 0\<rparr>, bs_signals := \<lparr>sg_next = 1, sg_closed = {}\<rparr>,
    bs_callers := ?c2(1 \<mapsto> Waiting (ReserveBytes 5) 0)\<rparr>"
  have "budget_step ?s0 ?s1"
    using budget_step.call [of ?s0 0 "ReserveBytes 10"] by (simp add: budget_init_def)
  moreover have "budget_step ?s1 ?s2"
    using budget_step.grant [of ?s1 0 "ReserveBytes 10" "?b\<lparr>bytesUsed := 10\<rparr>" no_signals]
    by (simp add: budget_init_def newProducerBudget_def attempt_defs)
  moreover have "budget_step ?s2 ?s3"
    using budget_step.call [of ?s2 1 "ReserveBytes 5"] by (simp add: budget_init_def)
  moreover have "budget_step ?s3 ?s4"
    using budget_step.block [of ?s3 1 "ReserveBytes 5" 0 "?b\<lparr>bytesUsed := 10, waiter := Some 0\<rparr>"
        "\<lparr>sg_next = 1, sg_closed = {}\<rparr>"]
    by (simp add: budget_init_def newProducerBudget_def attempt_defs no_signals_def)
  moreover have "budget_step ?s4 woken_state"
    using budget_step.releases [of 10 0 ?s4 ?b "\<lparr>sg_next = 1, sg_closed = {0}\<rparr>"]
    by (simp add: budget_init_def newProducerBudget_def release_def close_waiter_def close_signal_def
        woken_state_def)
  ultimately show ?thesis by (meson converse_rtranclp_into_rtranclp rtranclp.rtrancl_refl)
qed

section \<open>Properties\<close>

text \<open>
  C16. No wake-up is lost: in every reachable state of any number of interleaved callers, a caller
  that is blocked although its critical section would now succeed waits on a channel that has been
  closed, so it is going to retry.
\<close>

theorem budget_no_lost_wakeup:
  assumes "budget_reachable maxB maxN s" and "bs_callers s t = Some (Waiting r c)"
    and "try_request r (bs_budget s) (bs_signals s) = (Granted, b, h)"
  shows "c \<in> sg_closed (bs_signals s)"
proof -
  have "parked (ready_of r) (chan_of r) c (bs_budget s) (bs_signals s)"
    using budget_inv_reachable [OF assms(1)] assms(2) by (simp add: budget_inv_def)
  moreover have "ready_of r (bs_budget s)" using assms(3) by (cases rule: attempt_cases) auto
  ultimately show ?thesis by (simp add: parked_def)
qed

theorem budget_no_lost_wakeup_witness:
  "bs_callers woken_state 1 = Some (Waiting (ReserveBytes 5) 0) \<and>
   try_request (ReserveBytes 5) (bs_budget woken_state) (bs_signals woken_state) =
     (Granted, (newProducerBudget 10 1)\<lparr>bytesUsed := 5\<rparr>, bs_signals woken_state) \<and>
   0 \<in> sg_closed (bs_signals woken_state)"
  using budget_no_lost_wakeup [OF woken_reachable, of 1 "ReserveBytes 5" 0
      "(newProducerBudget 10 1)\<lparr>bytesUsed := 5\<rparr>" "bs_signals woken_state"]
  by (simp add: woken_state_def newProducerBudget_def attempt_defs)

text \<open>
  C30. The budget never closes a channel twice: in every reachable state both updates that close
  channels return, whatever amounts they are given.
\<close>

theorem budget_updates_never_panic:
  assumes "budget_reachable maxB maxN s"
  shows "release bytes batches (bs_budget s) (bs_signals s) \<noteq> Panic \<and>
    addReservation extra (bs_budget s) (bs_signals s) \<noteq> Panic"
  using budget_inv_reachable [OF assms] by (simp add: budget_inv_def release_result addReservation_result)

theorem budget_updates_never_panic_witness:
  "release 3 1 (bs_budget woken_state) (bs_signals woken_state) \<noteq> Panic \<and>
   addReservation 11 (bs_budget woken_state) (bs_signals woken_state) \<noteq> Panic"
  by (rule budget_updates_never_panic [OF woken_reachable])

text \<open>
  C31. The caps hold: in every reachable state between zero and \<^verbatim>\<open>MaxInFlightBatches\<close> slots
  are taken and no counter is negative; a byte reservation that is granted leaves at most
  \<^verbatim>\<open>MaxInFlightBytes\<close> in use unless it found the budget empty, and an empty budget grants a
  request of any size.
\<close>

theorem budget_caps:
  assumes "budget_reachable maxB maxN s"
  shows "0 \<le> bytesUsed (bs_budget s) \<and> 0 \<le> batchesUsed (bs_budget s) \<and>
    batchesUsed (bs_budget s) \<le> max 1 maxN \<and>
    (case reserve_attempt n (bs_budget s) (bs_signals s) of
       (Granted, b, h) \<Rightarrow> bytesUsed b \<le> max 1 maxB \<or> bytesUsed (bs_budget s) = 0
     | (WaitOn c, b, h) \<Rightarrow> bytesUsed (bs_budget s) > 0 \<and> bytesUsed b = bytesUsed (bs_budget s))"
proof -
  have "maxBytes (bs_budget s) = max 1 maxB \<and> maxBatches (bs_budget s) = max 1 maxN"
    using assms
  proof (induction rule: rtranclp_induct)
    case (step s s')
    then have "budget_ok (bs_budget s) (bs_signals s)"
      using budget_inv_reachable by (auto simp: budget_inv_def)
    with step(2,3) show ?case
      by (cases rule: budget_step.cases) (auto simp: release_result addReservation_result dest: attempt_ok)
  qed (simp add: budget_init_def newProducerBudget_def)
  moreover have "budget_ok (bs_budget s) (bs_signals s)"
    using budget_inv_reachable [OF assms] by (simp add: budget_inv_def)
  ultimately show ?thesis
    by (auto simp: budget_ok_def reserve_attempt_def can_reserve_def ensureWaiterLocked_def
        split: option.splits prod.splits)
qed

theorem budget_caps_witness:
  "0 \<le> bytesUsed (bs_budget woken_state) \<and> batchesUsed (bs_budget woken_state) \<le> 1 \<and>
   (case reserve_attempt 5 (bs_budget woken_state) (bs_signals woken_state) of
       (Granted, b, h) \<Rightarrow> bytesUsed b \<le> 10 \<or> bytesUsed (bs_budget woken_state) = 0
     | (WaitOn c, b, h) \<Rightarrow> bytesUsed (bs_budget woken_state) > 0 \<and> bytesUsed b = bytesUsed (bs_budget woken_state))"
  using budget_caps [OF woken_reachable, of 5] by (simp split: prod.splits attempt_outcome.splits)

end
