(* ===== verification/Watcher.thy ===== *)
theory Watcher
  imports Prelude
begin

text \<open>
  \<^verbatim>\<open>DurabilityWatcher\<close> of \<^verbatim>\<open>buffer/producer.go\<close>.  The channel \<^verbatim>\<open>ch\<close> is only
  ever closed, so it is the flag \<open>w_closed\<close>; closing it twice panics.  Watchers are shared by
  reference: a heap maps references to watchers.  A context is the error it is done with, if it is.
\<close>

record DurabilityWatcher =
  w_result :: "gerror option"
  w_done :: bool
  w_closed :: bool

definition newDurabilityWatcher :: DurabilityWatcher where
  "newDurabilityWatcher = \<lparr>w_result = None, w_done = False, w_closed = False\<rparr>"

definition watcher_Result :: "DurabilityWatcher \<Rightarrow> bool \<times> gerror option" where
  "watcher_Result w = (if \<not> w_done w then (False, None) else (True, w_result w))"

text \<open>\<open>AwaitDurable ctx w r\<close>: the \<^verbatim>\<open>select\<close> can return \<open>r\<close>; it blocks when no \<open>r\<close> is possible.\<close>

definition AwaitDurable :: "gerror option \<Rightarrow> DurabilityWatcher \<Rightarrow> gerror option \<Rightarrow> bool" where
  "AwaitDurable ctx w r \<longleftrightarrow> (w_closed w \<and> r = w_result w) \<or> (ctx \<noteq> None \<and> r = ctx)"

definition watcher_resolve :: "gerror option \<Rightarrow> DurabilityWatcher \<Rightarrow> DurabilityWatcher res" where
  "watcher_resolve err w =
     (if w_done w then Ok w
      else let w = w\<lparr>w_result := err, w_done := True\<rparr> in
        if w_closed w then Panic else Ok (w\<lparr>w_closed := True\<rparr>))"

type_synonym watchers = "nat \<Rightarrow> DurabilityWatcher"

fun resolve_all :: "nat list \<Rightarrow> gerror option \<Rightarrow> watchers \<Rightarrow> watchers res" where
  "resolve_all [] err ws = Ok ws"
| "resolve_all (dw # dws) err ws =
     obind (watcher_resolve err (ws dw)) (\<lambda>w. resolve_all dws err (ws(dw := w)))"

definition watcher_ok :: "DurabilityWatcher \<Rightarrow> bool" where
  "watcher_ok w \<longleftrightarrow> w_closed w = w_done w"

definition resolved :: "gerror option \<Rightarrow> DurabilityWatcher \<Rightarrow> DurabilityWatcher" where
  "resolved err w = (if w_done w then w else \<lparr>w_result = err, w_done = True, w_closed = True\<rparr>)"

lemma newDurabilityWatcher_ok [simp]: "watcher_ok newDurabilityWatcher"
  by (simp add: watcher_ok_def newDurabilityWatcher_def)

lemma resolved_ok [simp]: "watcher_ok w \<Longrightarrow> watcher_ok (resolved err w)"
  by (simp add: watcher_ok_def resolved_def)

lemma resolved_done [simp]: "w_done (resolved err w)"
  by (simp add: resolved_def)

lemma resolved_idem [simp]: "w_done w \<Longrightarrow> resolved err w = w"
  by (simp add: resolved_def)

lemma watcher_resolve_eq: "watcher_ok w \<Longrightarrow> watcher_resolve err w = Ok (resolved err w)"
  by (cases w) (simp add: watcher_resolve_def watcher_ok_def resolved_def Let_def)

lemma resolve_all_eq:
  assumes "\<forall>i. watcher_ok (ws i)"
  shows "resolve_all dws err ws = Ok (\<lambda>i. if i \<in> set dws then resolved err (ws i) else ws i)"
  using assms
proof (induction dws arbitrary: ws)
  case (Cons dw dws)
  have "\<forall>i. watcher_ok ((ws(dw := resolved err (ws dw))) i)" using Cons.prems by simp
  from Cons.IH [OF this] Cons.prems show ?case
    by (simp add: watcher_resolve_eq del: fun_upd_apply) (auto simp: fun_eq_iff)
qed simp

section \<open>Properties\<close>

text \<open>
  C32. The first resolution of a watcher wins: however many resolutions are attempted, none panics,
  the first decides the result, and from then on a waiter whose context is live gets exactly that
  result.
\<close>

theorem watcher_first_resolution_wins:
  "\<exists>w. foldl (\<lambda>r e. obind r (watcher_resolve e)) (watcher_resolve err newDurabilityWatcher) errs = Ok w \<and>
     watcher_Result w = (True, err) \<and> (AwaitDurable None w r \<longleftrightarrow> r = err)"
proof -
  let ?w = "\<lparr>w_result = err, w_done = True, w_closed = True\<rparr>"
  have "foldl (\<lambda>r e. obind r (watcher_resolve e)) (Ok ?w) errs = Ok ?w"
    by (induction errs) (simp_all add: watcher_resolve_def)
  moreover have "watcher_resolve err newDurabilityWatcher = Ok ?w"
    by (simp add: watcher_resolve_def newDurabilityWatcher_def)
  ultimately show ?thesis by (simp add: watcher_Result_def AwaitDurable_def)
qed

end
