(* ===== verification/Config.thy ===== *)
theory Config
  imports Batch
begin

text \<open>
  Configuration and observability vocabulary of the producer: \<^verbatim>\<open>buffer/config.go\<close>,
  \<^verbatim>\<open>buffer/observer.go\<close> and the defaulting done by \<^verbatim>\<open>NewProducer\<close>.  Durations and
  instants are integers counting nanoseconds.  An observer is modelled by the sequence of calls made
  to it, without the wall-clock durations among their arguments; \<^verbatim>\<open>cfg_Observer\<close> says whether
  one is attached.
\<close>

section \<open>Observer\<close>

datatype FlushReason = FlushReasonSize | FlushReasonTime | FlushReasonManual | FlushReasonShutdown

record FlushStats =
  fs_Inputs :: int
  fs_Entries :: int
  fs_UncompressedBytes :: int
  fs_Age :: int

datatype PipelineStage = StageAppend | StageRotate | StageEncode | StageUpload | StageCommit | StageResolve

datatype BatchOutcome = OutcomeCommitted | OutcomeEncodeFailed | OutcomeUploadFailed
  | OutcomeManifestFailed | OutcomeAbandoned

datatype Observer =
    OnAccepted
  | OnFlush FlushReason FlushStats "gerror option"
  | OnStorePut int "gerror option"
  | OnManifestEnqueue int int "gerror option"
  | OnAppendChBlock
  | OnWorkersBusy PipelineStage int
  | OnEncodeDuration "gerror option"
  | OnUploadDuration int "gerror option"
  | OnManifestAppendBatchSize int
  | OnManifestAppendDuration int "gerror option"
  | OnHeadOfLineBlock
  | OnBatchOutcome BatchOutcome
  | OnHalted bool
  | OnInflightBytes int
  | OnInflightBatches int
  | OnQueueDepth PipelineStage int

text \<open>Stages are listed in producer order, which is their linear order.\<close>

primrec stage_index :: "PipelineStage \<Rightarrow> nat" where
  "stage_index StageAppend = 0"
| "stage_index StageRotate = 1"
| "stage_index StageEncode = 2"
| "stage_index StageUpload = 3"
| "stage_index StageCommit = 4"
| "stage_index StageResolve = 5"

lemma stage_index_inject: "stage_index a = stage_index b \<Longrightarrow> a = b"
  by (cases a; cases b) simp_all

instantiation PipelineStage :: linorder
begin

definition less_eq_PipelineStage :: "PipelineStage \<Rightarrow> PipelineStage \<Rightarrow> bool" where
  "less_eq_PipelineStage a b \<longleftrightarrow> stage_index a \<le> stage_index b"

definition less_PipelineStage :: "PipelineStage \<Rightarrow> PipelineStage \<Rightarrow> bool" where
  "less_PipelineStage a b \<longleftrightarrow> stage_index a < stage_index b"

instance
  by standard (auto simp: less_eq_PipelineStage_def less_PipelineStage_def intro: stage_index_inject)

end

section \<open>Producer configuration\<close>

definition Millisecond :: int where "Millisecond = 1000000"
definition Second :: int where "Second = 1000 * Millisecond"

definition DefaultDataPathPrefix :: string where "DefaultDataPathPrefix = ''ingest''"
definition DefaultManifestPath :: string where "DefaultManifestPath = ''ingest/manifest''"
definition DefaultFlushInterval :: int where "DefaultFlushInterval = 100 * Millisecond"
definition DefaultFlushSizeBytes :: int where "DefaultFlushSizeBytes = 64 * 1024 * 1024"
definition DefaultMaxBufferedInputs :: int where "DefaultMaxBufferedInputs = 1000"
definition DefaultEncodeConcurrency :: int where "DefaultEncodeConcurrency = 1"
definition DefaultUploadConcurrency :: int where "DefaultUploadConcurrency = 1"
definition DefaultMaxInFlightBatches :: int where "DefaultMaxInFlightBatches = 64"
definition DefaultMaxInFlightBytes :: int where "DefaultMaxInFlightBytes = 256 * 1024 * 1024"
definition DefaultManifestAppendBatchSize :: int where "DefaultManifestAppendBatchSize = 1"
definition DefaultUploadMaxAttempts :: int where "DefaultUploadMaxAttempts = 6"
definition DefaultUploadInitialBackoff :: int where "DefaultUploadInitialBackoff = 100 * Millisecond"
definition DefaultManifestMaxAttempts :: int where "DefaultManifestMaxAttempts = 6"
definition DefaultManifestInitialBackoff :: int where "DefaultManifestInitialBackoff = 100 * Millisecond"

record ProducerConfig =
  cfg_DataPathPrefix :: string
  cfg_ManifestPath :: string
  cfg_FlushInterval :: int
  cfg_FlushSizeBytes :: int
  cfg_MaxBufferedInputs :: int
  cfg_BatchCompression :: CompressionType
  cfg_Observer :: bool
  cfg_EncodeConcurrency :: int
  cfg_UploadConcurrency :: int
  cfg_MaxInFlightBatches :: int
  cfg_MaxInFlightBytes :: int
  cfg_ManifestAppendBatchSize :: int
  cfg_UploadMaxAttempts :: int
  cfg_UploadInitialBackoff :: int
  cfg_ManifestMaxAttempts :: int
  cfg_ManifestInitialBackoff :: int

definition DefaultProducerConfig :: ProducerConfig where
  "DefaultProducerConfig = \<lparr>
     cfg_DataPathPrefix = DefaultDataPathPrefix,
     cfg_ManifestPath = DefaultManifestPath,
     cfg_FlushInterval = DefaultFlushInterval,
     cfg_FlushSizeBytes = DefaultFlushSizeBytes,
     cfg_MaxBufferedInputs = DefaultMaxBufferedInputs,
     cfg_BatchCompression = CompressionNone,
     cfg_Observer = False,
     cfg_EncodeConcurrency = DefaultEncodeConcurrency,
     cfg_UploadConcurrency = DefaultUploadConcurrency,
     cfg_MaxInFlightBatches = DefaultMaxInFlightBatches,
     cfg_MaxInFlightBytes = DefaultMaxInFlightBytes,
     cfg_ManifestAppendBatchSize = DefaultManifestAppendBatchSize,
     cfg_UploadMaxAttempts = DefaultUploadMaxAttempts,
     cfg_UploadInitialBackoff = DefaultUploadInitialBackoff,
     cfg_ManifestMaxAttempts = DefaultManifestMaxAttempts,
     cfg_ManifestInitialBackoff = DefaultManifestInitialBackoff\<rparr>"

text \<open>The fields \<^verbatim>\<open>NewProducer\<close> defaults when they are unset.\<close>

definition apply_defaults :: "ProducerConfig \<Rightarrow> ProducerConfig" where
  "apply_defaults config =
     (let config = (if cfg_MaxInFlightBytes config < 1
            then config\<lparr>cfg_MaxInFlightBytes := DefaultMaxInFlightBytes\<rparr> else config);
          config = (if cfg_MaxInFlightBatches config < 1
            then config\<lparr>cfg_MaxInFlightBatches := DefaultMaxInFlightBatches\<rparr> else config);
          config = (if cfg_UploadMaxAttempts config < 1
            then config\<lparr>cfg_UploadMaxAttempts := DefaultUploadMaxAttempts\<rparr> else config);
          config = (if cfg_UploadInitialBackoff config \<le> 0
            then config\<lparr>cfg_UploadInitialBackoff := DefaultUploadInitialBackoff\<rparr> else config);
          config = (if cfg_ManifestMaxAttempts config < 1
            then config\<lparr>cfg_ManifestMaxAttempts := DefaultManifestMaxAttempts\<rparr> else config);
          config = (if cfg_ManifestInitialBackoff config \<le> 0
            then config\<lparr>cfg_ManifestInitialBackoff := DefaultManifestInitialBackoff\<rparr> else config)
      in config)"

definition config_ok :: "ProducerConfig \<Rightarrow> bool" where
  "config_ok c \<longleftrightarrow> 1 \<le> cfg_MaxInFlightBytes c \<and> 1 \<le> cfg_MaxInFlightBatches c \<and>
     1 \<le> cfg_UploadMaxAttempts c \<and> 0 < cfg_UploadInitialBackoff c \<and>
     1 \<le> cfg_ManifestMaxAttempts c \<and> 0 < cfg_ManifestInitialBackoff c"

lemmas config_defaults = DefaultProducerConfig_def DefaultDataPathPrefix_def DefaultManifestPath_def
  DefaultFlushInterval_def DefaultFlushSizeBytes_def DefaultMaxBufferedInputs_def
  DefaultEncodeConcurrency_def DefaultUploadConcurrency_def DefaultMaxInFlightBatches_def
  DefaultMaxInFlightBytes_def DefaultManifestAppendBatchSize_def DefaultUploadMaxAttempts_def
  DefaultUploadInitialBackoff_def DefaultManifestMaxAttempts_def DefaultManifestInitialBackoff_def
  Millisecond_def Second_def

lemma apply_defaults_ok: "config_ok (apply_defaults c)"
  by (simp add: apply_defaults_def config_ok_def config_defaults Let_def)

lemma apply_defaults_id: "config_ok c \<Longrightarrow> apply_defaults c = c"
  by (simp add: apply_defaults_def config_ok_def Let_def)

lemma default_config_ok: "config_ok DefaultProducerConfig"
  by (simp add: config_ok_def config_defaults)

end
