(* ===== verification/Accumulator.thy ===== *)
theory Accumulator
  imports Config Manifest Budget
begin

text \<open>
  Append messages and the rotator's \<^verbatim>\<open>batchAccumulator\<close> (\<^verbatim>\<open>buffer/producer.go\<close>).  Watchers
  are references.  The current time is an argument of the operations that read the clock.
\<close>

record appendMessage =
  am_entries :: "bytes list"
  am_metadata :: bytes
  am_ingestionTimeMs :: u64
  am_watcher :: nat
  am_byteCost :: int

record batchAccumulator =
  ba_entries :: "bytes list"
  ba_metadata :: "QueueMetadata list"
  ba_watchers :: "nat list"
  ba_sizeBytes :: int
  ba_byteCost :: int
  ba_startedAt :: int
  ba_started :: bool

definition new_accumulator :: batchAccumulator where
  "new_accumulator = \<lparr>ba_entries = [], ba_metadata = [], ba_watchers = [], ba_sizeBytes = 0,
     ba_byteCost = 0, ba_startedAt = 0, ba_started = False\<rparr>"

definition batch_add :: "int \<Rightarrow> appendMessage \<Rightarrow> batchAccumulator \<Rightarrow> bool \<times> batchAccumulator" where
  "batch_add now msg b =
     (let wasStarted = ba_started b;
          startIndex = of_nat (length (ba_entries b)) :: u32;
          b = b\<lparr>ba_entries := ba_entries b @ am_entries msg\<rparr>;
          b = b\<lparr>ba_metadata := ba_metadata b @
                 [\<lparr>StartIndex = startIndex, IngestionTimeMs = am_ingestionTimeMs msg,
                   Payload = am_metadata msg\<rparr>]\<rparr>;
          b = b\<lparr>ba_watchers := ba_watchers b @ [am_watcher msg]\<rparr>;
          b = b\<lparr>ba_sizeBytes := foldl (\<lambda>n e. n + int (length e)) (ba_sizeBytes b) (am_entries msg)\<rparr>;
          b = b\<lparr>ba_sizeBytes := ba_sizeBytes b + int (length (am_metadata msg))\<rparr>;
          b = b\<lparr>ba_byteCost := ba_byteCost b + am_byteCost msg\<rparr>;
          b = (if \<not> ba_started b then b\<lparr>ba_startedAt := now, ba_started := True\<rparr> else b)
      in (\<not> wasStarted \<and> ba_started b, b))"

definition batch_isEmpty :: "batchAccumulator \<Rightarrow> bool" where
  "batch_isEmpty b \<longleftrightarrow> length (ba_entries b) = 0"

definition batch_reset ::
  "batchAccumulator \<Rightarrow> (bytes list \<times> QueueMetadata list \<times> nat list \<times> int) \<times> batchAccumulator" where
  "batch_reset b = ((ba_entries b, ba_metadata b, ba_watchers b, ba_byteCost b),
     b\<lparr>ba_entries := [], ba_metadata := [], ba_watchers := [], ba_sizeBytes := 0, ba_byteCost := 0,
       ba_started := False\<rparr>)"

definition batch_stats :: "int \<Rightarrow> batchAccumulator \<Rightarrow> FlushStats" where
  "batch_stats now b = \<lparr>fs_Inputs = int (length (ba_metadata b)), fs_Entries = int (length (ba_entries b)),
     fs_UncompressedBytes = ba_sizeBytes b, fs_Age = now - ba_startedAt b\<rparr>"

section \<open>What an accumulator holds\<close>

text \<open>\<open>message_metadata n msgs\<close>: the ranges of \<open>msgs\<close> when the first starts at index \<open>n\<close>.\<close>

fun message_metadata :: "nat \<Rightarrow> appendMessage list \<Rightarrow> QueueMetadata list" where
  "message_metadata n [] = []"
| "message_metadata n (m # msgs) =
     \<lparr>StartIndex = of_nat n, IngestionTimeMs = am_ingestionTimeMs m, Payload = am_metadata m\<rparr> #
     message_metadata (n + length (am_entries m)) msgs"

definition message_size :: "appendMessage \<Rightarrow> int" where
  "message_size m = appendByteCost (am_entries m) (am_metadata m)"

text \<open>The accumulator holds exactly the messages \<open>msgs\<close>, in order.\<close>

definition holds :: "appendMessage list \<Rightarrow> batchAccumulator \<Rightarrow> bool" where
  "holds msgs b \<longleftrightarrow> ba_entries b = concat (map am_entries msgs) \<and>
     ba_metadata b = message_metadata 0 msgs \<and> ba_watchers b = map am_watcher msgs \<and>
     ba_sizeBytes b = sum_list (map message_size msgs) \<and>
     ba_byteCost b = sum_list (map am_byteCost msgs) \<and> ba_started b = (msgs \<noteq> [])"

lemma foldl_lengths: "foldl (\<lambda>n e. n + int (length e)) k es = k + foldl (\<lambda>n e. n + int (length e)) 0 es"
proof (induction es arbitrary: k)
  case (Cons e es)
  show ?case using Cons.IH [of "k + int (length e)"] Cons.IH [of "int (length e)"] by simp
qed simp

lemma foldl_lengths_sum: "foldl (\<lambda>n e. n + int (length e)) 0 es = int (sum_list (map length es))"
  by (induction es) (simp_all add: foldl_lengths [of "int _"])

lemma appendByteCost_eq: "appendByteCost es md = int (sum_list (map length es) + length md)"
  by (simp add: appendByteCost_def foldl_lengths_sum)

lemma message_metadata_append:
  "message_metadata n (xs @ ys) =
     message_metadata n xs @ message_metadata (n + length (concat (map am_entries xs))) ys"
  by (induction xs arbitrary: n) (simp_all add: add.assoc)

lemma length_message_metadata [simp]: "length (message_metadata n msgs) = length msgs"
  by (induction msgs arbitrary: n) simp_all

lemma message_metadata_nth:
  "i < length msgs \<Longrightarrow> message_metadata n msgs ! i =
     \<lparr>StartIndex = of_nat (n + length (concat (map am_entries (take i msgs)))),
      IngestionTimeMs = am_ingestionTimeMs (msgs ! i), Payload = am_metadata (msgs ! i)\<rparr>"
proof (induction msgs arbitrary: n i)
  case (Cons m msgs)
  then show ?case by (cases i) (simp_all add: add.assoc)
qed simp

lemma concat_slice:
  "i < length xss \<Longrightarrow> take (length (xss ! i)) (drop (length (concat (take i xss))) (concat xss)) = xss ! i"
proof (induction xss arbitrary: i)
  case (Cons xs xss)
  then show ?case by (cases i) simp_all
qed simp

lemma concat_take_length: "length (concat (take i xss)) \<le> length (concat xss)"
  by (metis append_take_drop_id concat_append le_add1 length_append)

lemma holds_new [simp]: "holds [] new_accumulator"
  by (simp add: holds_def new_accumulator_def)

lemma holds_add: "holds msgs b \<Longrightarrow> holds (msgs @ [m]) (snd (batch_add now m b))"
  by (auto simp: holds_def batch_add_def Let_def message_metadata_append message_size_def
      appendByteCost_def foldl_lengths [of "sum_list _"])

lemma batch_add_started: "holds msgs b \<Longrightarrow> fst (batch_add now m b) \<longleftrightarrow> msgs = []"
  by (auto simp: holds_def batch_add_def Let_def)

lemma holds_reset: "holds [] (snd (batch_reset b))"
  by (simp add: holds_def batch_reset_def)

lemma batch_add_startedAt:
  "ba_startedAt (snd (batch_add now m b)) = (if ba_started b then ba_startedAt b else now)"
  by (simp add: batch_add_def Let_def)

section \<open>Properties\<close>

text \<open>
  C33. A consumer can tell the messages of a batch apart: after any sequence of messages is added to
  a fresh accumulator (with fewer than \<open>2^32\<close> records in all), the metadata of the \<open>i\<close>-th
  message records where its records start in the batch, and reading as many records from there gives
  the message back; byte counters are the exact sums.
\<close>

theorem accumulator_ranges:
  assumes "b = foldl (\<lambda>b (now, m). snd (batch_add now m b)) new_accumulator msgs"
    and "length (ba_entries b) < 2 ^ 32" and "i < length msgs"
  shows "take (length (am_entries (snd (msgs ! i)))) (drop (unat (StartIndex (ba_metadata b ! i))) (ba_entries b)) =
      am_entries (snd (msgs ! i)) \<and>
    Payload (ba_metadata b ! i) = am_metadata (snd (msgs ! i)) \<and>
    ba_watchers b ! i = am_watcher (snd (msgs ! i)) \<and>
    ba_sizeBytes b = sum_list (map (message_size \<circ> snd) msgs)"
proof -
  let ?ms = "map snd msgs"
  have "holds ?ms b" unfolding assms(1)
    by (induction msgs rule: rev_induct) (auto simp: holds_add split: prod.splits)
  then have b: "ba_entries b = concat (map am_entries ?ms)" "ba_metadata b = message_metadata 0 ?ms"
    "ba_watchers b = map am_watcher ?ms" "ba_sizeBytes b = sum_list (map message_size ?ms)"
    by (simp_all add: holds_def)
  let ?n = "length (concat (take i (map am_entries ?ms)))"
  have "?n < 2 ^ 32" using assms(2) b(1) concat_take_length [of i "map am_entries ?ms"] by simp
  then have "unat (of_nat ?n :: u32) = ?n" by (simp add: unat_of_nat_lt)
  then show ?thesis
    using assms(3) concat_slice [of i "map am_entries ?ms"]
    unfolding b by (simp add: message_metadata_nth take_map comp_def)
qed

definition two_messages :: "(int \<times> appendMessage) list" where
  "two_messages =
     [(5, \<lparr>am_entries = [[1], [2, 3]], am_metadata = [9], am_ingestionTimeMs = 7, am_watcher = 0, am_byteCost = 4\<rparr>),
      (6, \<lparr>am_entries = [[4]], am_metadata = [], am_ingestionTimeMs = 8, am_watcher = 1, am_byteCost = 1\<rparr>)]"

theorem accumulator_ranges_witness:
  "let b = foldl (\<lambda>b (now, m). snd (batch_add now m b)) new_accumulator two_messages in
     unat (StartIndex (ba_metadata b ! 1)) = 2 \<and>
     take 1 (drop (unat (StartIndex (ba_metadata b ! 1))) (ba_entries b)) = [[4]] \<and> ba_sizeBytes b = 5"
  using accumulator_ranges [of _ two_messages 1, OF refl]
  by (simp add: two_messages_def new_accumulator_def batch_add_def message_size_def appendByteCost_def Let_def)

end
