(* ===== verification/Producer.thy ===== *)
theory Producer
  imports Accumulator Watcher Enqueuer
begin

text \<open>
  The state of a \<^verbatim>\<open>Producer\<close> (\<^verbatim>\<open>buffer/producer.go\<close>) that its goroutines share, apart
  from the channels between them, and the values that travel on those channels.  Object references
  are natural numbers for watchers and flush acknowledgement channels; the latter are buffered and
  receive one value, so a send is recorded in \<open>p_flushAcks\<close>.  \<open>p_log\<close> is the sequence of calls
  made to the observer.
\<close>

section \<open>Batches in flight\<close>

record pendingBatch =
  pb_ordinal :: u64
  pb_entries :: "bytes list"
  pb_metadata :: "QueueMetadata list"
  pb_watchers :: "nat list"
  pb_stats :: FlushStats
  pb_reason :: FlushReason
  pb_flushAck :: "nat option"
  pb_byteCost :: int

record encodedBatch =
  eb_ordinal :: u64
  eb_payload :: bytes
  eb_metadata :: "QueueMetadata list"
  eb_watchers :: "nat list"
  eb_stats :: FlushStats
  eb_reason :: FlushReason
  eb_flushAck :: "nat option"
  eb_location :: string
  eb_size :: int
  eb_pipelineStartedAt :: int
  eb_byteCost :: int

record uploadCompletion =
  uc_eb :: encodedBatch
  uc_putError :: "gerror option"
  uc_encodeFailed :: bool

record resolverItem =
  ri_reason :: FlushReason
  ri_stats :: FlushStats
  ri_pipelineStartedAt :: int
  ri_watchers :: "nat list"
  ri_flushAck :: "nat option"
  ri_err :: "gerror option"
  ri_outcome :: BatchOutcome
  ri_byteCost :: int

section \<open>Producer\<close>

record 's Producer =
  p_enqueuer :: "'s manifestEnqueuer"
  p_store :: "'s ObjectStore"
  p_config :: ProducerConfig
  p_runID :: string
  p_budget :: producerBudget
  p_signals :: signals
  p_watchers :: watchers
  p_encodeWorkersBusy :: int
  p_uploadWorkersBusy :: int
  p_oldestUnflushedNs :: int
  p_halted :: bool
  p_haltedNotify :: bool
  p_flushAcks :: "(nat \<times> gerror option) list"
  p_log :: "Observer list"

text \<open>\<open>runID\<close> is the ULID the library generates.\<close>

definition NewProducer :: "'s ObjectStore \<Rightarrow> ProducerConfig \<Rightarrow> string \<Rightarrow> 's Producer" where
  "NewProducer store config runID =
     (let config = apply_defaults config in
      \<lparr>p_enqueuer = newManifestEnqueuer store (cfg_ManifestPath config), p_store = store,
       p_config = config, p_runID = runID,
       p_budget = newProducerBudget (cfg_MaxInFlightBytes config) (cfg_MaxInFlightBatches config),
       p_signals = no_signals, p_watchers = (\<lambda>_. newDurabilityWatcher),
       p_encodeWorkersBusy = 0, p_uploadWorkersBusy = 0, p_oldestUnflushedNs = 0, p_halted = False,
       p_haltedNotify = False, p_flushAcks = [], p_log = []\<rparr>)"

definition observe :: "Observer list \<Rightarrow> 's Producer \<Rightarrow> 's Producer" where
  "observe evs p = (if cfg_Observer (p_config p) then p\<lparr>p_log := p_log p @ evs\<rparr> else p)"

definition emitInflightSnapshot :: "'s Producer \<Rightarrow> 's Producer" where
  "emitInflightSnapshot p =
     (let (usedBytes, usedBatches) = snapshot (p_budget p) in
      observe [OnInflightBytes usedBytes, OnInflightBatches usedBatches] p)"

text \<open>\<^verbatim>\<open>if flushAck != nil { flushAck <- err }\<close>\<close>

definition send_ack :: "nat option \<Rightarrow> gerror option \<Rightarrow> 's Producer \<Rightarrow> 's Producer" where
  "send_ack flushAck err p =
     (case flushAck of None \<Rightarrow> p | Some a \<Rightarrow> p\<lparr>p_flushAcks := p_flushAcks p @ [(a, err)]\<rparr>)"

definition budget_release :: "int \<Rightarrow> int \<Rightarrow> 's Producer \<Rightarrow> 's Producer res" where
  "budget_release bytes batches p =
     obind (release bytes batches (p_budget p) (p_signals p)) (\<lambda>(b, h).
       Ok (p\<lparr>p_budget := b, p_signals := h\<rparr>))"

definition budget_addReservation :: "int \<Rightarrow> 's Producer \<Rightarrow> 's Producer res" where
  "budget_addReservation extra p =
     obind (addReservation extra (p_budget p) (p_signals p)) (\<lambda>(b, h).
       Ok (p\<lparr>p_budget := b, p_signals := h\<rparr>))"

definition watchers_resolve :: "nat list \<Rightarrow> gerror option \<Rightarrow> 's Producer \<Rightarrow> 's Producer res" where
  "watchers_resolve dws err p =
     obind (resolve_all dws err (p_watchers p)) (\<lambda>ws. Ok (p\<lparr>p_watchers := ws\<rparr>))"

text \<open>The age gauge read by metric scrapers.\<close>

definition OldestUnflushedBatchAge :: "int \<Rightarrow> 's Producer \<Rightarrow> int" where
  "OldestUnflushedBatchAge now p =
     (let ns = p_oldestUnflushedNs p in
      if ns = 0 then 0
      else let age = now - ns in if age < 0 then 0 else age)"

definition ConflictRate :: "'s Producer \<Rightarrow> real" where
  "ConflictRate p = me_conflictRate (p_enqueuer p)"

section \<open>Well-formed producers\<close>

definition producer_ok :: "'s Producer \<Rightarrow> bool" where
  "producer_ok p \<longleftrightarrow> budget_ok (p_budget p) (p_signals p) \<and> (\<forall>i. watcher_ok (p_watchers p i)) \<and>
     config_ok (p_config p)"

lemma NewProducer_ok: "producer_ok (NewProducer store config runID)"
  by (simp add: producer_ok_def NewProducer_def Let_def newProducerBudget_ok apply_defaults_ok)

lemma NewProducer_simps [simp]:
  "p_config (NewProducer store config runID) = apply_defaults config"
  "p_store (NewProducer store config runID) = store" "p_runID (NewProducer store config runID) = runID"
  "p_enqueuer (NewProducer store config runID) =
     newManifestEnqueuer store (cfg_ManifestPath (apply_defaults config))"
  "p_watchers (NewProducer store config runID) = (\<lambda>_. newDurabilityWatcher)"
  "p_halted (NewProducer store config runID) = False" "p_log (NewProducer store config runID) = []"
  "p_haltedNotify (NewProducer store config runID) = False"
  "p_encodeWorkersBusy (NewProducer store config runID) = 0"
  "p_uploadWorkersBusy (NewProducer store config runID) = 0"
  "p_flushAcks (NewProducer store config runID) = []"
  "bytesUsed (p_budget (NewProducer store config runID)) = 0"
  "batchesUsed (p_budget (NewProducer store config runID)) = 0"
  by (simp_all add: NewProducer_def newProducerBudget_def Let_def)

lemma observe_simps [simp]:
  "p_budget (observe evs p) = p_budget p" "p_signals (observe evs p) = p_signals p"
  "p_watchers (observe evs p) = p_watchers p" "p_config (observe evs p) = p_config p"
  "p_store (observe evs p) = p_store p" "p_enqueuer (observe evs p) = p_enqueuer p"
  "p_runID (observe evs p) = p_runID p" "p_halted (observe evs p) = p_halted p"
  "p_haltedNotify (observe evs p) = p_haltedNotify p" "p_flushAcks (observe evs p) = p_flushAcks p"
  "p_oldestUnflushedNs (observe evs p) = p_oldestUnflushedNs p"
  "p_encodeWorkersBusy (observe evs p) = p_encodeWorkersBusy p"
  "p_uploadWorkersBusy (observe evs p) = p_uploadWorkersBusy p"
  by (simp_all add: observe_def)

lemma emitInflightSnapshot_eq:
  "emitInflightSnapshot p =
     observe [OnInflightBytes (bytesUsed (p_budget p)), OnInflightBatches (batchesUsed (p_budget p))] p"
  by (simp add: emitInflightSnapshot_def snapshot_def)

lemma send_ack_simps [simp]:
  "p_budget (send_ack a e p) = p_budget p" "p_signals (send_ack a e p) = p_signals p"
  "p_watchers (send_ack a e p) = p_watchers p" "p_config (send_ack a e p) = p_config p"
  "p_store (send_ack a e p) = p_store p" "p_enqueuer (send_ack a e p) = p_enqueuer p"
  "p_runID (send_ack a e p) = p_runID p" "p_halted (send_ack a e p) = p_halted p"
  "p_oldestUnflushedNs (send_ack a e p) = p_oldestUnflushedNs p"
  "p_log (send_ack a e p) = p_log p"
  "p_flushAcks (send_ack a e p) = p_flushAcks p @ (case a of None \<Rightarrow> [] | Some i \<Rightarrow> [(i, e)])"
  by (simp_all add: send_ack_def split: option.splits)

lemma producer_ok_frame [simp]:
  "producer_ok (observe evs p) = producer_ok p" "producer_ok (send_ack a e p) = producer_ok p"
  "producer_ok (p\<lparr>p_oldestUnflushedNs := n\<rparr>) = producer_ok p"
  "producer_ok (emitInflightSnapshot p) = producer_ok p"
  by (simp_all add: producer_ok_def emitInflightSnapshot_eq)

lemma budget_release_effect:
  assumes "producer_ok p" and "0 \<le> batches"
  obtains b h where "budget_release bytes batches p = Ok (p\<lparr>p_budget := b, p_signals := h\<rparr>)"
    "producer_ok (p\<lparr>p_budget := b, p_signals := h\<rparr>)"
    "bytesUsed b = max 0 (bytesUsed (p_budget p) - bytes)"
    "batchesUsed b = max 0 (batchesUsed (p_budget p) - batches)"
    "maxBatches b = maxBatches (p_budget p)" "maxBytes b = maxBytes (p_budget p)"
proof -
  have ok: "budget_ok (p_budget p) (p_signals p)" using assms(1) by (simp add: producer_ok_def)
  obtain b h where rel: "release bytes batches (p_budget p) (p_signals p) = Ok (b, h)"
    using release_result [OF ok] by blast
  have "budget_ok b h" by (rule release_ok [OF ok rel assms(2)])
  then have "producer_ok (p\<lparr>p_budget := b, p_signals := h\<rparr>)" using assms(1) by (simp add: producer_ok_def)
  moreover have "budget_release bytes batches p = Ok (p\<lparr>p_budget := b, p_signals := h\<rparr>)"
    by (simp add: budget_release_def rel)
  moreover have "bytesUsed b = max 0 (bytesUsed (p_budget p) - bytes)"
    "batchesUsed b = max 0 (batchesUsed (p_budget p) - batches)"
    "maxBatches b = maxBatches (p_budget p)" "maxBytes b = maxBytes (p_budget p)"
    using rel unfolding release_result [OF ok] by auto
  ultimately show ?thesis using that by blast
qed

lemma budget_addReservation_effect:
  assumes "producer_ok p"
  obtains b h where "budget_addReservation extra p = Ok (p\<lparr>p_budget := b, p_signals := h\<rparr>)"
    "producer_ok (p\<lparr>p_budget := b, p_signals := h\<rparr>)"
    "bytesUsed b = max 0 (bytesUsed (p_budget p) + extra)"
    "batchesUsed b = batchesUsed (p_budget p)"
    "maxBatches b = maxBatches (p_budget p)" "maxBytes b = maxBytes (p_budget p)"
proof -
  have ok: "budget_ok (p_budget p) (p_signals p)" using assms by (simp add: producer_ok_def)
  obtain b h where add: "addReservation extra (p_budget p) (p_signals p) = Ok (b, h)"
    using addReservation_result [OF ok] by blast
  have "budget_ok b h" by (rule addReservation_ok [OF ok add])
  then have "producer_ok (p\<lparr>p_budget := b, p_signals := h\<rparr>)" using assms by (simp add: producer_ok_def)
  moreover have "budget_addReservation extra p = Ok (p\<lparr>p_budget := b, p_signals := h\<rparr>)"
    by (simp add: budget_addReservation_def add)
  moreover have "bytesUsed b = max 0 (bytesUsed (p_budget p) + extra)"
    "batchesUsed b = batchesUsed (p_budget p)"
    "maxBatches b = maxBatches (p_budget p)" "maxBytes b = maxBytes (p_budget p)"
    using add unfolding addReservation_result [OF ok] by auto
  ultimately show ?thesis using that by blast
qed

lemma budget_release_Ok:
  assumes "producer_ok p" and "0 \<le> batches"
  shows "\<exists>p'. budget_release bytes batches p = Ok p' \<and> producer_ok p' \<and> p_watchers p' = p_watchers p \<and>
     p_config p' = p_config p \<and> p_flushAcks p' = p_flushAcks p \<and>
     bytesUsed (p_budget p') = max 0 (bytesUsed (p_budget p) - bytes) \<and>
     batchesUsed (p_budget p') = max 0 (batchesUsed (p_budget p) - batches)"
  by (rule budget_release_effect [OF assms, of bytes]) simp

lemma budget_addReservation_Ok:
  assumes "producer_ok p"
  shows "\<exists>p'. budget_addReservation extra p = Ok p' \<and> producer_ok p' \<and> p_watchers p' = p_watchers p \<and>
     p_config p' = p_config p \<and> p_flushAcks p' = p_flushAcks p \<and>
     bytesUsed (p_budget p') = max 0 (bytesUsed (p_budget p) + extra) \<and>
     batchesUsed (p_budget p') = batchesUsed (p_budget p)"
  by (rule budget_addReservation_effect [OF assms, of extra]) simp

lemma watchers_resolve_Ok:
  "producer_ok p \<Longrightarrow> watchers_resolve dws err p =
     Ok (p\<lparr>p_watchers := (\<lambda>i. if i \<in> set dws then resolved err (p_watchers p i) else p_watchers p i)\<rparr>)"
  by (simp add: watchers_resolve_def producer_ok_def resolve_all_eq)

lemma watchers_resolve_ok: "producer_ok p \<Longrightarrow> \<exists>p'. watchers_resolve dws err p = Ok p' \<and> producer_ok p'"
  by (simp add: watchers_resolve_Ok) (simp add: producer_ok_def)

lemma producer_ok_resolved [simp]:
  "producer_ok p \<Longrightarrow> producer_ok (p\<lparr>p_watchers :=
     (\<lambda>i. if i \<in> set dws then resolved err (p_watchers p i) else p_watchers p i)\<rparr>)"
  by (simp add: producer_ok_def)

end
