(* ===== verification/Rotator.thy ===== *)
theory Rotator
  imports Producer
begin

text \<open>
  The rotator goroutine of \<^verbatim>\<open>buffer/producer.go\<close>: it owns the open accumulator and the ordinal
  counter.  \<^verbatim>\<open>emit\<close> blocks in \<^verbatim>\<open>acquireBatchSlot\<close>; the call is the argument \<open>acquire\<close>, a
  transformer of the shared state that includes whatever the other goroutines do while it blocks.
  The batch handed to \<^verbatim>\<open>pendingCh\<close> is a result of the function.
\<close>

record rotator =
  rt_batch :: batchAccumulator
  rt_ordinal :: u64

definition rotator_start :: rotator where
  "rotator_start = \<lparr>rt_batch = new_accumulator, rt_ordinal = 0\<rparr>"

datatype emission = NothingEmitted | DroppedOnShutdown "nat list" | Emitted pendingBatch

text \<open>After \<^verbatim>\<open>acquireBatchSlot\<close> failed: the batch is dropped and its watchers resolved.\<close>

definition emit_dropped ::
  "nat option \<Rightarrow> rotator \<Rightarrow> 's Producer \<Rightarrow> (emission \<times> rotator \<times> 's Producer) res" where
  "emit_dropped flushAck rt p =
     obind (budget_release (ba_byteCost (rt_batch rt)) 0 p) (\<lambda>p.
     let p = emitInflightSnapshot p;
         ((_, _, watchers, _), batch) = batch_reset (rt_batch rt);
         p = p\<lparr>p_oldestUnflushedNs := 0\<rparr> in
     obind (watchers_resolve watchers (Some ErrShutdown) p) (\<lambda>p.
     Ok (DroppedOnShutdown watchers, rt\<lparr>rt_batch := batch\<rparr>, send_ack flushAck (Some ErrShutdown) p)))"

definition framing_extra :: "bytes list \<Rightarrow> int" where
  "framing_extra entries = batchEntryLenSize * int (length entries) + batchFooterSize"

text \<open>After the slot was acquired: the batch is numbered, reconciled and sent.\<close>

definition emit_pending ::
  "int \<Rightarrow> FlushReason \<Rightarrow> nat option \<Rightarrow> rotator \<Rightarrow> 's Producer \<Rightarrow>
     (emission \<times> rotator \<times> 's Producer) res" where
  "emit_pending now reason flushAck rt p =
     (let p = emitInflightSnapshot p;
          stats = batch_stats now (rt_batch rt);
          ((entries, metadata, watchers, byteCost), batch) = batch_reset (rt_batch rt);
          p = p\<lparr>p_oldestUnflushedNs := 0\<rparr>;
          framingExtra = framing_extra entries;
          framedCost = byteCost + framingExtra in
      obind (budget_addReservation framingExtra p) (\<lambda>p.
      let p = emitInflightSnapshot p;
          pb = \<lparr>pb_ordinal = rt_ordinal rt, pb_entries = entries, pb_metadata = metadata,
                pb_watchers = watchers, pb_stats = stats, pb_reason = reason,
                pb_flushAck = flushAck, pb_byteCost = framedCost\<rparr>;
          rt = rt\<lparr>rt_batch := batch, rt_ordinal := rt_ordinal rt + 1\<rparr>;
          p = observe [OnQueueDepth StageEncode 0] p
      in Ok (Emitted pb, rt, p)))"

definition emit ::
  "('s Producer \<Rightarrow> gerror option \<times> 's Producer) \<Rightarrow> int \<Rightarrow> FlushReason \<Rightarrow> nat option \<Rightarrow> rotator \<Rightarrow>
     's Producer \<Rightarrow> (emission \<times> rotator \<times> 's Producer) res" where
  "emit acquire now reason flushAck rt p =
     (if batch_isEmpty (rt_batch rt) then Ok (NothingEmitted, rt, send_ack flushAck None p)
      else case acquire p of
          (Some _, p) \<Rightarrow> emit_dropped flushAck rt p
        | (None, p) \<Rightarrow> emit_pending now reason flushAck rt p)"

text \<open>The timer armed before each \<^verbatim>\<open>select\<close>: the remaining time, or no timer.\<close>

definition resetTimer :: "int \<Rightarrow> rotator \<Rightarrow> 's Producer \<Rightarrow> int option" where
  "resetTimer now rt p =
     (if ba_started (rt_batch rt)
      then let remaining = ba_startedAt (rt_batch rt) + cfg_FlushInterval (p_config p) - now in
        Some (if remaining \<le> 0 then 0 else remaining)
      else None)"

fun drainAppendChInto :: "(int \<times> appendMessage) list \<Rightarrow> batchAccumulator \<Rightarrow> batchAccumulator" where
  "drainAppendChInto [] batch = batch"
| "drainAppendChInto ((now, msg) # msgs) batch = drainAppendChInto msgs (snd (batch_add now msg batch))"

text \<open>
  What the \<^verbatim>\<open>select\<close> received: a message or the close of \<^verbatim>\<open>appendCh\<close>; a flush request, with
  the messages found in \<^verbatim>\<open>appendCh\<close> at that moment; the timer.
\<close>

datatype rotator_event =
    AppendRecv appendMessage
  | AppendClosed
  | FlushRecv nat "(int \<times> appendMessage) list"
  | TimerFired

text \<open>One case of the \<^verbatim>\<open>select\<close> up to its call of \<^verbatim>\<open>emit\<close>, whose arguments it yields.\<close>

fun rotator_select ::
  "int \<Rightarrow> rotator_event \<Rightarrow> rotator \<Rightarrow> 's Producer \<Rightarrow>
     (FlushReason \<times> nat option) option \<times> rotator \<times> 's Producer" where
  "rotator_select now AppendClosed rt p = (Some (FlushReasonShutdown, None), rt, p)"
| "rotator_select now (AppendRecv msg) rt p =
     (let (becameStarted, batch) = batch_add now msg (rt_batch rt);
          p = (if becameStarted then p\<lparr>p_oldestUnflushedNs := ba_startedAt batch\<rparr> else p) in
      (if ba_sizeBytes batch \<ge> cfg_FlushSizeBytes (p_config p)
       then Some (FlushReasonSize, None) else None,
       rt\<lparr>rt_batch := batch\<rparr>, p))"
| "rotator_select now (FlushRecv ack msgs) rt p =
     (let batch = drainAppendChInto msgs (rt_batch rt);
          p = (if ba_started batch \<and> p_oldestUnflushedNs p = 0
               then p\<lparr>p_oldestUnflushedNs := ba_startedAt batch\<rparr> else p) in
      (Some (FlushReasonManual, Some ack), rt\<lparr>rt_batch := batch\<rparr>, p))"
| "rotator_select now TimerFired rt p = (Some (FlushReasonTime, None), rt, p)"

definition rotator_iter ::
  "('s Producer \<Rightarrow> gerror option \<times> 's Producer) \<Rightarrow> int \<Rightarrow> rotator_event \<Rightarrow> rotator \<Rightarrow>
     's Producer \<Rightarrow> (emission \<times> rotator \<times> 's Producer) res" where
  "rotator_iter acquire now ev rt p =
     (case rotator_select now ev rt p of
        (None, rt, p) \<Rightarrow> Ok (NothingEmitted, rt, p)
      | (Some (reason, flushAck), rt, p) \<Rightarrow> emit acquire now reason flushAck rt p)"

text \<open>
  The loop over a finite run: each round is what the \<^verbatim>\<open>select\<close> received and when, and the
  outcome of the slot acquisition.  It returns after the close of \<^verbatim>\<open>appendCh\<close>.
\<close>

type_synonym 's rotator_round = "('s Producer \<Rightarrow> gerror option \<times> 's Producer) \<times> int \<times> rotator_event"

fun rotator_loop ::
  "'s rotator_round list \<Rightarrow> rotator \<Rightarrow> 's Producer \<Rightarrow> (emission list \<times> rotator \<times> 's Producer) res" where
  "rotator_loop [] rt p = Ok ([], rt, p)"
| "rotator_loop ((acquire, now, ev) # rounds) rt p =
     obind (rotator_iter acquire now ev rt p) (\<lambda>(out, rt, p).
       if ev = AppendClosed then Ok ([out], rt, p)
       else obind (rotator_loop rounds rt p) (\<lambda>(outs, rt, p). Ok (out # outs, rt, p)))"

section \<open>Conservation of messages\<close>

fun received :: "rotator_event \<Rightarrow> appendMessage list" where
  "received (AppendRecv m) = [m]"
| "received (FlushRecv ack ms) = map snd ms"
| "received AppendClosed = []"
| "received TimerFired = []"

fun received_all :: "'s rotator_round list \<Rightarrow> appendMessage list" where
  "received_all [] = []"
| "received_all ((acquire, now, ev) # rounds) =
     (if ev = AppendClosed then [] else received ev @ received_all rounds)"

definition nonempty :: "appendMessage \<Rightarrow> bool" where
  "nonempty m \<longleftrightarrow> am_entries m \<noteq> []"

text \<open>\<open>emission_of g out\<close>: the emission \<open>out\<close> carries exactly the messages \<open>g\<close>.\<close>

definition carries :: "pendingBatch \<Rightarrow> appendMessage list \<Rightarrow> bool" where
  "carries pb g \<longleftrightarrow> pb_entries pb = concat (map am_entries g) \<and> pb_metadata pb = message_metadata 0 g \<and>
     pb_watchers pb = map am_watcher g \<and>
     pb_byteCost pb = sum_list (map am_byteCost g) + framing_extra (pb_entries pb)"

fun emission_of :: "appendMessage list \<Rightarrow> emission \<Rightarrow> bool" where
  "emission_of g NothingEmitted \<longleftrightarrow> g = []"
| "emission_of g (DroppedOnShutdown ws) \<longleftrightarrow> g \<noteq> [] \<and> ws = map am_watcher g"
| "emission_of g (Emitted pb) \<longleftrightarrow> g \<noteq> [] \<and> carries pb g"

fun emitted :: "emission list \<Rightarrow> pendingBatch list" where
  "emitted [] = []"
| "emitted (Emitted pb # outs) = pb # emitted outs"
| "emitted (NothingEmitted # outs) = emitted outs"
| "emitted (DroppedOnShutdown ws # outs) = emitted outs"

text \<open>The slot acquisition, and what others do meanwhile, keep the shared state well-formed.\<close>

definition acquire_ok :: "('s Producer \<Rightarrow> gerror option \<times> 's Producer) \<Rightarrow> bool" where
  "acquire_ok acquire \<longleftrightarrow> (\<forall>p. producer_ok p \<longrightarrow> producer_ok (snd (acquire p)))"

lemma drainAppendChInto_holds:
  "holds msgs b \<Longrightarrow> holds (msgs @ map snd ms) (drainAppendChInto ms b)"
proof (induction ms arbitrary: msgs b)
  case (Cons m ms)
  then show ?case using holds_add [of msgs b "snd m" "fst m"] Cons.IH [of "msgs @ [snd m]"] by (cases m) simp
qed simp

lemma rotator_select_holds:
  assumes "holds msgs (rt_batch rt)" and "rotator_select now ev rt p = (req, rt', p')"
  shows "holds (msgs @ received ev) (rt_batch rt') \<and> rt_ordinal rt' = rt_ordinal rt \<and>
    producer_ok p' = producer_ok p \<and> (ev = AppendClosed \<longrightarrow> req \<noteq> None)"
proof (cases ev)
  case (AppendRecv m)
  then show ?thesis
    using assms(2) holds_add [OF assms(1), of m now] by (auto simp: Let_def split: prod.splits if_splits)
qed (use assms drainAppendChInto_holds [OF assms(1)] in \<open>auto simp: Let_def split: if_splits\<close>)

lemma holds_isEmpty: "holds msgs b \<Longrightarrow> list_all nonempty msgs \<Longrightarrow> batch_isEmpty b \<longleftrightarrow> msgs = []"
  by (cases msgs) (auto simp: holds_def batch_isEmpty_def nonempty_def)

lemma emit_carries:
  assumes "holds msgs (rt_batch rt)" and "list_all nonempty msgs" and "producer_ok p" and "acquire_ok acquire"
  shows "\<exists>out rt' p'. emit acquire now reason flushAck rt p = Ok (out, rt', p') \<and> emission_of msgs out \<and>
    holds [] (rt_batch rt') \<and> producer_ok p' \<and>
    map pb_ordinal (emitted [out]) = (if rt_ordinal rt' = rt_ordinal rt then [] else [rt_ordinal rt]) \<and>
    rt_ordinal rt' = rt_ordinal rt + of_nat (length (emitted [out]))"
proof (cases "msgs = []")
  case True
  then show ?thesis using assms holds_isEmpty [of msgs "rt_batch rt"] by (simp add: emit_def)
next
  case False
  obtain e p1 where acq: "acquire p = (e, p1)" by fastforce
  have p1: "producer_ok p1" using assms(3,4) acq by (auto simp: acquire_ok_def)
  have ne: "\<not> batch_isEmpty (rt_batch rt)" using False assms holds_isEmpty by blast
  show ?thesis
  proof (cases e)
    case None
    let ?p2 = "(emitInflightSnapshot p1)\<lparr>p_oldestUnflushedNs := 0\<rparr>"
    obtain p3 where "budget_addReservation (framing_extra (ba_entries (rt_batch rt))) ?p2 = Ok p3" "producer_ok p3"
      using budget_addReservation_Ok [of ?p2] p1 by auto
    then show ?thesis
      using False assms(1) ne acq None holds_reset [of "rt_batch rt"]
      by (auto simp: emit_def emit_pending_def batch_reset_def carries_def holds_def Let_def)
  next
    case (Some err)
    obtain p2 where "budget_release (ba_byteCost (rt_batch rt)) 0 p1 = Ok p2" "producer_ok p2"
      using budget_release_Ok [OF p1] by blast
    moreover obtain p3 where "watchers_resolve (ba_watchers (rt_batch rt)) (Some ErrShutdown)
        ((emitInflightSnapshot p2)\<lparr>p_oldestUnflushedNs := 0\<rparr>) = Ok p3" "producer_ok p3"
      using watchers_resolve_ok [of "(emitInflightSnapshot p2)\<lparr>p_oldestUnflushedNs := 0\<rparr>"] \<open>producer_ok p2\<close>
      by auto
    ultimately show ?thesis
      using False assms(1) ne acq Some holds_reset [of "rt_batch rt"]
      by (simp add: emit_def emit_dropped_def batch_reset_def holds_def Let_def)
  qed
qed

lemma rotator_iter_carries:
  assumes "holds msgs (rt_batch rt)" and "list_all nonempty (msgs @ received ev)" and "producer_ok p"
    and "acquire_ok acquire"
  shows "\<exists>out rt' p' g rest. rotator_iter acquire now ev rt p = Ok (out, rt', p') \<and>
    msgs @ received ev = g @ rest \<and> emission_of g out \<and> holds rest (rt_batch rt') \<and> producer_ok p' \<and>
    (ev = AppendClosed \<longrightarrow> rest = []) \<and>
    map pb_ordinal (emitted [out]) = (if rt_ordinal rt' = rt_ordinal rt then [] else [rt_ordinal rt]) \<and>
    rt_ordinal rt' = rt_ordinal rt + of_nat (length (emitted [out]))"
proof -
  obtain req rt1 p1 where sel: "rotator_select now ev rt p = (req, rt1, p1)" by (metis prod_cases3)
  note sel' = rotator_select_holds [OF assms(1) sel]
  show ?thesis
  proof (cases req)
    case None
    then have "rotator_iter acquire now ev rt p = Ok (NothingEmitted, rt1, p1)"
      using sel by (simp add: rotator_iter_def)
    moreover have "msgs @ received ev = [] @ (msgs @ received ev)" by simp
    ultimately show ?thesis using sel' None assms(3) by (fastforce simp del: append_Nil)
  next
    case (Some r)
    then have "rotator_iter acquire now ev rt p = emit acquire now (fst r) (snd r) rt1 p1"
      using sel by (simp add: rotator_iter_def split: prod.splits)
    moreover have "msgs @ received ev = (msgs @ received ev) @ []" by simp
    ultimately show ?thesis
      using emit_carries [of "msgs @ received ev" rt1 p1 acquire now "fst r" "snd r"] sel' assms(2-4)
      by (metis (no_types, lifting))
  qed
qed

definition round_ok :: "'s rotator_round \<Rightarrow> bool" where
  "round_ok = (\<lambda>(acquire, now, ev). acquire_ok acquire \<and> list_all nonempty (received ev))"

lemma emitted_Cons: "emitted (out # outs) = emitted [out] @ emitted outs"
  by (cases out) simp_all

lemma ordinals_append:
  "map (\<lambda>i. x + of_nat i :: u64) [0..<a + b] =
     map (\<lambda>i. x + of_nat i) [0..<a] @ map (\<lambda>i. (x + of_nat a) + of_nat i) [0..<b]"
  by (rule nth_equalityI) (auto simp: nth_append add.assoc simp flip: of_nat_add)

lemma emitted_single:
  "map pb_ordinal (emitted [out]) = (if y = x then [] else [x]) \<Longrightarrow> y = x + of_nat (length (emitted [out])) \<Longrightarrow>
     map pb_ordinal (emitted [out]) = map (\<lambda>i. x + of_nat i) [0..<length (emitted [out])]"
  by (cases out) (auto split: if_splits)

lemma rotator_loop_carries:
  assumes "holds msgs (rt_batch rt)" and "list_all nonempty msgs" and "producer_ok p"
    and "list_all round_ok rounds"
  shows "\<exists>outs rt' p' groups rest. rotator_loop rounds rt p = Ok (outs, rt', p') \<and> producer_ok p' \<and>
    msgs @ received_all rounds = concat groups @ rest \<and> list_all2 emission_of groups outs \<and>
    holds rest (rt_batch rt') \<and> (AppendClosed \<in> set (map (snd \<circ> snd) rounds) \<longrightarrow> rest = []) \<and>
    map pb_ordinal (emitted outs) = map (\<lambda>i. rt_ordinal rt + of_nat i) [0..<length (emitted outs)]"
  using assms
proof (induction rounds arbitrary: msgs rt p)
  case Nil
  then show ?case by (auto intro!: exI [of _ "[]"])
next
  case (Cons r rounds)
  obtain acquire now ev where r: "r = (acquire, now, ev)" by (cases r)
  have ne: "list_all nonempty (msgs @ received ev)" and acq: "acquire_ok acquire"
    using Cons.prems r by (auto simp: round_ok_def)
  from rotator_iter_carries [OF Cons.prems(1) ne Cons.prems(3) acq, of now] obtain out rt1 p1 g rest1 where
    it: "rotator_iter acquire now ev rt p = Ok (out, rt1, p1)" "msgs @ received ev = g @ rest1"
      "emission_of g out" "holds rest1 (rt_batch rt1)" "producer_ok p1" "ev = AppendClosed \<longrightarrow> rest1 = []"
    and ord: "map pb_ordinal (emitted [out]) = (if rt_ordinal rt1 = rt_ordinal rt then [] else [rt_ordinal rt])"
      "rt_ordinal rt1 = rt_ordinal rt + of_nat (length (emitted [out]))"
    by blast
  note ord1 = emitted_single [OF ord]
  show ?case
  proof (cases "ev = AppendClosed")
    case True
    then show ?thesis using it r ord1
      by (auto intro!: exI [of _ "[g]"])
  next
    case False
    have "list_all nonempty rest1" using ne it(2) by (metis list_all_append)
    moreover have "list_all round_ok rounds" using Cons.prems(4) by simp
    ultimately obtain outs rt' p' groups rest where
      ih: "rotator_loop rounds rt1 p1 = Ok (outs, rt', p')" "producer_ok p'"
        "rest1 @ received_all rounds = concat groups @ rest" "list_all2 emission_of groups outs"
        "holds rest (rt_batch rt')" "AppendClosed \<in> set (map (snd \<circ> snd) rounds) \<longrightarrow> rest = []"
        "map pb_ordinal (emitted outs) = map (\<lambda>i. rt_ordinal rt1 + of_nat i) [0..<length (emitted outs)]"
      using Cons.IH [OF it(4) _ it(5)] by blast
    have "msgs @ received_all (r # rounds) = concat (g # groups) @ rest"
    proof -
      have "msgs @ received_all (r # rounds) = g @ rest1 @ received_all rounds"
        using False r it(2) by (metis append_assoc received_all.simps(2))
      then show ?thesis using ih(3) by simp
    qed
    moreover have "map pb_ordinal (emitted (out # outs)) =
        map (\<lambda>i. rt_ordinal rt + of_nat i) [0..<length (emitted (out # outs))]"
      unfolding emitted_Cons [of out outs] length_append ordinals_append map_append
      using ord1 ih(7) ord(2) by simp
    moreover have "rotator_loop (r # rounds) rt p = Ok (out # outs, rt', p')"
      using False r it(1) ih(1) by simp
    ultimately show ?thesis
      using False r it(3) ih(2,4,5,6) by (intro exI [of _ "out # outs"] exI [of _ rt'] exI [of _ p']
          exI [of _ "g # groups"] exI [of _ rest]) simp
  qed
qed

section \<open>Properties\<close>

text \<open>
  C5. The rotator neither loses, duplicates nor reorders messages: over any run, whatever triggers
  its emissions and whatever the outcome of each slot acquisition, the messages it received are the
  concatenation of the messages of its emissions, in order, followed by those still in the open
  accumulator; every emission carries a non-empty group whole, in one batch or dropped with its
  watchers; nothing is left once \<^verbatim>\<open>appendCh\<close> is closed; batch ordinals count up from 0; and no
  step panics.
\<close>

theorem rotator_conserves_messages:
  assumes "producer_ok p" and "list_all round_ok rounds"
  shows "\<exists>outs rt' p' groups rest. rotator_loop rounds rotator_start p = Ok (outs, rt', p') \<and> producer_ok p' \<and>
    received_all rounds = concat groups @ rest \<and> list_all2 emission_of groups outs \<and>
    holds rest (rt_batch rt') \<and> (AppendClosed \<in> set (map (snd \<circ> snd) rounds) \<longrightarrow> rest = []) \<and>
    map pb_ordinal (emitted outs) = map of_nat [0..<length (emitted outs)]"
  using rotator_loop_carries [of "[]" rotator_start p rounds] assms by (simp add: rotator_start_def)

text \<open>An uncontended slot acquisition: granted if there is room, shutdown otherwise.\<close>

definition try_acquire :: "'s Producer \<Rightarrow> gerror option \<times> 's Producer" where
  "try_acquire p = (case acquire_attempt (p_budget p) (p_signals p) of
       (Granted, b, h) \<Rightarrow> (None, p\<lparr>p_budget := b, p_signals := h\<rparr>)
     | (WaitOn c, b, h) \<Rightarrow> (Some ErrShutdown, p\<lparr>p_budget := b, p_signals := h\<rparr>))"

lemma try_acquire_ok: "acquire_ok try_acquire"
  unfolding acquire_ok_def
proof (intro allI impI)
  fix p :: "'s Producer" assume ok: "producer_ok p"
  obtain out b h where att: "acquire_attempt (p_budget p) (p_signals p) = (out, b, h)" by (metis prod_cases3)
  have "budget_ok b h"
    using attempt_ok [of "p_budget p" "p_signals p" AcquireBatchSlot out b h] ok att by (simp add: producer_ok_def)
  then show "producer_ok (snd (try_acquire p))"
    using ok att by (simp add: try_acquire_def producer_ok_def split: attempt_outcome.splits)
qed

definition sample_rounds :: "InMemory rotator_round list" where
  "sample_rounds = map (\<lambda>(now, ev). (try_acquire, now, ev))
     [(1, AppendRecv (snd (two_messages ! 0))), (2, TimerFired), (3, FlushRecv 0 [two_messages ! 1]),
      (4, AppendClosed)]"

lemma sample_rounds_ok: "list_all round_ok sample_rounds"
  by (simp add: sample_rounds_def round_ok_def try_acquire_ok two_messages_def nonempty_def)

theorem rotator_conserves_messages_witness:
  "received_all sample_rounds = map snd two_messages \<and>
   (\<exists>outs rt' p' groups rest.
     rotator_loop sample_rounds rotator_start (NewProducer InMemory_store DefaultProducerConfig ''run'') =
       Ok (outs, rt', p') \<and> producer_ok p' \<and>
     received_all sample_rounds = concat groups @ rest \<and> list_all2 emission_of groups outs \<and>
     holds rest (rt_batch rt') \<and> (AppendClosed \<in> set (map (snd \<circ> snd) sample_rounds) \<longrightarrow> rest = []) \<and>
     map pb_ordinal (emitted outs) = map of_nat [0..<length (emitted outs)])"
proof
  show "received_all sample_rounds = map snd two_messages" by (simp add: sample_rounds_def two_messages_def)
qed (rule rotator_conserves_messages [OF NewProducer_ok sample_rounds_ok])

end
