(* ===== verification/Uploader.thy ===== *)
theory Uploader
  imports Producer
begin

text \<open>
  The encoder and uploader workers of \<^verbatim>\<open>buffer/producer.go\<close>: what one worker does with one
  batch, retries included.  Observer calls that report the length of a channel after a send take the
  length as an argument.
\<close>

section \<open>Encoder\<close>

definition location_of :: "ProducerConfig \<Rightarrow> string \<Rightarrow> u64 \<Rightarrow> string" where
  "location_of cfg runID ordinal = cfg_DataPathPrefix cfg @ ''/'' @ runID @ ''/'' @ hex16 ordinal"

text \<open>
  One iteration of \<^verbatim>\<open>encoder\<close>: a batch for \<^verbatim>\<open>encodedCh\<close> (\<open>Inr\<close>), or a synthetic completion
  for \<^verbatim>\<open>uploadCompletionCh\<close> (\<open>Inl\<close>) when encoding fails.  \<^verbatim>\<open>encodeFn\<close>, the test seam, is nil.
\<close>

definition encoder_body ::
  "zstd_lib \<Rightarrow> int \<Rightarrow> nat \<Rightarrow> pendingBatch \<Rightarrow> 's Producer \<Rightarrow>
     ((uploadCompletion + encodedBatch) \<times> 's Producer) res" where
  "encoder_body z pipelineStartedAt depth pb p =
     (let p = p\<lparr>p_encodeWorkersBusy := p_encodeWorkersBusy p + 1\<rparr>;
          p = observe [OnWorkersBusy StageEncode (p_encodeWorkersBusy p)] p;
          result = EncodeBatch z (pb_entries pb) (cfg_BatchCompression (p_config p));
          p = p\<lparr>p_encodeWorkersBusy := p_encodeWorkersBusy p - 1\<rparr> in
      case result of
        Panic \<Rightarrow> Panic
      | Err err \<Rightarrow>
          (let p = observe [OnEncodeDuration (Some err),
                            OnWorkersBusy StageEncode (p_encodeWorkersBusy p)] p;
               eb = \<lparr>eb_ordinal = pb_ordinal pb, eb_payload = [], eb_metadata = pb_metadata pb,
                     eb_watchers = pb_watchers pb, eb_stats = pb_stats pb, eb_reason = pb_reason pb,
                     eb_flushAck = pb_flushAck pb, eb_location = '''', eb_size = 0,
                     eb_pipelineStartedAt = pipelineStartedAt, eb_byteCost = pb_byteCost pb\<rparr>;
               uc = \<lparr>uc_eb = eb, uc_putError = Some err, uc_encodeFailed = True\<rparr>;
               p = observe [OnQueueDepth StageCommit (int depth)] p
           in Ok (Inl uc, p))
      | Ok payload \<Rightarrow>
          (let p = observe [OnEncodeDuration None,
                            OnWorkersBusy StageEncode (p_encodeWorkersBusy p)] p;
               eb = \<lparr>eb_ordinal = pb_ordinal pb, eb_payload = payload, eb_metadata = pb_metadata pb,
                     eb_watchers = pb_watchers pb, eb_stats = pb_stats pb, eb_reason = pb_reason pb,
                     eb_flushAck = pb_flushAck pb,
                     eb_location = location_of (p_config p) (p_runID p) (pb_ordinal pb),
                     eb_size = int (length payload),
                     eb_pipelineStartedAt = pipelineStartedAt, eb_byteCost = pb_byteCost pb\<rparr>;
               p = observe [OnQueueDepth StageUpload (int depth)] p
           in Ok (Inr eb, p)))"

section \<open>Uploader\<close>

definition maxBackoff :: int where "maxBackoff = 10 * Second"

fun backoff_loop :: "nat \<Rightarrow> int \<Rightarrow> int" where
  "backoff_loop 0 d = d"
| "backoff_loop (Suc n) d = (if d < maxBackoff then backoff_loop n (d * 2) else d)"

definition backoffFor :: "nat \<Rightarrow> int \<Rightarrow> int" where
  "backoffFor attempt initial =
     (let d = backoff_loop attempt initial in if d > maxBackoff then maxBackoff else d)"

text \<open>
  The attempt loop of \<^verbatim>\<open>putWithRetry\<close>, counted by the attempts that remain.  \<open>env i\<close> is what
  others do to the store before attempt \<open>i\<close>; \<open>shut i\<close> says that the \<^verbatim>\<open>select\<close> after attempt
  \<open>i\<close> takes its shutdown case rather than waiting out \<open>backoffFor i\<close>.  With no attempt at all the
  final \<^verbatim>\<open>err.Error()\<close> would dereference nil.
\<close>

fun put_loop ::
  "(nat \<Rightarrow> 's \<Rightarrow> 's) \<Rightarrow> (nat \<Rightarrow> bool) \<Rightarrow> encodedBatch \<Rightarrow> nat \<Rightarrow> nat \<Rightarrow> 's Producer \<Rightarrow> 's \<Rightarrow>
     (gerror option \<times> 's Producer \<times> 's) res" where
  "put_loop env shut eb 0 attempt p s = Panic"
| "put_loop env shut eb (Suc remaining) attempt p s =
     (case os_Put (p_store p) (eb_location eb) (eb_payload eb) (env attempt s) of
        (err, s) \<Rightarrow>
          let p = observe [OnStorePut (eb_size eb) err, OnUploadDuration (eb_size eb) err] p in
          (case err of
             None \<Rightarrow> Ok (None, p, s)
           | Some e \<Rightarrow>
               if remaining = 0 then Ok (Some (storageErr (Error_msg e)), p, s)
               else if shut attempt then Ok (Some ErrShutdown, p, s)
               else put_loop env shut eb remaining (attempt + 1) p s))"

definition putWithRetry ::
  "(nat \<Rightarrow> 's \<Rightarrow> 's) \<Rightarrow> (nat \<Rightarrow> bool) \<Rightarrow> encodedBatch \<Rightarrow> 's Producer \<Rightarrow> 's \<Rightarrow>
     (gerror option \<times> 's Producer \<times> 's) res" where
  "putWithRetry env shut eb p s =
     (let maxAttempts = cfg_UploadMaxAttempts (p_config p);
          maxAttempts = (if maxAttempts < 1 then 1 else maxAttempts) in
      put_loop env shut eb (nat maxAttempts) 0 p s)"

text \<open>One iteration of \<^verbatim>\<open>uploaderWorker\<close>; \<open>depth\<close> is the channel length after the send.\<close>

definition uploader_body ::
  "(nat \<Rightarrow> 's \<Rightarrow> 's) \<Rightarrow> (nat \<Rightarrow> bool) \<Rightarrow> nat \<Rightarrow> encodedBatch \<Rightarrow> 's Producer \<Rightarrow> 's \<Rightarrow>
     (uploadCompletion \<times> 's Producer \<times> 's) res" where
  "uploader_body env shut depth eb p s =
     (let p = p\<lparr>p_uploadWorkersBusy := p_uploadWorkersBusy p + 1\<rparr>;
          p = observe [OnWorkersBusy StageUpload (p_uploadWorkersBusy p)] p in
      obind (putWithRetry env shut eb p s) (\<lambda>(err, p, s).
      let p = p\<lparr>p_uploadWorkersBusy := p_uploadWorkersBusy p - 1\<rparr>;
          p = observe [OnWorkersBusy StageUpload (p_uploadWorkersBusy p)] p;
          eb = eb\<lparr>eb_payload := []\<rparr>;
          uc = \<lparr>uc_eb = eb, uc_putError = err, uc_encodeFailed = False\<rparr>;
          p = observe [OnQueueDepth StageCommit (int depth)] p
      in Ok (uc, p, s)))"

section \<open>Lemmas\<close>

lemma location_of_inject:
  assumes "location_of cfg r v = location_of cfg r' w" and "length r = length r'"
  shows "r = r' \<and> v = w"
  using assms by (auto simp: location_of_def dest: hex16_inject)

lemma backoff_loop_min: "0 < d \<Longrightarrow> min (backoff_loop n d) maxBackoff = min (d * 2 ^ n) maxBackoff"
proof (induction n arbitrary: d)
  case (Suc n)
  show ?case
  proof (cases "d < maxBackoff")
    case True
    then show ?thesis using Suc.IH [of "d * 2"] Suc.prems by (simp add: ac_simps)
  next
    case False
    have "d * 1 \<le> d * 2 ^ Suc n" using Suc.prems by (intro mult_left_mono one_le_power) simp_all
    with False have "maxBackoff \<le> d * 2 ^ Suc n" by linarith
    with False show ?thesis by (simp add: min_absorb2)
  qed
qed simp

text \<open>The attempts made, read off the observer-independent course of the loop.\<close>

lemma put_loop_outcome:
  assumes "cas_store (p_store p) objs" and "put_loop env shut eb n attempt p s = Ok (r, p', s')"
  shows "(r = None \<longrightarrow> (\<exists>v. objs s' (eb_location eb) = Some (eb_payload eb, v))) \<and>
    (\<forall>e. r = Some e \<longrightarrow> e = ErrShutdown \<or> errors_Is e ErrStorage) \<and>
    (\<exists>evs. p' = observe evs p \<and> length evs \<le> 2 * n)"
  using assms
proof (induction n arbitrary: attempt p s)
  case (Suc n)
  obtain err s1 where put: "os_Put (p_store p) (eb_location eb) (eb_payload eb) (env attempt s) = (err, s1)"
    by fastforce
  let ?evs = "[OnStorePut (eb_size eb) err, OnUploadDuration (eb_size eb) err]"
  have stored: "err = None \<Longrightarrow> \<exists>v. objs s1 (eb_location eb) = Some (eb_payload eb, v)"
    using cas_store.put_ok [OF Suc.prems(1)] put by (fastforce simp: written_def)
  show ?case
  proof (cases "err = None \<or> n = 0 \<or> shut attempt")
    case True
    then have "p' = observe ?evs p" and "r = None \<Longrightarrow> err = None \<and> s' = s1"
      and "\<And>e. r = Some e \<Longrightarrow> e = ErrShutdown \<or> errors_Is e ErrStorage"
      using Suc.prems(2) put by (auto simp: Let_def split: option.splits if_splits)
    then show ?thesis using stored by (auto intro!: exI [of _ ?evs])
  next
    case False
    then have "put_loop env shut eb n (attempt + 1) (observe ?evs p) s1 = Ok (r, p', s')"
      using Suc.prems(2) put by auto
    from Suc.IH [OF _ this] Suc.prems(1) obtain evs where ih:
      "(r = None \<longrightarrow> (\<exists>v. objs s' (eb_location eb) = Some (eb_payload eb, v))) \<and>
       (\<forall>e. r = Some e \<longrightarrow> e = ErrShutdown \<or> errors_Is e ErrStorage)"
      "p' = observe evs (observe ?evs p)" "length evs \<le> 2 * n" by auto
    then have "p' = observe (?evs @ evs) p" by (simp add: observe_def)
    with ih show ?thesis by (auto intro!: exI [of _ "?evs @ evs"])
  qed
qed simp

lemma put_loop_returns: "0 < n \<Longrightarrow> \<exists>r p' s'. put_loop env shut eb n attempt p s = Ok (r, p', s')"
proof (induction n arbitrary: attempt p s)
  case (Suc n)
  then show ?case by (cases "n = 0") (auto simp: Let_def split: prod.splits option.splits)
qed simp

text \<open>What an encoded batch keeps of the pending batch it came from.\<close>

definition same_batch :: "pendingBatch \<Rightarrow> encodedBatch \<Rightarrow> bool" where
  "same_batch pb eb \<longleftrightarrow> eb_ordinal eb = pb_ordinal pb \<and> eb_metadata eb = pb_metadata pb \<and>
     eb_watchers eb = pb_watchers pb \<and> eb_stats eb = pb_stats pb \<and> eb_reason eb = pb_reason pb \<and>
     eb_flushAck eb = pb_flushAck pb \<and> eb_byteCost eb = pb_byteCost pb"

lemma encoder_body_cases:
  "\<exists>x p'. encoder_body z t depth pb p = Ok (x, p') \<and> p_encodeWorkersBusy p' = p_encodeWorkersBusy p \<and>
    p_config p' = p_config p \<and> p_budget p' = p_budget p \<and> p_watchers p' = p_watchers p \<and>
    (case x of
       Inl uc \<Rightarrow> same_batch pb (uc_eb uc) \<and> uc_encodeFailed uc \<and>
         EncodeBatch z (pb_entries pb) (cfg_BatchCompression (p_config p)) = Err (the (uc_putError uc)) \<and>
         uc_putError uc \<noteq> None
     | Inr eb \<Rightarrow> same_batch pb eb \<and> eb_location eb = location_of (p_config p) (p_runID p) (pb_ordinal pb) \<and>
         EncodeBatch z (pb_entries pb) (cfg_BatchCompression (p_config p)) = Ok (eb_payload eb))"
  by (cases "EncodeBatch z (pb_entries pb) (cfg_BatchCompression (p_config p))")
    (simp_all add: encoder_body_def same_batch_def Let_def)

section \<open>Properties\<close>

text \<open>
  C34. An encoded batch is the batch: the encoder always produces either an encoded batch at the
  location of its ordinal whose payload decodes to exactly the pending entries, or a failed
  completion with the encoding error; both keep the ordinal, metadata, watchers, flush channel and
  byte reservation, and the busy-worker gauge returns to its value.
\<close>

theorem encoder_preserves_batch:
  assumes "zstd_roundtrip z" and "length (pb_entries pb) \<le> MaxUint32"
  shows "\<exists>x p'. encoder_body z t depth pb p = Ok (x, p') \<and> p_encodeWorkersBusy p' = p_encodeWorkersBusy p \<and>
    (case x of
       Inl uc \<Rightarrow> same_batch pb (uc_eb uc) \<and> uc_encodeFailed uc \<and> uc_putError uc \<noteq> None
     | Inr eb \<Rightarrow> same_batch pb eb \<and> eb_location eb = location_of (p_config p) (p_runID p) (pb_ordinal pb) \<and>
         DecodeBatch z (eb_payload eb) = Ok (pb_entries pb))"
  using encoder_body_cases [of z t depth pb p] DecodeBatch_encoded [OF assms(1) _ assms(2)]
  by (fastforce split: sum.splits)

definition small_pending :: pendingBatch where
  "small_pending = \<lparr>pb_ordinal = 3, pb_entries = [[1], [2, 3]], pb_metadata = [], pb_watchers = [0],
     pb_stats = \<lparr>fs_Inputs = 1, fs_Entries = 2, fs_UncompressedBytes = 3, fs_Age = 0\<rparr>,
     pb_reason = FlushReasonTime, pb_flushAck = None, pb_byteCost = 18\<rparr>"

theorem encoder_preserves_batch_witness:
  "let p = NewProducer InMemory_store DefaultProducerConfig ''r'' in
   \<exists>x p'. encoder_body stored_zstd 0 0 small_pending p = Ok (x, p') \<and>
    p_encodeWorkersBusy p' = p_encodeWorkersBusy p \<and>
    (case x of
       Inl uc \<Rightarrow> same_batch small_pending (uc_eb uc) \<and> uc_encodeFailed uc \<and> uc_putError uc \<noteq> None
     | Inr eb \<Rightarrow> same_batch small_pending eb \<and>
         eb_location eb = location_of (p_config p) (p_runID p) (pb_ordinal small_pending) \<and>
         DecodeBatch stored_zstd (eb_payload eb) = Ok (pb_entries small_pending))"
  unfolding Let_def
  by (rule encoder_preserves_batch [OF stored_zstd_roundtrip]) (simp add: small_pending_def MaxUint32_def)

text \<open>
  C35. Uploads are durable and bounded: \<^verbatim>\<open>putWithRetry\<close> always returns; a nil error means that
  the object at the batch's location holds its payload; any other result is a storage error or
  shutdown; and at most \<^verbatim>\<open>UploadMaxAttempts\<close> puts were reported to the observer.
\<close>

theorem putWithRetry_outcome:
  assumes "cas_store (p_store p) objs" and "config_ok (p_config p)"
  shows "\<exists>r p' s'. putWithRetry env shut eb p s = Ok (r, p', s') \<and>
    (r = None \<longrightarrow> (\<exists>v. objs s' (eb_location eb) = Some (eb_payload eb, v))) \<and>
    (\<forall>e. r = Some e \<longrightarrow> e = ErrShutdown \<or> errors_Is e ErrStorage) \<and>
    int (length (p_log p')) \<le> int (length (p_log p)) + 2 * cfg_UploadMaxAttempts (p_config p)"
proof -
  let ?n = "nat (cfg_UploadMaxAttempts (p_config p))"
  have n: "0 < ?n" and eq: "putWithRetry env shut eb p s = put_loop env shut eb ?n 0 p s"
    using assms(2) by (auto simp: putWithRetry_def config_ok_def Let_def)
  obtain r p' s' where ret: "put_loop env shut eb ?n 0 p s = Ok (r, p', s')"
    using put_loop_returns [OF n, of env shut eb 0 p s] by blast
  from put_loop_outcome [OF assms(1) ret] obtain evs where "p' = observe evs p" "length evs \<le> 2 * ?n"
    and out: "r = None \<longrightarrow> (\<exists>v. objs s' (eb_location eb) = Some (eb_payload eb, v))"
      "\<forall>e. r = Some e \<longrightarrow> e = ErrShutdown \<or> errors_Is e ErrStorage" by auto
  then have "int (length (p_log p')) \<le> int (length (p_log p)) + 2 * cfg_UploadMaxAttempts (p_config p)"
    using n by (auto simp: observe_def)
  with out ret eq show ?thesis by auto
qed

theorem putWithRetry_outcome_witness:
  "\<exists>r p' s'. putWithRetry (\<lambda>_ s. s) (\<lambda>_. False)
      \<lparr>eb_ordinal = 0, eb_payload = [1, 2], eb_metadata = [], eb_watchers = [],
       eb_stats = \<lparr>fs_Inputs = 0, fs_Entries = 0, fs_UncompressedBytes = 0, fs_Age = 0\<rparr>,
       eb_reason = FlushReasonTime, eb_flushAck = None, eb_location = ''d/r/0'', eb_size = 2,
       eb_pipelineStartedAt = 0, eb_byteCost = 2\<rparr>
      (NewProducer InMemory_store DefaultProducerConfig ''r'') NewInMemory = Ok (r, p', s') \<and>
    (r = None \<longrightarrow> (\<exists>v. InMemory_objects s' ''d/r/0'' = Some ([1, 2], v)))"
  using putWithRetry_outcome [of "NewProducer InMemory_store DefaultProducerConfig ''r''" InMemory_objects
      "\<lambda>_ s. s" "\<lambda>_. False" "\<lparr>eb_ordinal = 0, eb_payload = [1, 2], eb_metadata = [], eb_watchers = [],
       eb_stats = \<lparr>fs_Inputs = 0, fs_Entries = 0, fs_UncompressedBytes = 0, fs_Age = 0\<rparr>,
       eb_reason = FlushReasonTime, eb_flushAck = None, eb_location = ''d/r/0'', eb_size = 2,
       eb_pipelineStartedAt = 0, eb_byteCost = 2\<rparr>" NewInMemory]
    mem.cas_store_axioms NewProducer_ok [of InMemory_store DefaultProducerConfig "''r''"]
  by (auto simp: producer_ok_def)

text \<open>
  C36. Backoff is exponential and capped: the delay before retry \<open>n\<close> is \<open>initial * 2^n\<close>, and never
  more than ten seconds.
\<close>

theorem backoffFor_exponential:
  assumes "0 < initial"
  shows "backoffFor n initial = min (initial * 2 ^ n) maxBackoff"
  using backoff_loop_min [OF assms, of n] by (auto simp: backoffFor_def min_def Let_def split: if_splits)

theorem backoffFor_exponential_witness:
  "backoffFor 3 (100 * Millisecond) = 800 * Millisecond \<and> backoffFor 9 (100 * Millisecond) = 10 * Second"
  using backoffFor_exponential [of "100 * Millisecond" 3] backoffFor_exponential [of "100 * Millisecond" 9]
  by (simp add: maxBackoff_def Second_def Millisecond_def)

text \<open>
  Data objects never collide: two batches of runs with identifiers of equal length (ULIDs have
  26 characters) get the same location only if they are the same ordinal of the same run.
\<close>

lemma location_unique:
  assumes "location_of cfg r v = location_of cfg r' w" and "length r = length r'"
  shows "r = r' \<and> v = w"
  by (rule location_of_inject [OF assms])

theorem location_unique_witness:
  "location_of DefaultProducerConfig ''A'' 255 = ''ingest/A/00000000000000ff'' \<and>
   location_of DefaultProducerConfig ''A'' 255 \<noteq> location_of DefaultProducerConfig ''B'' 255"
proof
  show "location_of DefaultProducerConfig ''A'' 255 = ''ingest/A/00000000000000ff''" by code_simp
  show "location_of DefaultProducerConfig ''A'' 255 \<noteq> location_of DefaultProducerConfig ''B'' 255"
    using location_unique [of DefaultProducerConfig "''A''" 255 "''B''" 255] by auto
qed

end
