(* ===== verification/Committer.thy ===== *)
theory Committer
  imports Uploader "HOL-Library.Multiset" "HOL-Library.Sublist"
begin

text \<open>
  The manifest committer of \<^verbatim>\<open>buffer/producer.go\<close>: a single goroutine that reorders upload
  completions into ordinal order, commits contiguous runs of them to the manifest in groups and
  hands every batch's outcome to the resolver.  The closures \<^verbatim>\<open>drain\<close>, \<^verbatim>\<open>gather\<close>,
  \<^verbatim>\<open>casWithRetry\<close>, \<^verbatim>\<open>enterHalted\<close> and \<^verbatim>\<open>resolve\<close> are functions over the committer's
  local variables, the shared state and the store.

  Go leaves the iteration order of a map open: \<open>order\<close>, a function listing a set of keys, is an
  argument of what ranges over \<^verbatim>\<open>ready\<close>.  \<^verbatim>\<open>drain\<close> takes the commit call \<open>cas\<close> as an
  argument, a transformer of the shared state and the store that includes whatever happens
  concurrently; the code's own is \<open>casWithRetry\<close>.
\<close>

section \<open>Retrying the manifest write\<close>

fun cas_loop ::
  "(nat \<Rightarrow> nat \<Rightarrow> 's \<Rightarrow> 's) \<Rightarrow> (nat \<Rightarrow> bool) \<Rightarrow> enqueueItem list \<Rightarrow> nat \<Rightarrow> nat \<Rightarrow> nat \<Rightarrow> gerror option \<Rightarrow>
     's Producer \<Rightarrow> 's \<Rightarrow> (enqueue_result \<times> 's Producer \<times> 's) option" where
  "cas_loop env shut items 0 attempt totalConflicts err p s = Some (Returned (totalConflicts, err), p, s)"
| "cas_loop env shut items (Suc remaining) attempt totalConflicts err p s =
     (case enqueueBatch (env attempt) items (p_enqueuer p) s of
        None \<Rightarrow> None
      | Some (Panicked, me, s) \<Rightarrow> Some (Panicked, p\<lparr>p_enqueuer := me\<rparr>, s)
      | Some (Returned (c, err), me, s) \<Rightarrow>
          let p = p\<lparr>p_enqueuer := me\<rparr>; totalConflicts = totalConflicts + c in
          (case err of
             None \<Rightarrow> Some (Returned (totalConflicts, None), p, s)
           | Some e \<Rightarrow>
               if remaining \<noteq> 0 \<and> shut attempt
               then Some (Returned (totalConflicts, Some ErrShutdown), p, s)
               else cas_loop env shut items remaining (attempt + 1) totalConflicts err p s))"

definition casWithRetry ::
  "(nat \<Rightarrow> nat \<Rightarrow> 's \<Rightarrow> 's) \<Rightarrow> (nat \<Rightarrow> bool) \<Rightarrow> enqueueItem list \<Rightarrow> 's Producer \<Rightarrow> 's \<Rightarrow>
     (enqueue_result \<times> 's Producer \<times> 's) option" where
  "casWithRetry env shut items p s =
     (let manifestMaxAttempts = cfg_ManifestMaxAttempts (p_config p);
          manifestMaxAttempts = (if manifestMaxAttempts < 1 then 1 else manifestMaxAttempts) in
      cas_loop env shut items (nat manifestMaxAttempts) 0 0 None p s)"

section \<open>Draining\<close>

record committer =
  cm_next :: u64
  cm_ready :: "u64 \<Rightarrow> uploadCompletion option"
  cm_halted :: bool
  cm_holStarted :: bool

definition committer_start :: committer where
  "committer_start = \<lparr>cm_next = 0, cm_ready = Map.empty, cm_halted = False, cm_holStarted = False\<rparr>"

record pendingResolution =
  pr_uc :: uploadCompletion
  pr_err :: "gerror option"
  pr_outcome :: BatchOutcome

definition resolve_item :: "pendingResolution \<Rightarrow> resolverItem" where
  "resolve_item pr =
     (let eb = uc_eb (pr_uc pr) in
      \<lparr>ri_reason = eb_reason eb, ri_stats = eb_stats eb, ri_pipelineStartedAt = eb_pipelineStartedAt eb,
       ri_watchers = eb_watchers eb, ri_flushAck = eb_flushAck eb, ri_err = pr_err pr,
       ri_outcome = pr_outcome pr, ri_byteCost = eb_byteCost eb\<rparr>)"

abbreviation resolution ::
  "uploadCompletion \<Rightarrow> gerror option \<Rightarrow> BatchOutcome \<Rightarrow> pendingResolution" where
  "resolution uc err outcome \<equiv> \<lparr>pr_uc = uc, pr_err = err, pr_outcome = outcome\<rparr>"

definition enterHalted :: "committer \<times> 's Producer \<Rightarrow> committer \<times> 's Producer" where
  "enterHalted = (\<lambda>(cm, p).
     let cm = cm\<lparr>cm_halted := True\<rparr>;
         p = p\<lparr>p_halted := True\<rparr>;
         p = (if p_haltedNotify p then p
              else observe [OnHalted True] (p\<lparr>p_haltedNotify := True\<rparr>))
     in (cm, p))"

definition batch_size :: "'s Producer \<Rightarrow> nat" where
  "batch_size p =
     (let batchSize = cfg_ManifestAppendBatchSize (p_config p) in
      nat (if batchSize < 1 then 1 else batchSize))"

text \<open>The inner loop of \<^verbatim>\<open>drain\<close>, counted by the slots left in the group.\<close>

fun collect ::
  "nat \<Rightarrow> u64 \<Rightarrow> (u64 \<Rightarrow> uploadCompletion option) \<Rightarrow> uploadCompletion list \<Rightarrow> pendingResolution list \<Rightarrow>
     u64 \<times> (u64 \<Rightarrow> uploadCompletion option) \<times> uploadCompletion list \<times> pendingResolution list" where
  "collect 0 next ready grp failed = (next, ready, grp, failed)"
| "collect (Suc n) next ready grp failed =
     (case ready next of
        None \<Rightarrow> (next, ready, grp, failed)
      | Some uc \<Rightarrow>
          let ready = ready(next := None); next = next + 1 in
          (case uc_putError uc of
             Some err \<Rightarrow>
               (let outcome = (if uc_encodeFailed uc then OutcomeEncodeFailed else OutcomeUploadFailed) in
                collect n next ready grp (failed @ [resolution uc (Some err) outcome]))
           | None \<Rightarrow> collect n next ready (grp @ [uc]) failed))"

definition group_items :: "uploadCompletion list \<Rightarrow> enqueueItem list" where
  "group_items grp =
     map (\<lambda>uc. \<lparr>ei_Location = eb_location (uc_eb uc), ei_Metadata = eb_metadata (uc_eb uc)\<rparr>) grp"

definition metadata_total :: "enqueueItem list \<Rightarrow> int" where
  "metadata_total items = foldl (\<lambda>n it. n + int (length (ei_Metadata it))) 0 items"

type_synonym 's cas_call =
  "enqueueItem list \<Rightarrow> 's Producer \<Rightarrow> 's \<Rightarrow> (enqueue_result \<times> 's Producer \<times> 's) option"

text \<open>The commit of one group with its observer calls; an empty group commits nothing.\<close>

definition commit_group ::
  "'s cas_call \<Rightarrow> uploadCompletion list \<Rightarrow> 's Producer \<Rightarrow> 's \<Rightarrow>
     (gerror option run \<times> 's Producer \<times> 's) option" where
  "commit_group cas grp p s =
     (if grp = [] then Some (Returned None, p, s)
      else let items = group_items grp in
        (case cas items p s of
           None \<Rightarrow> None
         | Some (Panicked, p, s) \<Rightarrow> Some (Panicked, p, s)
         | Some (Returned (conflicts, casErr), p, s) \<Rightarrow>
             let p = observe [OnManifestEnqueue (metadata_total items) (int conflicts) casErr,
                              OnManifestAppendBatchSize (int (length items)),
                              OnManifestAppendDuration (int conflicts) casErr] p
             in Some (Returned casErr, p, s)))"

text \<open>Every exit and every round of \<^verbatim>\<open>drain\<close> sends resolutions; they are its result, in order.\<close>

type_synonym 's committed = "(pendingResolution list run \<times> committer \<times> 's Producer \<times> 's) option"

definition prefix_resolutions :: "pendingResolution list \<Rightarrow> 's committed \<Rightarrow> 's committed" where
  "prefix_resolutions prs c =
     (case c of
        None \<Rightarrow> None
      | Some (Panicked, cm, p, s) \<Rightarrow> Some (Panicked, cm, p, s)
      | Some (Returned prs', cm, p, s) \<Rightarrow> Some (Returned (prs @ prs'), cm, p, s))"

lemma collect_shrinks:
  "collect n next ready grp failed = (next', ready', grp', failed') \<Longrightarrow>
     dom ready' \<subseteq> dom ready \<and>
     (length grp' + length failed' = length grp + length failed \<or> dom ready' \<subset> dom ready)"
proof (induction n arbitrary: "next" ready grp failed)
  case (Suc n)
  show ?case
  proof (cases "ready next")
    case (Some uc)
    have sub: "dom (ready(next := None)) \<subset> dom ready" using Some by auto
    obtain g f where "collect n (next + 1) (ready(next := None)) g f = (next', ready', grp', failed')"
      using Suc.prems Some by (auto simp: Let_def split: option.splits)
    from Suc.IH [OF this] sub show ?thesis by blast
  qed (use Suc.prems in auto)
qed simp

lemma collect_card:
  assumes "collect n next ready [] [] = (next', ready', grp, failed)" and "\<not> (grp = [] \<and> failed = [])"
  shows "card (dom ready') < card (dom ready)"
  using collect_shrinks [OF assms(1)] assms(2) by (auto intro!: psubset_card_mono)

text \<open>
  One round of the loop in \<^verbatim>\<open>drain\<close>: the resolutions it sends and whether the loop goes on.
\<close>

definition drain_round ::
  "'s cas_call \<Rightarrow> (u64 set \<Rightarrow> u64 list) \<Rightarrow> nat \<Rightarrow> committer \<Rightarrow> 's Producer \<Rightarrow> 's \<Rightarrow>
     ((pendingResolution list \<times> bool) run \<times> committer \<times> 's Producer \<times> 's) option" where
  "drain_round cas order batchSize cm p s =
     (case collect batchSize (cm_next cm) (cm_ready cm) [] [] of
        (next, ready, grp, failed) \<Rightarrow>
          let cm = cm\<lparr>cm_next := next, cm_ready := ready\<rparr> in
          if grp = [] \<and> failed = [] then Some (Returned ([], False), cm, p, s)
          else (case commit_group cas grp p s of
             None \<Rightarrow> None
           | Some (Panicked, p, s) \<Rightarrow> Some (Panicked, cm, p, s)
           | Some (Returned casErr, p, s) \<Rightarrow>
               if casErr \<noteq> None \<and> \<not> errors_Is (the casErr) ErrShutdown
               then let (cm, p) = enterHalted (cm, p);
                        prs = map (\<lambda>uc. resolution uc (Some ErrProducerHalted) OutcomeManifestFailed) grp @
                          failed @
                          map (\<lambda>k. resolution (the (cm_ready cm k)) (Some ErrProducerHalted) OutcomeAbandoned)
                            (order (dom (cm_ready cm)))
                    in Some (Returned (prs, False), cm\<lparr>cm_ready := Map.empty\<rparr>, p, s)
               else let groupOutcome = (if casErr \<noteq> None then OutcomeManifestFailed else OutcomeCommitted);
                        prs = map (\<lambda>uc. resolution uc casErr groupOutcome) grp @ failed
                    in Some (Returned (prs, True), cm, p, s)))"

lemma drain_round_shrinks:
  assumes "drain_round cas order batchSize cm p s = Some (Returned (prs, True), cm', p', s')"
  shows "card (dom (cm_ready cm')) < card (dom (cm_ready cm))"
proof -
  obtain next' ready' grp failed where
    col: "collect batchSize (cm_next cm) (cm_ready cm) [] [] = (next', ready', grp, failed)"
    by (metis prod_cases4)
  then have "cm_ready cm' = ready'" "\<not> (grp = [] \<and> failed = [])"
    using assms by (auto simp: drain_round_def Let_def split: option.splits run.splits if_splits prod.splits)
  then show ?thesis using collect_card [OF col] by simp
qed

function drain ::
  "'s cas_call \<Rightarrow> (u64 set \<Rightarrow> u64 list) \<Rightarrow> nat \<Rightarrow> committer \<Rightarrow> 's Producer \<Rightarrow> 's \<Rightarrow>
     's committed" where
  "drain cas order batchSize cm p s =
     (case drain_round cas order batchSize cm p s of
        None \<Rightarrow> None
      | Some (Panicked, cm, p, s) \<Rightarrow> Some (Panicked, cm, p, s)
      | Some (Returned (prs, goes_on), cm, p, s) \<Rightarrow>
          if goes_on then prefix_resolutions prs (drain cas order batchSize cm p s)
          else Some (Returned prs, cm, p, s))"
  by pat_completeness auto
termination
proof (relation "measure (\<lambda>(cas, order, n, cm, p, s). card (dom (cm_ready cm)))", goal_cases)
  case 1
  then show ?case by simp
next
  case (2 cas order batchSize cm p s)
  then show ?case by (auto intro!: drain_round_shrinks)
qed

declare drain.simps [simp del]

section \<open>The receive loop\<close>

definition put_ready :: "uploadCompletion \<Rightarrow> committer \<Rightarrow> committer" where
  "put_ready uc cm = cm\<lparr>cm_ready := (cm_ready cm)(eb_ordinal (uc_eb uc) \<mapsto> uc)\<rparr>"

text \<open>One iteration outside halted mode, with the completions its \<^verbatim>\<open>gather\<close> finds.\<close>

definition committer_iter ::
  "'s cas_call \<Rightarrow> (u64 set \<Rightarrow> u64 list) \<Rightarrow> nat \<Rightarrow> uploadCompletion \<Rightarrow> uploadCompletion list \<Rightarrow> committer \<Rightarrow>
     's Producer \<Rightarrow> 's \<Rightarrow> 's committed" where
  "committer_iter cas order batchSize uc further cm p s =
     (let cm = fold put_ready further (put_ready uc cm);
          hasNext = (cm_ready cm (cm_next cm) \<noteq> None);
          cm = (if \<not> hasNext \<and> \<not> cm_holStarted cm then cm\<lparr>cm_holStarted := True\<rparr> else cm);
          willAdvance = hasNext in
      (case drain cas order batchSize cm p s of
         None \<Rightarrow> None
       | Some (Panicked, cm, p, s) \<Rightarrow> Some (Panicked, cm, p, s)
       | Some (Returned prs, cm, p, s) \<Rightarrow>
           let (cm, p) = (if willAdvance \<and> cm_holStarted cm
                 then (cm\<lparr>cm_holStarted := False\<rparr>, observe [OnHeadOfLineBlock] p) else (cm, p)) in
           Some (Returned prs, cm, p, s)))"

text \<open>
  The loop over what arrives on \<^verbatim>\<open>uploadCompletionCh\<close> until it is closed.  \<open>ks\<close> tells how
  many further receives each \<^verbatim>\<open>gather\<close> finds ready; one more than there are values left is the
  receive that observes the close.
\<close>

function committer_loop ::
  "'s cas_call \<Rightarrow> (u64 set \<Rightarrow> u64 list) \<Rightarrow> nat \<Rightarrow> nat list \<Rightarrow> uploadCompletion list \<Rightarrow> committer \<Rightarrow>
     's Producer \<Rightarrow> 's \<Rightarrow> 's committed" where
  "committer_loop cas order batchSize ks [] cm p s =
     (if \<not> cm_halted cm then drain cas order batchSize cm p s else Some (Returned [], cm, p, s))"
| "committer_loop cas order batchSize ks (uc # ch) cm p s =
     (if cm_halted cm
      then prefix_resolutions [resolution uc (Some ErrProducerHalted) OutcomeAbandoned]
             (committer_loop cas order batchSize ks ch cm p s)
      else let k = (case ks of [] \<Rightarrow> 0 | k # _ \<Rightarrow> k); closed = k > length ch in
        (case committer_iter cas order batchSize uc (take k ch) cm p s of
           None \<Rightarrow> None
         | Some (Panicked, cm, p, s) \<Rightarrow> Some (Panicked, cm, p, s)
         | Some (Returned prs, cm, p, s) \<Rightarrow>
             if closed then Some (Returned prs, cm, p, s)
             else prefix_resolutions prs
                    (committer_loop cas order batchSize (tl ks) (drop k ch) cm p s)))"
  by pat_completeness auto
termination
  by (relation "measure (\<lambda>(cas, order, n, ks, ch, cm, p, s). length ch)") auto

definition manifestCommitter ::
  "'s cas_call \<Rightarrow> (u64 set \<Rightarrow> u64 list) \<Rightarrow> nat list \<Rightarrow> uploadCompletion list \<Rightarrow> 's Producer \<Rightarrow> 's \<Rightarrow>
     's committed" where
  "manifestCommitter cas order ks ch p s =
     committer_loop cas order (batch_size p) ks ch committer_start p s"

section \<open>Every completion is resolved once\<close>

text \<open>The completions held in a map; and the contract of a map iteration order.\<close>

definition pool :: "(u64 \<Rightarrow> uploadCompletion option) \<Rightarrow> uploadCompletion multiset" where
  "pool m = image_mset (\<lambda>k. the (m k)) (mset_set (dom m))"

definition order_ok :: "(u64 set \<Rightarrow> u64 list) \<Rightarrow> bool" where
  "order_ok order \<longleftrightarrow> (\<forall>A. distinct (order A) \<and> set (order A) = A)"

lemma pool_empty [simp]: "pool Map.empty = {#}"
  by (simp add: pool_def)

lemma pool_remove: "m k = Some v \<Longrightarrow> pool m = add_mset v (pool (m(k := None)))"
proof -
  assume k: "m k = Some v"
  then have "dom m = insert k (dom (m(k := None)))" by auto
  then have "mset_set (dom m) = add_mset k (mset_set (dom (m(k := None))))"
    by (metis domIff finite fun_upd_same mset_set.insert)
  moreover have "image_mset (\<lambda>j. the (m j)) (mset_set (dom (m(k := None)))) = pool (m(k := None))"
    unfolding pool_def by (rule image_mset_cong) auto
  ultimately show ?thesis using k by (simp add: pool_def)
qed

lemma pool_insert: "m k = None \<Longrightarrow> pool (m(k \<mapsto> v)) = add_mset v (pool m)"
  using pool_remove [of "m(k \<mapsto> v)" k v] by (simp add: fun_upd_idem)

lemma pool_order: "order_ok order \<Longrightarrow> mset (map (\<lambda>k. the (m k)) (order (dom m))) = pool m"
  by (simp add: pool_def order_ok_def mset_map mset_set_set flip: mset_map) 
    (metis mset_map mset_set_set order_ok_def)

lemma collect_pool:
  "collect n next ready grp failed = (next', ready', grp', failed') \<Longrightarrow>
     mset grp' + mset (map pr_uc failed') + pool ready' = mset grp + mset (map pr_uc failed) + pool ready"
proof (induction n arbitrary: "next" ready grp failed)
  case (Suc n)
  show ?case
  proof (cases "ready next")
    case (Some uc)
    note pool_remove [of ready "next" uc, OF Some]
    then show ?thesis
      using Suc.prems Suc.IH Some by (fastforce simp: Let_def split: option.splits)
  qed (use Suc.prems in auto)
qed simp

lemma commit_group_Nil [simp]: "commit_group cas [] p s = Some (Returned None, p, s)"
  by (simp add: commit_group_def)

lemma prefix_resolutions_Returned:
  "prefix_resolutions prs c = Some (Returned qs, rest) \<longleftrightarrow>
     (\<exists>qs'. c = Some (Returned qs', rest) \<and> qs = prs @ qs')"
  by (auto simp: prefix_resolutions_def split: option.splits run.splits)

lemma image_mset_resolution [simp]:
  "image_mset pr_uc (image_mset (\<lambda>x. resolution (f x) e oc) M) = image_mset f M"
  by (simp add: multiset.map_comp comp_def)

lemma prefix_resolutions_Panicked:
  "prefix_resolutions prs c = Some (Panicked, rest) \<longleftrightarrow> c = Some (Panicked, rest)"
  by (auto simp: prefix_resolutions_def split: option.splits run.splits)

lemma prefix_resolutions_None: "prefix_resolutions prs c = None \<longleftrightarrow> c = None"
  by (auto simp: prefix_resolutions_def split: option.splits run.splits)

lemma commit_group_shape:
  "commit_group cas grp p s = None \<or> (\<exists>p1 s1. commit_group cas grp p s = Some (Panicked, p1, s1)) \<or>
   (\<exists>e p1 s1. commit_group cas grp p s = Some (Returned e, p1, s1))"
  by (cases "commit_group cas grp p s") (auto, metis run.exhaust)

text \<open>
  What one round of \<^verbatim>\<open>drain\<close> does, by cases: nothing is ready; the commit call does not return
  or panics; it fails for good and the producer halts; or the group is resolved and draining goes on.
\<close>

lemma drain_cases:
  assumes "collect batchSize (cm_next cm) (cm_ready cm) [] [] = (next', ready', grp, failed)"
  defines "cm1 \<equiv> cm\<lparr>cm_next := next', cm_ready := ready'\<rparr>"
  obtains (nothing) "grp = []" "failed = []" "drain cas order batchSize cm p s = Some (Returned [], cm1, p, s)"
  | (diverges) "commit_group cas grp p s = None" "drain cas order batchSize cm p s = None"
  | (panics) p1 s1 where "commit_group cas grp p s = Some (Panicked, p1, s1)"
      "drain cas order batchSize cm p s = Some (Panicked, cm1, p1, s1)"
  | (halts) e p1 s1 where "commit_group cas grp p s = Some (Returned (Some e), p1, s1)"
      "\<not> errors_Is e ErrShutdown" "grp \<noteq> []"
      "drain cas order batchSize cm p s = Some (Returned
         (map (\<lambda>uc. resolution uc (Some ErrProducerHalted) OutcomeManifestFailed) grp @ failed @
          map (\<lambda>k. resolution (the (ready' k)) (Some ErrProducerHalted) OutcomeAbandoned) (order (dom ready'))),
         cm1\<lparr>cm_halted := True, cm_ready := Map.empty\<rparr>, snd (enterHalted (cm1, p1)), s1)"
  | (goes_on) casErr p1 s1 where "commit_group cas grp p s = Some (Returned casErr, p1, s1)"
      "casErr = None \<or> errors_Is (the casErr) ErrShutdown" "grp \<noteq> [] \<or> failed \<noteq> []"
      "drain cas order batchSize cm p s = prefix_resolutions
         (map (\<lambda>uc. resolution uc casErr (if casErr \<noteq> None then OutcomeManifestFailed else OutcomeCommitted)) grp @
          failed) (drain cas order batchSize cm1 p1 s1)"
proof -
  note eq = drain.simps [of cas order batchSize cm p s, unfolded drain_round_def assms(1) prod.case Let_def, folded cm1_def]
  consider (a) "grp = [] \<and> failed = []" | (b) "commit_group cas grp p s = None" "\<not> (grp = [] \<and> failed = [])"
    | (c) p1 s1 where "commit_group cas grp p s = Some (Panicked, p1, s1)" "\<not> (grp = [] \<and> failed = [])"
    | (d) e p1 s1 where "commit_group cas grp p s = Some (Returned (Some e), p1, s1)"
        "\<not> errors_Is e ErrShutdown" "\<not> (grp = [] \<and> failed = [])"
    | (e) casErr p1 s1 where "commit_group cas grp p s = Some (Returned casErr, p1, s1)"
        "casErr = None \<or> errors_Is (the casErr) ErrShutdown" "\<not> (grp = [] \<and> failed = [])"
    using commit_group_shape [of cas grp p s] by (metis option.exhaust option.sel)
  then show ?thesis
  proof cases
    case a
    show ?thesis by (rule nothing) (use a in \<open>simp_all add: eq\<close>)
  next
    case b
    show ?thesis by (rule diverges) (use b in \<open>simp_all add: eq\<close>)
  next
    case c
    show ?thesis by (rule panics) (use c in \<open>simp_all add: eq\<close>)
  next
    case d
    then have "grp \<noteq> []" by auto
    show ?thesis by (rule halts) (use d \<open>grp \<noteq> []\<close> in \<open>auto simp: eq enterHalted_def cm1_def Let_def\<close>)
  next
    case e
    show ?thesis by (rule goes_on) (use e in \<open>auto simp: eq\<close>)
  qed
qed

definition no_wrap :: "u64 set \<Rightarrow> bool" where
  "no_wrap D \<longleftrightarrow> - 1 \<notin> D"

text \<open>
  The ordinals received so far are \<open>D\<close>: those below \<^verbatim>\<open>next\<close> have been taken out of
  \<^verbatim>\<open>ready\<close>, the others are in it.
\<close>

definition tracks :: "u64 set \<Rightarrow> u64 \<Rightarrow> (u64 \<Rightarrow> uploadCompletion option) \<Rightarrow> bool" where
  "tracks D next ready \<longleftrightarrow> dom ready = {n \<in> D. next \<le> n} \<and> {n. n < next} \<subseteq> D"


lemma collect_tracks:
  assumes "tracks D next ready" and "no_wrap D"
    and "collect n next ready grp failed = (next', ready', grp', failed')"
  shows "tracks D next' ready' \<and> length grp' + length failed' \<le> length grp + length failed + n \<and>
    (length grp' + length failed' < length grp + length failed + n \<longrightarrow> ready' next' = None)"
  using assms
proof (induction n arbitrary: "next" ready grp failed)
  case (Suc n)
  show ?case
  proof (cases "ready next")
    case (Some uc)
    then have "next \<in> D" "next \<noteq> - 1" using Suc.prems(1,2) by (auto simp: tracks_def no_wrap_def)
    then have tr: "tracks D (next + 1) (ready(next := None))"
      using Suc.prems(1) by (auto simp: tracks_def word_le_succ word_less_succ)
    show ?thesis
      using Suc.IH [OF tr Suc.prems(2)] Suc.prems(3) Some by (fastforce simp: Let_def split: option.splits)
  qed (use Suc.prems in auto)
qed simp

lemma drain_outcome:
  assumes "order_ok order" and "0 < batchSize" and "no_wrap D"
    and "drain cas order batchSize cm p s = Some (Returned prs, cm', p', s')"
    and "tracks D (cm_next cm) (cm_ready cm)" and "\<not> cm_halted cm"
  shows "mset (map pr_uc prs) + pool (cm_ready cm') = pool (cm_ready cm) \<and>
    (if cm_halted cm' then cm_ready cm' = Map.empty
     else tracks D (cm_next cm') (cm_ready cm') \<and> cm_ready cm' (cm_next cm') = None)"
  using assms
proof (induction "card (dom (cm_ready cm))" arbitrary: cm p s prs rule: less_induct)
  case less
  obtain next' ready' grp failed where
    col: "collect batchSize (cm_next cm) (cm_ready cm) [] [] = (next', ready', grp, failed)"
    by (metis prod_cases4)
  let ?cm1 = "cm\<lparr>cm_next := next', cm_ready := ready'\<rparr>"
  note tr = collect_tracks [OF less.prems(5,3) col] and pl = collect_pool [OF col]
  from col show ?case
  proof (cases rule: drain_cases [where cas = cas and order = order and p = p and s = s])
    case nothing
    then show ?thesis using less.prems tr pl by auto
  next
    case (halts e p1 s1)
    then show ?thesis
      using less.prems pl pool_order [OF less.prems(1), of ready'] by (auto simp: comp_def add.assoc)
  next
    case (goes_on casErr p1 s1)
    then obtain prs' where rec: "drain cas order batchSize ?cm1 p1 s1 = Some (Returned prs', cm', p', s')"
      and prs: "mset (map pr_uc prs) = mset grp + mset (map pr_uc failed) + mset (map pr_uc prs')"
      using less.prems(4) unfolding goes_on(4) prefix_resolutions_Returned by (auto simp: comp_def)
    have "card (dom (cm_ready ?cm1)) < card (dom (cm_ready cm))"
      using collect_card [OF col] goes_on(3) by simp
    from less.hyps [OF this less.prems(1-3) rec] tr less.prems(6) have
      ih: "mset (map pr_uc prs') + pool (cm_ready cm') = pool ready'"
        "if cm_halted cm' then cm_ready cm' = Map.empty
         else tracks D (cm_next cm') (cm_ready cm') \<and> cm_ready cm' (cm_next cm') = None" by simp_all
    have "mset (map pr_uc prs) + pool (cm_ready cm') =
        mset grp + mset (map pr_uc failed) + (mset (map pr_uc prs') + pool (cm_ready cm'))"
      using prs by (simp add: add.assoc)
    also have "\<dots> = pool (cm_ready cm)" unfolding ih(1) using pl by simp
    finally show ?thesis using ih(2) by (rule conjI)
  qed (use less.prems(4) in auto)
qed

text \<open>Receiving: distinct ordinals that were not seen before go into \<^verbatim>\<open>ready\<close>.\<close>

definition ordinal_of :: "uploadCompletion \<Rightarrow> u64" where
  "ordinal_of uc = eb_ordinal (uc_eb uc)"

lemma fold_put_ready_simps [simp]:
  "cm_next (fold put_ready ucs cm) = cm_next cm" "cm_halted (fold put_ready ucs cm) = cm_halted cm"
  "cm_holStarted (fold put_ready ucs cm) = cm_holStarted cm"
  by (induction ucs arbitrary: cm) (simp_all add: put_ready_def)

lemma fold_put_ready_tracks:
  assumes "tracks D (cm_next cm) (cm_ready cm)" and "distinct (map ordinal_of ucs)"
    and "set (map ordinal_of ucs) \<inter> D = {}"
  shows "tracks (D \<union> set (map ordinal_of ucs)) (cm_next cm) (cm_ready (fold put_ready ucs cm)) \<and>
    pool (cm_ready (fold put_ready ucs cm)) = mset ucs + pool (cm_ready cm)"
  using assms
proof (induction ucs arbitrary: cm D)
  case (Cons uc ucs)
  have new: "ordinal_of uc \<notin> D" using Cons.prems(3) by simp
  then have fresh: "cm_ready cm (ordinal_of uc) = None" using Cons.prems(1) by (auto simp: tracks_def)
  have ge: "cm_next cm \<le> ordinal_of uc"
    using Cons.prems(1) new unfolding tracks_def by (metis mem_Collect_eq not_le subsetD)
  have "tracks (insert (ordinal_of uc) D) (cm_next (put_ready uc cm)) (cm_ready (put_ready uc cm))"
    using Cons.prems(1) ge by (auto simp: tracks_def put_ready_def ordinal_of_def)
  moreover have "pool (cm_ready (put_ready uc cm)) = add_mset uc (pool (cm_ready cm))"
    using pool_insert [of "cm_ready cm" "ordinal_of uc" uc] fresh
    by (simp add: put_ready_def ordinal_of_def del: fun_upd_apply)
  moreover have "cm_next (put_ready uc cm) = cm_next cm" by (simp add: put_ready_def)
  ultimately show ?case using Cons.IH [of "insert (ordinal_of uc) D" "put_ready uc cm"] Cons.prems by auto
qed simp

text \<open>After the commit of what is ready, and all of what will ever arrive: nothing is left.\<close>

lemma tracks_complete:
  assumes "tracks D next ready" and "ready next = None" and "D = {n. n < N}"
  shows "ready = Map.empty"
proof -
  have "\<not> next < N" using assms by (auto simp: tracks_def)
  then have "dom ready = {}" using assms(1,3) by (auto simp: tracks_def)
  then show ?thesis by simp
qed

lemma no_wrap_below: "D \<subseteq> {n. n < N} \<Longrightarrow> no_wrap D"
  using word_n1_ge [of N] by (auto simp: no_wrap_def)

text \<open>The ordinals of the committed batches increase along the resolutions.\<close>

definition keyed :: "(u64 \<Rightarrow> uploadCompletion option) \<Rightarrow> bool" where
  "keyed ready \<longleftrightarrow> (\<forall>k uc. ready k = Some uc \<longrightarrow> ordinal_of uc = k)"

definition between :: "u64 \<Rightarrow> u64 \<Rightarrow> u64 list \<Rightarrow> bool" where
  "between a b ns \<longleftrightarrow> a \<le> b \<and> sorted_wrt (<) ns \<and> (\<forall>n \<in> set ns. a \<le> n \<and> n < b)"

abbreviation committed_ordinals :: "pendingResolution list \<Rightarrow> u64 list" where
  "committed_ordinals prs \<equiv> map (ordinal_of \<circ> pr_uc) (filter (\<lambda>pr. pr_err pr = None) prs)"

lemma between_append: "between a b xs \<Longrightarrow> between b c ys \<Longrightarrow> between a c (xs @ ys)"
  by (fastforce simp: between_def sorted_wrt_append)

lemma between_Nil: "a \<le> b \<Longrightarrow> between a b []"
  by (simp add: between_def)

lemma collect_between:
  assumes "collect n next ready grp failed = (next', ready', grp', failed')"
    and "tracks D next ready" and "no_wrap D" and "keyed ready"
  shows "\<exists>g f. grp' = grp @ g \<and> failed' = failed @ f \<and> between next next' (map ordinal_of g) \<and>
    list_all (\<lambda>pr. pr_err pr \<noteq> None) f \<and> keyed ready'"
  using assms
proof (induction n arbitrary: "next" ready grp failed)
  case 0
  then show ?case by (auto simp: between_def)
next
  case (Suc n)
  show ?case
  proof (cases "ready next")
    case None
    then show ?thesis using Suc.prems by (auto simp: between_def)
  next
    case (Some uc)
    then have "next \<in> D" "next \<noteq> - 1" using Suc.prems(2,3) by (auto simp: tracks_def no_wrap_def)
    then have tr: "tracks D (next + 1) (ready(next := None))" and lt: "next < next + 1"
      using Suc.prems(2) by (auto simp: tracks_def word_le_succ word_less_succ)
    have key: "keyed (ready(next := None))" "ordinal_of uc = next"
      using Suc.prems(4) Some by (auto simp: keyed_def)
    have one: "between next (next + 1) [ordinal_of uc]" "between next (next + 1) []"
      using lt key(2) by (auto simp: between_def)
    show ?thesis
    proof (cases "uc_putError uc")
      case None
      then have "collect n (next + 1) (ready(next := None)) (grp @ [uc]) failed = (next', ready', grp', failed')"
        using Suc.prems(1) Some by simp
      from Suc.IH [OF this tr Suc.prems(3) key(1)] between_append [OF one(1)] show ?thesis by fastforce
    next
      case (Some e)
      let ?pr = "resolution uc (Some e) (if uc_encodeFailed uc then OutcomeEncodeFailed else OutcomeUploadFailed)"
      have "collect n (next + 1) (ready(next := None)) grp (failed @ [?pr]) = (next', ready', grp', failed')"
        using Suc.prems(1) \<open>ready next = Some uc\<close> Some by simp
      from Suc.IH [OF this tr Suc.prems(3) key(1)] between_append [OF one(2)] show ?thesis by fastforce
    qed
  qed
qed

lemma drain_between:
  assumes "drain cas order batchSize cm p s = Some (Returned prs, cm', p', s')"
    and "tracks D (cm_next cm) (cm_ready cm)" and "no_wrap D" and "keyed (cm_ready cm)"
  shows "between (cm_next cm) (cm_next cm') (committed_ordinals prs) \<and> keyed (cm_ready cm')"
  using assms
proof (induction "card (dom (cm_ready cm))" arbitrary: cm p s prs rule: less_induct)
  case less
  obtain next' ready' grp failed where
    col: "collect batchSize (cm_next cm) (cm_ready cm) [] [] = (next', ready', grp, failed)"
    by (metis prod_cases4)
  let ?cm1 = "cm\<lparr>cm_next := next', cm_ready := ready'\<rparr>"
  from collect_between [OF col less.prems(2-4)] have
    b: "between (cm_next cm) next' (map ordinal_of grp)" and k: "keyed ready'"
    and f: "filter (\<lambda>pr. pr_err pr = None) failed = []"
    by (auto simp: filter_empty_conv list_all_iff)
  from b have b0: "between (cm_next cm) next' []" by (simp add: between_def)
  from col show ?case
  proof (cases rule: drain_cases [where cas = cas and order = order and p = p and s = s])
    case nothing
    then show ?thesis using less.prems(1) b0 k by auto
  next
    case (halts e p1 s1)
    then show ?thesis using less.prems(1) b0 f by (auto simp: keyed_def filter_map comp_def)
  next
    case (goes_on casErr p1 s1)
    then obtain prs' where rec: "drain cas order batchSize ?cm1 p1 s1 = Some (Returned prs', cm', p', s')"
      and prs: "committed_ordinals prs = (if casErr = None then map ordinal_of grp else []) @ committed_ordinals prs'"
      using less.prems(1) f unfolding goes_on(4) prefix_resolutions_Returned
      by (auto simp: filter_map comp_def)
    have "card (dom (cm_ready ?cm1)) < card (dom (cm_ready cm))"
      using collect_card [OF col] goes_on(3) by simp
    from less.hyps [OF this rec] collect_tracks [OF less.prems(2,3) col] less.prems(3) k
    show ?thesis unfolding prs using between_append [OF b] between_append [OF b0] by auto
  qed (use less.prems(1) in auto)
qed

lemma fold_put_ready_keyed: "keyed (cm_ready cm) \<Longrightarrow> keyed (cm_ready (fold put_ready ucs cm))"
proof (induction ucs arbitrary: cm)
  case (Cons uc ucs)
  have "keyed (cm_ready (put_ready uc cm))"
    using Cons.prems by (auto simp: put_ready_def keyed_def ordinal_of_def)
  from Cons.IH [OF this] show ?case by simp
qed simp

lemma committer_iter_Returned:
  assumes "committer_iter cas order batchSize uc further cm p s = Some (Returned prs, cm', p', s')"
  obtains hol cm2 p2 where
    "drain cas order batchSize (fold put_ready (uc # further) cm\<lparr>cm_holStarted := hol\<rparr>) p s =
       Some (Returned prs, cm2, p2, s')"
    "cm_ready cm' = cm_ready cm2" "cm_next cm' = cm_next cm2" "cm_halted cm' = cm_halted cm2"
    "p' = p2 \<or> p' = observe [OnHeadOfLineBlock] p2"
proof -
  let ?cm1 = "fold put_ready further (put_ready uc cm)"
  have upd: "(if b then cm\<lparr>cm_holStarted := True\<rparr> else cm) = cm\<lparr>cm_holStarted := b \<or> cm_holStarted cm\<rparr>"
    for b and cm :: committer by (cases cm) auto
  have "\<exists>hol. committer_iter cas order batchSize uc further cm p s =
      (case drain cas order batchSize (?cm1\<lparr>cm_holStarted := hol\<rparr>) p s of
         None \<Rightarrow> None
       | Some (Panicked, cm, p, s) \<Rightarrow> Some (Panicked, cm, p, s)
       | Some (Returned prs, cm, p, s) \<Rightarrow>
           let (cm, p) = (if cm_ready ?cm1 (cm_next ?cm1) \<noteq> None \<and> cm_holStarted cm
                 then (cm\<lparr>cm_holStarted := False\<rparr>, observe [OnHeadOfLineBlock] p) else (cm, p)) in
           Some (Returned prs, cm, p, s))"
    (is "\<exists>hol. _ = ?r hol")
    unfolding committer_iter_def Let_def upd by (rule exI, rule refl)
  then obtain hol where it: "committer_iter cas order batchSize uc further cm p s = ?r hol" ..
  show ?thesis
    using assms unfolding it
    by (auto simp: Let_def intro: that [of hol] split: option.splits run.splits prod.splits if_splits)
qed

lemma committer_iter_outcome:
  assumes "order_ok order" and "0 < batchSize" and "no_wrap (D \<union> set (map ordinal_of (uc # further)))"
    and "committer_iter cas order batchSize uc further cm p s = Some (Returned prs, cm', p', s')"
    and "tracks D (cm_next cm) (cm_ready cm)" and "\<not> cm_halted cm"
    and "distinct (map ordinal_of (uc # further))" and "set (map ordinal_of (uc # further)) \<inter> D = {}"
    and "keyed (cm_ready cm)"
  shows "mset (map pr_uc prs) + pool (cm_ready cm') = mset (uc # further) + pool (cm_ready cm) \<and>
    (if cm_halted cm' then cm_ready cm' = Map.empty
     else tracks (D \<union> set (map ordinal_of (uc # further))) (cm_next cm') (cm_ready cm') \<and>
       cm_ready cm' (cm_next cm') = None) \<and>
    between (cm_next cm) (cm_next cm') (committed_ordinals prs) \<and> keyed (cm_ready cm')"
proof (rule committer_iter_Returned [OF assms(4)])
  fix hol cm2 p2
  let ?cm1 = "fold put_ready (uc # further) cm"
  assume dr: "drain cas order batchSize (?cm1\<lparr>cm_holStarted := hol\<rparr>) p s = Some (Returned prs, cm2, p2, s')"
    and cm': "cm_ready cm' = cm_ready cm2" "cm_next cm' = cm_next cm2" "cm_halted cm' = cm_halted cm2"
  have "cm_next ?cm1 = cm_next cm" "\<not> cm_halted ?cm1" using assms(6) by (simp_all add: put_ready_def)
  with drain_outcome [OF assms(1-3) dr] fold_put_ready_tracks [OF assms(5,7,8)]
    drain_between [OF dr _ assms(3)] fold_put_ready_keyed [OF assms(9), of "uc # further"]
  show ?thesis unfolding cm' by (simp cong: if_cong)
qed

lemma committer_loop_Returned:
  assumes "committer_loop cas order batchSize ks (uc # ch) cm p s = Some (Returned prs, cm', p', s')"
  obtains (halted) prs' where "cm_halted cm"
      "prs = resolution uc (Some ErrProducerHalted) OutcomeAbandoned # prs'"
      "committer_loop cas order batchSize ks ch cm p s = Some (Returned prs', cm', p', s')"
  | (closed) k where "\<not> cm_halted cm" "length ch < k"
      "committer_iter cas order batchSize uc (take k ch) cm p s = Some (Returned prs, cm', p', s')"
  | (again) k prs1 cm1 p1 s1 prs2 where "\<not> cm_halted cm" "prs = prs1 @ prs2"
      "committer_iter cas order batchSize uc (take k ch) cm p s = Some (Returned prs1, cm1, p1, s1)"
      "committer_loop cas order batchSize (tl ks) (drop k ch) cm1 p1 s1 = Some (Returned prs2, cm', p', s')"
proof (cases "cm_halted cm")
  case True
  then show ?thesis using assms halted by (auto simp: prefix_resolutions_Returned)
next
  case False
  define k where "k = (case ks of [] \<Rightarrow> 0 | k # _ \<Rightarrow> k)"
  note eq = assms [unfolded committer_loop.simps if_not_P [OF False] Let_def, folded k_def]
  obtain prs1 cm1 p1 s1 where
    it: "committer_iter cas order batchSize uc (take k ch) cm p s = Some (Returned prs1, cm1, p1, s1)"
    using eq by (auto split: option.splits run.splits)
  show ?thesis
  proof (cases "length ch < k")
    case True
    then show ?thesis using closed [OF False True] eq it by simp
  next
    case rest: False
    then show ?thesis using again [OF False _ it] eq it by (auto simp: prefix_resolutions_Returned)
  qed
qed

lemma committer_loop_outcome:
  assumes "order_ok order" and "0 < batchSize"
    and "committer_loop cas order batchSize ks ch cm p s = Some (Returned prs, cm', p', s')"
    and "if cm_halted cm then cm_ready cm = Map.empty
      else tracks D (cm_next cm) (cm_ready cm) \<and> keyed (cm_ready cm)"
    and "distinct (map ordinal_of ch)" and "set (map ordinal_of ch) \<inter> D = {}"
    and "D \<union> set (map ordinal_of ch) = {n. n < N}"
  shows "mset (map pr_uc prs) = mset ch + pool (cm_ready cm) \<and>
    (\<exists>b. between (cm_next cm) b (committed_ordinals prs))"
  using assms
proof (induction "length ch" arbitrary: ks ch cm p s prs D rule: less_induct)
  case less
  note order = less.prems(1,2)
  show ?case
  proof (cases ch)
    case Nil
    have nw: "no_wrap D" and D: "D = {n. n < N}" using no_wrap_below [of D N] less.prems(7) Nil by auto
    show ?thesis
    proof (cases "cm_halted cm")
      case True
      then show ?thesis using less.prems(3,4) Nil between_Nil [OF order_refl] by auto
    next
      case False
      then have dr: "drain cas order batchSize cm p s = Some (Returned prs, cm', p', s')"
        and st: "tracks D (cm_next cm) (cm_ready cm)" "keyed (cm_ready cm)" using less.prems(3,4) Nil by auto
      note out = drain_outcome [OF order nw dr st(1) False]
      have "pool (cm_ready cm') = {#}"
        using conjunct2 [OF out] tracks_complete [OF _ _ D, of "cm_next cm'" "cm_ready cm'"]
        by (cases "cm_halted cm'") simp_all
      then show ?thesis using conjunct1 [OF out] drain_between [OF dr st(1) nw st(2)] Nil by auto
    qed
  next
    case ch: (Cons uc ch1)
    from less.prems(3) [unfolded ch] show ?thesis
    proof (cases rule: committer_loop_Returned)
      case (halted prs')
      with less.hyps [OF _ order halted(3), of "insert (ordinal_of uc) D"] less.prems(4-7) ch
      show ?thesis by auto
    next
      case (closed k)
      have "no_wrap (D \<union> set (map ordinal_of (uc # take k ch1)))"
        by (rule no_wrap_below [of _ N]) (use less.prems(7) ch closed(2) in auto)
      note out = committer_iter_outcome [OF order this closed(3)]
      have out: "mset (map pr_uc prs) + pool (cm_ready cm') = mset ch + pool (cm_ready cm)"
          "if cm_halted cm' then cm_ready cm' = Map.empty
           else tracks {n. n < N} (cm_next cm') (cm_ready cm') \<and> cm_ready cm' (cm_next cm') = None"
          "between (cm_next cm) (cm_next cm') (committed_ordinals prs)"
        using out less.prems(4-7) ch closed(1,2) by (simp_all cong: if_cong)
      have "pool (cm_ready cm') = {#}"
        using out(2) tracks_complete [OF _ _ refl, of N "cm_next cm'" "cm_ready cm'"]
        by (cases "cm_halted cm'") simp_all
      then show ?thesis using out(1,3) by auto
    next
      case (again k prs1 cm1 p1 s1 prs2)
      let ?D = "D \<union> set (map ordinal_of (uc # take k ch1))"
      have halves: "map ordinal_of ch = map ordinal_of (uc # take k ch1) @ map ordinal_of (drop k ch1)"
        by (metis append_Cons append_take_drop_id ch map_append)
      note pre = less.prems(5-7) [unfolded halves]
      have "no_wrap ?D" by (rule no_wrap_below [of _ N]) (use pre(3) in auto)
      moreover have "distinct (map ordinal_of (uc # take k ch1))"
        "set (map ordinal_of (uc # take k ch1)) \<inter> D = {}" using pre(1,2) by auto
      ultimately have
        one: "mset (map pr_uc prs1) + pool (cm_ready cm1) = mset (uc # take k ch1) + pool (cm_ready cm)"
        and st: "if cm_halted cm1 then cm_ready cm1 = Map.empty
          else tracks ?D (cm_next cm1) (cm_ready cm1) \<and> keyed (cm_ready cm1)"
        and b1: "between (cm_next cm) (cm_next cm1) (committed_ordinals prs1)"
        using committer_iter_outcome [OF order _ again(3)] less.prems(4) again(1) by (auto split: if_splits)
      have ih: "mset (map pr_uc prs2) = mset (drop k ch1) + pool (cm_ready cm1) \<and>
          (\<exists>b. between (cm_next cm1) b (committed_ordinals prs2))"
        by (rule less.hyps [OF _ order again(4) st]) (use pre ch in auto)
      then have "mset (map pr_uc prs) = (mset (map pr_uc prs1) + pool (cm_ready cm1)) + mset (drop k ch1)"
        unfolding again(2) by (simp add: ac_simps)
      also have "\<dots> = mset (uc # take k ch1 @ drop k ch1) + pool (cm_ready cm)"
        unfolding one mset.simps mset_append by (simp add: ac_simps)
      finally show ?thesis using ih between_append [OF b1] by (auto simp: ch again(2))
    qed
  qed
qed

end
