(* ===== verification/Commits.thy ===== *)
theory Commits
  imports Committer
begin

text \<open>
  What the committer of \<^verbatim>\<open>buffer/producer.go\<close> guarantees: every upload completion is
  resolved exactly once and with the outcome it had, committed batches reach the manifest in ordinal
  order, and the loop returns.  \<open>commit_invariant\<close> carries a property of the resolutions, the
  shared state and the store through the whole loop; \<open>commit_log\<close> is the contract of the commit
  call, which \<open>casWithRetry\<close> keeps on every store with the compare-and-swap contract while
  other producers append to the same manifest.
\<close>

section \<open>Invariants of the committer\<close>

text \<open>
  What the committer does to the store and the shared state, without its bookkeeping: a group is
  committed and its batches resolved with the verdict on it, a failed upload is resolved with its own
  error, anything else is abandoned.  \<open>commit_invariant\<close> states what a property of the
  resolutions sent so far, the shared state and the store must satisfy to hold at the end;
  \<open>U\<close> is what is known of every completion received.
\<close>

definition group_verdict :: "gerror option \<Rightarrow> gerror option \<times> BatchOutcome" where
  "group_verdict casErr =
     (case casErr of
        None \<Rightarrow> (None, OutcomeCommitted)
      | Some e \<Rightarrow> (if errors_Is e ErrShutdown then casErr else Some ErrProducerHalted, OutcomeManifestFailed))"

definition upload_failure :: "pendingResolution \<Rightarrow> bool" where
  "upload_failure pr \<longleftrightarrow> uc_putError (pr_uc pr) \<noteq> None \<and> pr_err pr = uc_putError (pr_uc pr) \<and>
     pr_outcome pr = (if uc_encodeFailed (pr_uc pr) then OutcomeEncodeFailed else OutcomeUploadFailed)"

abbreviation judged :: "gerror option \<Rightarrow> uploadCompletion list \<Rightarrow> pendingResolution list" where
  "judged casErr grp \<equiv>
     map (\<lambda>uc. resolution uc (fst (group_verdict casErr)) (snd (group_verdict casErr))) grp"

abbreviation abandoned :: "uploadCompletion \<Rightarrow> pendingResolution" where
  "abandoned uc \<equiv> resolution uc (Some ErrProducerHalted) OutcomeAbandoned"

lemma collect_outcome:
  assumes "collect n next ready grp failed = (next', ready', grp', failed')"
    and "\<forall>uc \<in> ran ready. U uc"
    and "list_all (\<lambda>uc. U uc \<and> uc_putError uc = None) grp" and "list_all upload_failure failed"
  shows "(\<forall>uc \<in> ran ready'. U uc) \<and> list_all (\<lambda>uc. U uc \<and> uc_putError uc = None) grp' \<and>
    list_all upload_failure failed' \<and> length grp' \<le> length grp + n"
  using assms
proof (induction n arbitrary: "next" ready grp failed)
  case (Suc n)
  show ?case
  proof (cases "ready next")
    case (Some uc)
    have "\<forall>uc \<in> ran (ready(next := None)). U uc" "U uc"
      using Suc.prems(2) Some by (auto simp: ran_def)
    note ih = Suc.IH [of "next + 1" "ready(next := None)"] this
    show ?thesis
    proof (cases "uc_putError uc")
      case None
      then show ?thesis using ih(1) [of "grp @ [uc]" failed] ih(2) Suc.prems Some \<open>U uc\<close>
        \<open>ready next = Some uc\<close> by (simp del: fun_upd_apply)
    next
      case (Some e)
      let ?pr = "resolution uc (Some e) (if uc_encodeFailed uc then OutcomeEncodeFailed else OutcomeUploadFailed)"
      have "upload_failure ?pr" using Some by (simp add: upload_failure_def)
      then show ?thesis using ih(1) [of grp "failed @ [?pr]"] ih(2) Suc.prems Some \<open>ready next = Some uc\<close>
        by (simp del: fun_upd_apply)
    qed
  qed (use Suc.prems in auto)
qed simp

lemma fold_put_ready_all:
  "list_all U ucs \<Longrightarrow> \<forall>uc \<in> ran (cm_ready cm). U uc \<Longrightarrow> \<forall>uc \<in> ran (cm_ready (fold put_ready ucs cm)). U uc"
proof (induction ucs arbitrary: cm)
  case (Cons uc ucs)
  have "\<forall>uc \<in> ran (cm_ready (put_ready uc cm)). U uc"
    using Cons.prems by (auto simp: put_ready_def ran_def)
  from Cons.IH [OF _ this] Cons.prems(1) show ?case by simp
qed simp

locale commit_invariant =
  fixes cas :: "'s cas_call" and batchSize :: nat and U :: "uploadCompletion \<Rightarrow> bool"
    and I :: "pendingResolution list \<Rightarrow> 's Producer \<Rightarrow> 's \<Rightarrow> bool"
  assumes commit: "I sent p s \<Longrightarrow> commit_group cas grp p s = Some (Returned casErr, p', s') \<Longrightarrow>
      list_all (\<lambda>uc. U uc \<and> uc_putError uc = None) grp \<Longrightarrow> length grp \<le> batchSize \<Longrightarrow>
      list_all upload_failure failed \<Longrightarrow> I (sent @ judged casErr grp @ failed) p' s'"
    and abandon: "I sent p s \<Longrightarrow> U uc \<Longrightarrow> I (sent @ [abandoned uc]) p s"
    and observes: "I sent p s \<Longrightarrow> I sent (observe evs p) s"
    and halt: "I sent p s \<Longrightarrow> I sent (p\<lparr>p_halted := True\<rparr>) s"
    and notify: "I sent p s \<Longrightarrow> I sent (p\<lparr>p_haltedNotify := True\<rparr>) s"
begin

lemma abandon_all: "I sent p s \<Longrightarrow> \<forall>uc \<in> set ucs. U uc \<Longrightarrow> I (sent @ map abandoned ucs) p s"
proof (induction ucs arbitrary: sent)
  case (Cons uc ucs)
  from Cons.IH [OF abandon [OF Cons.prems(1), of uc]] Cons.prems(2) show ?case by simp
qed simp

lemma enterHalted_invariant: "I sent p s \<Longrightarrow> I sent (snd (enterHalted (cm, p))) s"
  using halt [of sent p s] observes [OF notify [OF halt], of sent p s]
  by (cases "p_haltedNotify p") (auto simp: enterHalted_def Let_def)

lemma drain_invariant:
  assumes "drain cas order batchSize cm p s = Some (Returned prs, cm', p', s')"
    and "I sent p s" and "\<forall>uc \<in> ran (cm_ready cm). U uc" and "order_ok order"
  shows "I (sent @ prs) p' s' \<and> (\<forall>uc \<in> ran (cm_ready cm'). U uc)"
  using assms
proof (induction "card (dom (cm_ready cm))" arbitrary: cm p s sent prs rule: less_induct)
  case less
  obtain next' ready' grp failed where
    col: "collect batchSize (cm_next cm) (cm_ready cm) [] [] = (next', ready', grp, failed)"
    by (metis prod_cases4)
  let ?cm1 = "cm\<lparr>cm_next := next', cm_ready := ready'\<rparr>"
  from collect_outcome [OF col less.prems(3)] have ready: "\<forall>uc \<in> ran ready'. U uc"
    and grp: "list_all (\<lambda>uc. U uc \<and> uc_putError uc = None) grp" "length grp \<le> batchSize"
    and failed: "list_all upload_failure failed" by auto
  note step = commit [OF less.prems(2) _ grp failed]
  from col show ?case
  proof (cases rule: drain_cases [where cas = cas and order = order and p = p and s = s])
    case nothing
    then show ?thesis using less.prems ready by auto
  next
    case (halts e p1 s1)
    let ?ucs = "map (\<lambda>k. the (ready' k)) (order (dom ready'))"
    have "\<forall>uc \<in> set ?ucs. U uc" using ready less.prems(4) by (auto simp: order_ok_def ran_def)
    from enterHalted_invariant [OF abandon_all [OF step [OF halts(1)] this]] show ?thesis
      using less.prems(1) halts by (auto simp: group_verdict_def comp_def)
  next
    case (goes_on casErr p1 s1)
    then obtain prs' where rec: "drain cas order batchSize ?cm1 p1 s1 = Some (Returned prs', cm', p', s')"
      and prs: "prs = judged casErr grp @ failed @ prs'"
      using less.prems(1) unfolding goes_on(4) prefix_resolutions_Returned
      by (cases casErr) (auto simp: group_verdict_def)
    have "card (dom (cm_ready ?cm1)) < card (dom (cm_ready cm))"
      using collect_card [OF col] goes_on(3) by simp
    from less.hyps [OF this rec step [OF goes_on(1)] _ less.prems(4)] ready prs show ?thesis by simp
  qed (use less.prems(1) in auto)
qed

lemma committer_iter_invariant:
  assumes "committer_iter cas order batchSize uc further cm p s = Some (Returned prs, cm', p', s')"
    and "I sent p s" and "\<forall>uc \<in> ran (cm_ready cm). U uc" and "order_ok order"
    and "list_all U (uc # further)"
  shows "I (sent @ prs) p' s' \<and> (\<forall>uc \<in> ran (cm_ready cm'). U uc)"
proof (rule committer_iter_Returned [OF assms(1)])
  fix hol cm2 p2
  let ?cm1 = "fold put_ready (uc # further) cm"
  assume dr: "drain cas order batchSize (?cm1\<lparr>cm_holStarted := hol\<rparr>) p s = Some (Returned prs, cm2, p2, s')"
    and cm': "cm_ready cm' = cm_ready cm2" and p': "p' = p2 \<or> p' = observe [OnHeadOfLineBlock] p2"
  have "\<forall>uc \<in> ran (cm_ready (?cm1\<lparr>cm_holStarted := hol\<rparr>)). U uc"
    using fold_put_ready_all [OF assms(5,3)] by simp
  from drain_invariant [OF dr assms(2) this assms(4)] show ?thesis using p' cm' observes by auto
qed

lemma committer_loop_invariant:
  assumes "committer_loop cas order batchSize ks ch cm p s = Some (Returned prs, cm', p', s')"
    and "I sent p s" and "\<forall>uc \<in> ran (cm_ready cm). U uc" and "order_ok order" and "list_all U ch"
  shows "I (sent @ prs) p' s'"
  using assms
proof (induction "length ch" arbitrary: ks ch cm p s sent prs rule: less_induct)
  case less
  show ?case
  proof (cases ch)
    case Nil
    then show ?thesis
      using less.prems(1,2) drain_invariant [of order cm p s prs cm' p' s' sent] less.prems(3,4)
      by (auto split: if_splits)
  next
    case ch: (Cons uc ch1)
    from less.prems(1) [unfolded ch] show ?thesis
    proof (cases rule: committer_loop_Returned)
      case (halted prs')
      then show ?thesis using less.hyps [of ch1 ks cm p s prs' "sent @ [abandoned uc]"]
          abandon [OF less.prems(2), of uc] less.prems(3-5) ch by simp
    next
      case (closed k)
      from committer_iter_invariant [OF closed(3) less.prems(2-4)] less.prems(5) ch closed(2)
      show ?thesis by simp
    next
      case (again k prs1 cm1 p1 s1 prs2)
      have U: "list_all U (uc # take k ch1)" "list_all U (drop k ch1)"
        using less.prems(5) ch by (auto simp: list_all_iff dest: in_set_takeD in_set_dropD)
      note one = committer_iter_invariant [OF again(3) less.prems(2-4) U(1)]
      have "length (drop k ch1) < length ch" using ch by simp
      from less.hyps [OF this again(4) conjunct1 [OF one] conjunct2 [OF one] less.prems(4) U(2)]
      show ?thesis unfolding again(2) by simp
    qed
  qed
qed

end

section \<open>What a resolution says\<close>

definition resolution_ok :: "pendingResolution \<Rightarrow> bool" where
  "resolution_ok pr \<longleftrightarrow>
     (case pr_outcome pr of
        OutcomeCommitted \<Rightarrow> pr_err pr = None \<and> uc_putError (pr_uc pr) = None
      | OutcomeManifestFailed \<Rightarrow> uc_putError (pr_uc pr) = None \<and>
          (pr_err pr = Some ErrProducerHalted \<or> (\<exists>e. pr_err pr = Some e \<and> errors_Is e ErrShutdown))
      | OutcomeAbandoned \<Rightarrow> pr_err pr = Some ErrProducerHalted
      | _ \<Rightarrow> upload_failure pr)"

lemma upload_failure_resolution_ok: "upload_failure pr \<Longrightarrow> resolution_ok pr"
  by (cases "uc_encodeFailed (pr_uc pr)") (auto simp: upload_failure_def resolution_ok_def)

lemma judged_resolution_ok:
  "uc_putError uc = None \<Longrightarrow>
     resolution_ok (resolution uc (fst (group_verdict casErr)) (snd (group_verdict casErr)))"
  by (cases casErr) (auto simp: resolution_ok_def group_verdict_def)

lemma abandoned_resolution_ok: "resolution_ok (abandoned uc)"
  by (simp add: resolution_ok_def)

interpretation verdicts: commit_invariant cas batchSize "\<lambda>_. True" "\<lambda>sent p s. list_all resolution_ok sent"
  for cas batchSize
  by unfold_locales (auto simp: list_all_iff upload_failure_resolution_ok judged_resolution_ok
      abandoned_resolution_ok)

section \<open>Committed batches reach the manifest in order\<close>

text \<open>
  The contract of the commit call: \<open>holds s xs\<close> says that \<open>xs\<close> have been appended to the
  manifest since some fixed moment.  A nil error appends the items in one piece, an error at most what
  others append and the items; nothing is removed.
\<close>

definition committed_items :: "pendingResolution list \<Rightarrow> enqueueItem list" where
  "committed_items prs = group_items (map pr_uc (filter (\<lambda>pr. pr_err pr = None) prs))"

locale commit_log =
  fixes cas :: "'s cas_call" and batchSize :: nat and U :: "uploadCompletion \<Rightarrow> bool"
    and good :: "'s Producer \<Rightarrow> bool" and holds :: "'s \<Rightarrow> enqueueItem list \<Rightarrow> bool"
  assumes cas_nil: "good p \<Longrightarrow> holds s xs \<Longrightarrow> list_all U grp \<Longrightarrow> grp \<noteq> [] \<Longrightarrow> length grp \<le> batchSize \<Longrightarrow>
      cas (group_items grp) p s = Some (Returned (c, None), p', s') \<Longrightarrow>
      good p' \<and> (\<exists>ys. holds s' (xs @ ys @ group_items grp))"
    and cas_err: "good p \<Longrightarrow> holds s xs \<Longrightarrow> list_all U grp \<Longrightarrow> grp \<noteq> [] \<Longrightarrow> length grp \<le> batchSize \<Longrightarrow>
      cas (group_items grp) p s = Some (Returned (c, Some e), p', s') \<Longrightarrow>
      good p' \<and> (\<exists>ys. holds s' (xs @ ys))"
    and good_observe: "good p \<Longrightarrow> good (observe evs p)"
    and good_halt: "good p \<Longrightarrow> good (p\<lparr>p_halted := True\<rparr>)"
    and good_notify: "good p \<Longrightarrow> good (p\<lparr>p_haltedNotify := True\<rparr>)"
begin

lemma commit_group_holds:
  assumes "good p" and "holds s (xs @ zs)" and "subseq cs zs"
    and "commit_group cas grp p s = Some (Returned casErr, p', s')"
    and "list_all (\<lambda>uc. U uc \<and> uc_putError uc = None) grp" and "length grp \<le> batchSize"
  shows "good p' \<and> (\<exists>zs. holds s' (xs @ zs) \<and> subseq (cs @ (if casErr = None then group_items grp else [])) zs)"
proof (cases "grp = []")
  case True
  then show ?thesis using assms by (auto simp: commit_group_def group_items_def)
next
  case False
  have U: "list_all U grp" using assms(5) by (auto simp: list_all_iff)
  obtain c p1 evs where cas: "cas (group_items grp) p s = Some (Returned (c, casErr), p1, s')"
    and p': "p' = observe evs p1"
    using assms(4) False by (auto simp: commit_group_def Let_def split: option.splits run.splits)
  show ?thesis
  proof (cases casErr)
    case None
    with cas_nil [OF assms(1,2) U False assms(6)] cas obtain ys where
      "good p1" and h: "holds s' (xs @ zs @ ys @ group_items grp)" by auto
    moreover have "subseq (cs @ group_items grp) (zs @ ys @ group_items grp)"
      using list_emb_append_mono [OF assms(3), of "group_items grp" "ys @ group_items grp"]
        list_emb_append2 [of "(=)" "group_items grp" "group_items grp" ys] by simp
    ultimately show ?thesis using None p' good_observe by auto
  next
    case (Some e)
    with cas_err [OF assms(1,2) U False assms(6)] cas obtain ys where
      "good p1" and h: "holds s' (xs @ zs @ ys)" by auto
    then show ?thesis using Some p' good_observe assms(3) by auto
  qed
qed

end

sublocale commit_log \<subseteq> logged: commit_invariant cas batchSize U
  "\<lambda>sent p s. good p \<and> (\<exists>zs. holds s (xs @ zs) \<and> subseq (committed_items sent) zs)" for xs
proof unfold_locales
  fix sent p s grp casErr p' s' failed
  assume inv: "good p \<and> (\<exists>zs. holds s (xs @ zs) \<and> subseq (committed_items sent) zs)"
    and grp: "commit_group cas grp p s = Some (Returned casErr, p', s')"
      "list_all (\<lambda>uc. U uc \<and> uc_putError uc = None) grp" "length grp \<le> batchSize"
    and failed: "list_all upload_failure failed"
  have none: "filter (\<lambda>pr. pr_err pr = None) failed = []"
    using failed by (auto simp: filter_empty_conv list_all_iff upload_failure_def)
  have "committed_items (sent @ judged casErr grp @ failed) =
      committed_items sent @ (if casErr = None then group_items grp else [])"
    by (cases casErr) (auto simp: committed_items_def group_items_def group_verdict_def none filter_map comp_def)
  with commit_group_holds [OF _ _ _ grp] inv
  show "good p' \<and> (\<exists>zs. holds s' (xs @ zs) \<and> subseq (committed_items (sent @ judged casErr grp @ failed)) zs)"
    by metis
qed (auto simp: committed_items_def good_observe good_halt good_notify)

text \<open>
  Other clients of the manifest only ever enqueue entries, whatever they find; \<open>env\<close> are their
  steps before the store calls of one \<^verbatim>\<open>enqueueBatch\<close>.
\<close>

definition queue_clients :: "('s \<Rightarrow> objects) \<Rightarrow> string \<Rightarrow> (nat \<Rightarrow> 's \<Rightarrow> 's) \<Rightarrow> bool" where
  "queue_clients objs path env \<longleftrightarrow>
     (\<forall>i s q. queue_at (objs s) path q \<longrightarrow> (\<exists>zs. queue_at (objs (env i s)) path (q_items q zs))) \<and>
     (\<forall>i s. version_at (objs (env i s)) path = version_at (objs s) path \<longrightarrow>
        objs (env i s) path = objs s path)"

definition grown :: "objects \<Rightarrow> string \<Rightarrow> queue \<Rightarrow> enqueueItem list \<Rightarrow> enqueue_result \<Rightarrow> bool" where
  "grown o1 path q items r \<longleftrightarrow>
     (case r of
        Panicked \<Rightarrow> False
      | Returned (c, None) \<Rightarrow> \<exists>zs. queue_at o1 path (q_items q (zs @ items))
      | Returned (c, Some e) \<Rightarrow> \<exists>zs. queue_at o1 path (q_items q zs))"

lemma grown_simps [simp]:
  "grown o1 path q items (Returned (c, None)) \<longleftrightarrow> (\<exists>zs. queue_at o1 path (q_items q (zs @ items)))"
  "grown o1 path q items (Returned (c, Some e)) \<longleftrightarrow> (\<exists>zs. queue_at o1 path (q_items q zs))"
  "\<not> grown o1 path q items Panicked"
  by (simp_all add: grown_def)

lemma enqueue_round_frame:
  "case enqueue_round env items c p s of
     Done r p' s' \<Rightarrow> me_store p' = me_store p \<and> me_manifestPath p' = me_manifestPath p
   | Retry p' s' \<Rightarrow> me_store p' = me_store p \<and> me_manifestPath p' = me_manifestPath p"
  by (auto simp: enqueue_round_def Let_def split: prod.splits res.splits option.splits)

context cas_store
begin

lemma enqueue_round_grows:
  assumes st: "me_store p = S" "me_manifestPath p = path" and env: "queue_clients objs path env"
    and items: "list_all item_fits items" "length items < 2 ^ 63"
    and cur: "queue_at (objs s) path (q_items q xs)"
  shows "case enqueue_round env items c p s of
      Retry p' s' \<Rightarrow> \<exists>zs. queue_at (objs s') path (q_items q zs)
    | Done r p' s' \<Rightarrow> grown (objs s') path q items r"
proof -
  obtain z1 where at0: "queue_at (objs (env (2 * c) s)) path (q_items q z1)"
    using env cur unfolding queue_clients_def by (metis q_items_simps(3))
  obtain r1 s1 where rd: "readManifest p (env (2 * c) s) = (r1, s1)" by fastforce
  note out = readManifest_outcome [OF st(1), unfolded st(2), OF at0 rd]
  have at1: "queue_at (objs s1) path (q_items q z1)" using at0 out(1) by simp
  obtain z2 where at2: "queue_at (objs (env (2 * c + 1) s1)) path (q_items q z2)"
    using env at1 unfolding queue_clients_def by (metis q_items_simps(3))
  consider (err) e where "r1 = Err e"
    | (ok) m where "r1 = Ok (m, version_at (objs s1) path)" "manifest_rel (q_items q z1) [] m"
    using out by auto
  then show ?thesis
  proof cases
    case err
    with rd at1 show ?thesis by (auto simp: enqueue_round_def)
  next
    case ok
    with rd have rd': "readManifest p (env (2 * c) s) = (Ok (m, version_at (objs s1) path), s1)" by simp
    have "version_at (objs (env (2 * c + 1) s1)) path = version_at (objs s1) path \<Longrightarrow>
      objs (env (2 * c + 1) s1) path = objs s1 path" using env by (simp add: queue_clients_def)
    note wr = enqueue_round_write [OF st rd' ok(2) at1 at2 this items]
    show ?thesis
    proof (cases "enqueue_round env items c p s")
      case (Done r p' s')
      then obtain err where "r = Returned (c, err)" using wr by (auto split: run.splits option.splits)
      then show ?thesis using wr Done by (cases err) (auto simp del: q_items_simps(3) simp: q_items_simps(3) [symmetric])
    qed (use wr in auto)
  qed
qed

lemma enqueue_loop_grows:
  fixes p :: "'s manifestEnqueuer"
  assumes ret: "enqueue_loop env items c p s = Some (r, p', s')"
    and "me_store p = S" "me_manifestPath p = path" and env: "queue_clients objs path env"
    and items: "list_all item_fits items" "length items < 2 ^ 63"
    and "queue_at (objs s) path (q_items q xs)"
  shows "grown (objs s') path q items r \<and> me_store p' = S \<and> me_manifestPath p' = path"
proof -
  let ?P = "\<lambda>c (p :: 's manifestEnqueuer) s (r, p' :: 's manifestEnqueuer, s').
    me_store p = S \<longrightarrow> me_manifestPath p = path \<longrightarrow> (\<exists>xs. queue_at (objs s) path (q_items q xs)) \<longrightarrow>
    grown (objs s') path q items r \<and> me_store p' = S \<and> me_manifestPath p' = path"
  have "?P c p s (r, p', s')"
  proof (rule enqueue_loop_induct [OF ret, where P = ?P])
    fix c p s r p' s' assume "enqueue_round env items c p s = Done r p' s'"
    then show "?P c p s (r, p', s')"
      using enqueue_round_grows [OF _ _ env items, of p s q _ c]
        enqueue_round_frame [where env = env and items = items and c = c and p = p and s = s] by auto
  next
    fix c p s p1 s1 out assume "enqueue_round env items c p s = Retry p1 s1" "?P (Suc c) p1 s1 out"
    then show "?P c p s out"
      using enqueue_round_grows [OF _ _ env items, of p s q _ c]
        enqueue_round_frame [where env = env and items = items and c = c and p = p and s = s] by auto
  qed
  with assms show ?thesis by auto
qed

lemma enqueueBatch_grows:
  assumes "enqueueBatch env items p s = Some (r, p', s')"
    and "me_store p = S" "me_manifestPath p = path" and "queue_clients objs path env"
    and "list_all item_fits items" "length items < 2 ^ 63"
    and "queue_at (objs s) path (q_items q xs)"
  shows "grown (objs s') path (q_items q xs) items r \<and> me_store p' = S \<and> me_manifestPath p' = path"
proof (cases "items = []")
  case True
  have "queue_at (objs s) path (q_items (q_items q xs) [])" using assms(7) by simp
  then have "\<exists>zs. queue_at (objs s) path (q_items (q_items q xs) zs)" ..
  with assms(1-3) True show ?thesis by (auto simp: enqueueBatch_def)
next
  case False
  then show ?thesis
    using assms enqueue_loop_grows [of env items 0 p s r p' s' path "q_items q xs" "[]"]
    by (simp add: enqueueBatch_def)
qed

end

locale manifest_clients = cas_store S objs for S :: "'s ObjectStore" and objs +
  fixes path :: string and env :: "nat \<Rightarrow> nat \<Rightarrow> 's \<Rightarrow> 's"
  assumes clients: "queue_clients objs path (env a)"
begin

lemma cas_loop_grows:
  assumes "cas_loop env shut items n a tc err p s = Some (Returned (c, err'), p', s')"
    and "n = 0 \<longrightarrow> err \<noteq> None"
    and "me_store (p_enqueuer p) = S" "me_manifestPath (p_enqueuer p) = path"
    and "list_all item_fits items" "length items < 2 ^ 63"
    and "queue_at (objs s) path (q_items q xs)"
  shows "me_store (p_enqueuer p') = S \<and> me_manifestPath (p_enqueuer p') = path \<and>
    (\<exists>zs. queue_at (objs s') path (q_items q (xs @ zs @ (if err' = None then items else []))))"
  using assms
proof (induction n arbitrary: a tc err p s xs)
  case 0
  then show ?case by (auto intro: exI [of _ "[]"])
next
  case (Suc n)
  obtain c1 err1 me1 s1 where
    enq: "enqueueBatch (env a) items (p_enqueuer p) s = Some (Returned (c1, err1), me1, s1)"
    using Suc.prems(1) by (auto split: option.splits run.splits)
  note gr = enqueueBatch_grows [OF enq Suc.prems(3,4) clients Suc.prems(5-7)]
  show ?case
  proof (cases err1)
    case None
    then obtain zs where "queue_at (objs s1) path (q_items (q_items q xs) (zs @ items))" using gr by auto
    then have "queue_at (objs s1) path (q_items q (xs @ zs @ items))" by simp
    with None Suc.prems(1) enq gr show ?thesis by (auto simp: Let_def)
  next
    case (Some e)
    then obtain zs where "queue_at (objs s1) path (q_items (q_items q xs) zs)" using gr by auto
    then have at: "queue_at (objs s1) path (q_items q (xs @ zs))" by simp
    show ?thesis
    proof (cases "n \<noteq> 0 \<and> shut a")
      case True
      with Some Suc.prems(1) enq gr at show ?thesis by (auto simp: Let_def)
    next
      case False
      have rec: "cas_loop env shut items n (a + 1) (tc + c1) err1 (p\<lparr>p_enqueuer := me1\<rparr>) s1 =
          Some (Returned (c, err'), p', s')"
        using Suc.prems(1) enq Some False by (auto simp: Let_def split: if_splits)
      let ?tail = "if err' = None then items else []"
      from Suc.IH [OF rec _ _ _ Suc.prems(5,6) at] Some gr obtain zs' where
        frame: "me_store (p_enqueuer p') = S" "me_manifestPath (p_enqueuer p') = path"
        and "queue_at (objs s') path (q_items q ((xs @ zs) @ zs' @ ?tail))" by (auto simp del: q_items_simps)
      then have "queue_at (objs s') path (q_items q (xs @ (zs @ zs') @ ?tail))" by simp
      with frame show ?thesis by blast
    qed
  qed
qed

lemma casWithRetry_grows:
  assumes "casWithRetry env shut items p s = Some (Returned (c, err'), p', s')"
    and "me_store (p_enqueuer p) = S" "me_manifestPath (p_enqueuer p) = path"
    and "list_all item_fits items" "length items < 2 ^ 63"
    and "queue_at (objs s) path (q_items q xs)"
  shows "me_store (p_enqueuer p') = S \<and> me_manifestPath (p_enqueuer p') = path \<and>
    (\<exists>zs. queue_at (objs s') path (q_items q (xs @ zs @ (if err' = None then items else []))))"
  using cas_loop_grows [OF _ _ assms(2-6)] assms(1)
  by (auto simp: casWithRetry_def Let_def simp del: q_items_simps)

end

definition uc_fits :: "uploadCompletion \<Rightarrow> bool" where
  "uc_fits uc \<longleftrightarrow> list_all item_fits (group_items [uc])"

lemma group_items_fits: "list_all uc_fits grp \<Longrightarrow> list_all item_fits (group_items grp)"
  by (auto simp: uc_fits_def group_items_def list_all_iff)

definition enqueuer_at :: "'s ObjectStore \<Rightarrow> string \<Rightarrow> nat \<Rightarrow> 's Producer \<Rightarrow> bool" where
  "enqueuer_at S path batchSize p \<longleftrightarrow>
     me_store (p_enqueuer p) = S \<and> me_manifestPath (p_enqueuer p) = path \<and> batchSize < 2 ^ 63"

sublocale manifest_clients \<subseteq> appended: commit_log "casWithRetry env shut" batchSize uc_fits
  "enqueuer_at S path batchSize" "\<lambda>s xs. queue_at (objs s) path (q_items q xs)"
  for shut batchSize q
proof unfold_locales
  fix p s xs grp c p' s'
  assume pre: "enqueuer_at S path batchSize p" "queue_at (objs s) path (q_items q xs)" "list_all uc_fits grp"
    "grp \<noteq> []" "length grp \<le> batchSize"
  have len: "length (group_items grp) < 2 ^ 63" using pre(1,5) by (simp add: enqueuer_at_def group_items_def)
  note grows = casWithRetry_grows [OF _ _ _ group_items_fits [OF pre(3)] len pre(2)]
  {
    assume "casWithRetry env shut (group_items grp) p s = Some (Returned (c, None), p', s')"
    from grows [OF this] pre(1)
    show "enqueuer_at S path batchSize p' \<and> (\<exists>ys. queue_at (objs s') path (q_items q (xs @ ys @ group_items grp)))"
      by (simp add: enqueuer_at_def)
  next
    fix e assume "casWithRetry env shut (group_items grp) p s = Some (Returned (c, Some e), p', s')"
    from grows [OF this] pre(1)
    show "enqueuer_at S path batchSize p' \<and> (\<exists>ys. queue_at (objs s') path (q_items q (xs @ ys)))"
      by (simp add: enqueuer_at_def)
  }
qed (auto simp: enqueuer_at_def observe_def)

context manifest_clients
begin

lemma committer_appends:
  assumes "committer_loop (casWithRetry env shut) order batchSize ks ch committer_start p s =
      Some (Returned prs, cm', p', s')"
    and "enqueuer_at S path batchSize p" and "queue_at (objs s) path q" and "list_all uc_fits ch"
    and "order_ok order"
  shows "\<exists>xs. queue_at (objs s') path (q_items q xs) \<and> subseq (committed_items prs) xs"
proof -
  have "enqueuer_at S path batchSize p \<and>
      (\<exists>zs. queue_at (objs s) path (q_items q ([] @ zs)) \<and> subseq (committed_items []) zs)"
    using assms(2,3) by (auto simp: committed_items_def group_items_def intro: exI [of _ "[]"])
  moreover have "\<forall>uc \<in> ran (cm_ready committer_start). uc_fits uc" by (simp add: committer_start_def)
  ultimately show ?thesis
    using appended.logged.committer_loop_invariant [OF assms(1) _ _ assms(5,4), of q "[]" "[]"] by simp
qed

end

text \<open>
  On the in-memory store: other producers commit the batches \<open>its a i\<close>, as far as the format can
  represent them, before the \<open>i\<close>-th store call of attempt \<open>a\<close>.
\<close>

definition rivals :: "string \<Rightarrow> (nat \<Rightarrow> nat \<Rightarrow> enqueueItem list) \<Rightarrow> nat \<Rightarrow> nat \<Rightarrow> InMemory \<Rightarrow> InMemory" where
  "rivals path its a i m =
     (if list_all item_fits (its a i) \<and> length (its a i) < 2 ^ 63 then rival path (its a) i m else m)"

lemma idle_clients: "queue_clients objs path (\<lambda>_ s. s)"
proof -
  have "\<exists>zs. queue_at (objs s) path (q_items q zs)" if "queue_at (objs s) path q" for s q
    by (rule exI [of _ "[]"]) (use that in simp)
  then show ?thesis by (simp add: queue_clients_def)
qed

lemma rivals_clients: "queue_clients InMemory_objects path (rivals path its a)"
  unfolding queue_clients_def
proof (intro conjI allI impI)
  fix i m q assume at: "queue_at (InMemory_objects m) path q"
  then have idle: "\<exists>zs. queue_at (InMemory_objects m) path (q_items q zs)"
    by (intro exI [of _ "[]"]) simp
  show "\<exists>zs. queue_at (InMemory_objects (rivals path its a i m)) path (q_items q zs)"
  proof (cases "enqueueBatch (\<lambda>_ m. m) (its a i) (newManifestEnqueuer InMemory_store path) m")
    case (Some out)
    then obtain r p' m' where out: "out = (r, p', m')" by (cases out)
    show ?thesis
    proof (cases "list_all item_fits (its a i) \<and> length (its a i) < 2 ^ 63")
      case True
      from mem.enqueueBatch_grows [OF Some [unfolded out] _ _ idle_clients, of path q "[]"] True at
      have "grown (InMemory_objects m') path q (its a i) r" by simp
      then have "\<exists>zs. queue_at (InMemory_objects m') path (q_items q zs)"
        by (cases r) (auto simp: grown_def simp del: q_items_simps split: option.splits)
      then show ?thesis using Some out True by (simp add: rivals_def rival_def)
    qed (use idle in \<open>auto simp: rivals_def\<close>)
  qed (use idle in \<open>auto simp: rivals_def rival_def\<close>)
next
  fix i m assume "version_at (InMemory_objects (rivals path its a i m)) path = version_at (InMemory_objects m) path"
  then show "InMemory_objects (rivals path its a i m) path = InMemory_objects m path"
    using rival_appends_only [of path "its a"] by (auto simp: rivals_def appends_only_def)
qed

interpretation mem_clients: manifest_clients InMemory_store InMemory_objects path "rivals path its" for path its
  by unfold_locales (rule rivals_clients)


section \<open>Totality\<close>

definition cas_returns :: "'s ObjectStore \<Rightarrow> 's cas_call \<Rightarrow> bool" where
  "cas_returns S cas \<longleftrightarrow> (\<forall>items p s. me_store (p_enqueuer p) = S \<longrightarrow>
     (\<exists>c e p' s'. cas items p s = Some (Returned (c, e), p', s') \<and> me_store (p_enqueuer p') = S))"

lemma commit_group_total:
  assumes "cas_returns S cas" and "me_store (p_enqueuer p) = S"
  shows "\<exists>e p' s'. commit_group cas grp p s = Some (Returned e, p', s') \<and> me_store (p_enqueuer p') = S"
proof (cases "grp = []")
  case False
  from assms obtain c e p' s' where "cas (group_items grp) p s = Some (Returned (c, e), p', s')"
    "me_store (p_enqueuer p') = S" unfolding cas_returns_def by blast
  then show ?thesis using False by (simp add: commit_group_def Let_def observe_def)
qed (use assms in \<open>simp add: commit_group_def\<close>)

lemma drain_total:
  assumes "cas_returns S cas" and "me_store (p_enqueuer p) = S"
  shows "\<exists>prs cm' p' s'. drain cas order batchSize cm p s = Some (Returned prs, cm', p', s') \<and>
    me_store (p_enqueuer p') = S"
  using assms
proof (induction "card (dom (cm_ready cm))" arbitrary: cm p s rule: less_induct)
  case less
  obtain next' ready' grp failed where
    col: "collect batchSize (cm_next cm) (cm_ready cm) [] [] = (next', ready', grp, failed)"
    by (metis prod_cases4)
  obtain e0 p0 s0 where grp: "commit_group cas grp p s = Some (Returned e0, p0, s0)"
    and p0: "me_store (p_enqueuer p0) = S" using commit_group_total [OF less.prems] by blast
  from col show ?case
  proof (cases rule: drain_cases [where cas = cas and order = order and p = p and s = s])
    case nothing
    then show ?thesis using less.prems(2) by simp
  next
    case (halts e p1 s1)
    then show ?thesis using grp p0 by (simp add: enterHalted_def Let_def observe_def)
  next
    case (goes_on casErr p1 s1)
    let ?cm1 = "cm\<lparr>cm_next := next', cm_ready := ready'\<rparr>"
    have "card (dom (cm_ready ?cm1)) < card (dom (cm_ready cm))"
      using collect_card [OF col] goes_on(3) by simp
    from less.hyps [OF this less.prems(1), of p1 s1] goes_on(1) grp p0 show ?thesis
      unfolding goes_on(4) by (auto simp: prefix_resolutions_def)
  qed (use grp in auto)
qed

lemma committer_iter_total:
  assumes "cas_returns S cas" and "me_store (p_enqueuer p) = S"
  shows "\<exists>prs cm' p' s'. committer_iter cas order batchSize uc further cm p s = Some (Returned prs, cm', p', s') \<and>
    me_store (p_enqueuer p') = S"
proof -
  let ?cm1 = "fold put_ready further (put_ready uc cm)"
  let ?cm2 = "if \<not> (cm_ready ?cm1 (cm_next ?cm1) \<noteq> None) \<and> \<not> cm_holStarted ?cm1
    then ?cm1\<lparr>cm_holStarted := True\<rparr> else ?cm1"
  obtain prs cm2 p2 s2 where dr: "drain cas order batchSize ?cm2 p s = Some (Returned prs, cm2, p2, s2)"
    and "me_store (p_enqueuer p2) = S" using drain_total [OF assms] by blast
  then show ?thesis
    unfolding committer_iter_def Let_def dr by (simp add: observe_def split: if_splits)
qed

lemma committer_loop_total:
  assumes "cas_returns S cas" and "me_store (p_enqueuer p) = S"
  shows "\<exists>prs cm' p' s'. committer_loop cas order batchSize ks ch cm p s = Some (Returned prs, cm', p', s')"
  using assms
proof (induction "length ch" arbitrary: ks ch cm p s rule: less_induct)
  case less
  show ?case
  proof (cases ch)
    case Nil
    then show ?thesis using drain_total [OF less.prems] by fastforce
  next
    case (Cons uc ch1)
    let ?k = "case ks of [] \<Rightarrow> 0 | k # _ \<Rightarrow> k"
    obtain prs cm1 p1 s1 where
      it: "committer_iter cas order batchSize uc (take ?k ch1) cm p s = Some (Returned prs, cm1, p1, s1)"
      and p1: "me_store (p_enqueuer p1) = S" using committer_iter_total [OF less.prems] by blast
    have "length ch1 < length ch" "length (drop ?k ch1) < length ch" using Cons by simp_all
    note ih = less.hyps [OF this(1) less.prems, of ks cm s] less.hyps [OF this(2) less.prems(1) p1, of "tl ks" cm1 s1]
    show ?thesis
    proof (cases "cm_halted cm")
      case True
      then show ?thesis using ih(1) Cons by (auto simp: prefix_resolutions_def)
    next
      case False
      then show ?thesis using it ih(2) Cons by (auto simp: Let_def prefix_resolutions_def)
    qed
  qed
qed

lemma enqueueBatch_store:
  fixes p :: "'s manifestEnqueuer"
  assumes "enqueueBatch env items p s = Some (r, p', s')"
  shows "me_store p' = me_store p"
proof (cases "items = []")
  case False
  then have ret: "enqueue_loop env items 0 p s = Some (r, p', s')" using assms by (simp add: enqueueBatch_def)
  let ?P = "\<lambda>(c :: nat) (p :: 's manifestEnqueuer) (s :: 's) (r :: enqueue_result, p' :: 's manifestEnqueuer, s' :: 's).
    me_store p' = me_store p"
  have "?P 0 p s (r, p', s')"
    using enqueue_round_frame [where env = env and items = items]
    by (intro enqueue_loop_induct [OF ret, where P = ?P]) (fastforce split: prod.splits round.splits)+
  then show ?thesis by simp
qed (use assms in \<open>simp add: enqueueBatch_def\<close>)

lemma cas_loop_returns:
  assumes "cas_store S objs" and "\<forall>a items me s. me_store me = S \<longrightarrow> enqueueBatch (env a) items me s \<noteq> None"
    and "me_store (p_enqueuer p) = S"
  shows "\<exists>c e p' s'. cas_loop env shut items n a tc err p s = Some (Returned (c, e), p', s') \<and>
    me_store (p_enqueuer p') = S"
  using assms(3)
proof (induction n arbitrary: a tc err p s)
  case (Suc n)
  obtain r me' s1 where enq: "enqueueBatch (env a) items (p_enqueuer p) s = Some (r, me', s1)"
    using assms(2) Suc.prems by (metis not_None_eq prod_cases3)
  have "r \<noteq> Panicked"
    using enq enqueue_loop_not_Panicked [of "p_enqueuer p" objs] assms(1) Suc.prems
    by (auto simp: enqueueBatch_def split: if_splits)
  then obtain c1 err1 where r: "r = Returned (c1, err1)" by (cases r) auto
  have "me_store (p_enqueuer (p\<lparr>p_enqueuer := me'\<rparr>)) = S" using enqueueBatch_store [OF enq] Suc.prems by simp
  from Suc.IH [OF this] this show ?case
    using enq r by (cases err1) (auto simp: Let_def)
qed simp

lemma casWithRetry_returns:
  assumes "cas_store S objs" and "\<forall>a items me s. me_store me = S \<longrightarrow> enqueueBatch (env a) items me s \<noteq> None"
  shows "cas_returns S (casWithRetry env shut)"
  unfolding cas_returns_def casWithRetry_def Let_def using cas_loop_returns [OF assms] by blast


context exact_store
begin

lemma readManifest_version:
  assumes "me_store p = S" and "readManifest p s = (Ok (m, v), s')"
  shows "objs s' = objs s \<and> v = version_at (objs s) (me_manifestPath p)"
proof -
  obtain r s1 where get: "os_Get S (me_manifestPath p) s = (r, s1)" by fastforce
  have "objs s1 = objs s" by (rule get_frame [OF get])
  then show ?thesis
    using assms get get_found [of "me_manifestPath p" s] get_missing [of "me_manifestPath p" s]
    by (cases r) (auto simp: readManifest_def version_at_def split: res.splits if_splits)
qed

lemma alone_never_retries:
  assumes "me_store p = S"
  shows "enqueue_round (\<lambda>_ s. s) items c p s \<noteq> Retry p' s'"
proof (cases "readManifest p s")
  case (Pair r s1)
  show ?thesis
  proof (cases r)
    case (Ok mv)
    then obtain m v where mv: "r = Ok (m, v)" by (cases mv) auto
    with readManifest_version [OF assms] Pair have
      "objs s1 = objs s" and v: "v = version_at (objs s) (me_manifestPath p)" by auto
    then have "fst (os_PutIfMatch S (me_manifestPath p) d v s1) = None" for d using cas_hit by simp
    then obtain f where "os_PutIfMatch S (me_manifestPath p) d v s1 = (None, f d)" for d
      using that [of "\<lambda>d. snd (os_PutIfMatch S (me_manifestPath p) d v s1)"] by (simp add: prod_eq_iff)
    then show ?thesis
      using Pair mv assms by (auto simp: enqueue_round_def Let_def split: res.splits)
  qed (use Pair in \<open>simp_all add: enqueue_round_def\<close>)
qed

lemma enqueueBatch_alone_returns:
  assumes "me_store p = S"
  shows "enqueueBatch (\<lambda>_ s. s) items p s \<noteq> None"
proof -
  have "enqueue_loop (\<lambda>_ s. s) items 0 p s \<noteq> None"
    by (subst enqueue_loop.simps) (use alone_never_retries [OF assms] in \<open>simp split: round.splits\<close>)
  then show ?thesis by (simp add: enqueueBatch_def)
qed

end

section \<open>A run of the committer\<close>

definition sample_uc :: "u64 \<Rightarrow> string \<Rightarrow> gerror option \<Rightarrow> uploadCompletion" where
  "sample_uc n loc err =
     \<lparr>uc_eb = \<lparr>eb_ordinal = n, eb_payload = [], eb_metadata = [], eb_watchers = [unat n],
        eb_stats = \<lparr>fs_Inputs = 1, fs_Entries = 1, fs_UncompressedBytes = 1, fs_Age = 0\<rparr>,
        eb_reason = FlushReasonTime, eb_flushAck = None, eb_location = loc, eb_size = 0,
        eb_pipelineStartedAt = 0, eb_byteCost = 0\<rparr>,
      uc_putError = err, uc_encodeFailed = False\<rparr>"

text \<open>Three completions out of order, one of them a failed upload.\<close>

definition sample_completions :: "uploadCompletion list" where
  "sample_completions =
     [sample_uc 1 ''b'' None, sample_uc 2 ''c'' (Some (storageErr ''down'')), sample_uc 0 ''a'' None]"

definition sample_producer :: "InMemory Producer" where
  "sample_producer = NewProducer InMemory_store DefaultProducerConfig ''r''"

lemma below_three: "{n :: u64. n < 3} = {0, 1, 2}"
proof -
  have u: "unat (0 :: u64) = 0" "unat (1 :: u64) = 1" "unat (2 :: u64) = 2" "unat (3 :: u64) = 3"
    by simp_all
  have "n < 3 \<longleftrightarrow> n = 0 \<or> n = 1 \<or> n = 2" for n :: u64
    unfolding word_less_nat_alt word_unat_eq_iff u by linarith
  then show ?thesis by blast
qed

lemma sample_ordinals:
  "distinct (map ordinal_of sample_completions)" "set (map ordinal_of sample_completions) = {n. n < 3}"
  unfolding below_three by (auto simp: sample_completions_def sample_uc_def ordinal_of_def)

lemma sorted_order_ok: "order_ok sorted_list_of_set"
  by (simp add: order_ok_def)


lemma sample_store: "me_store (p_enqueuer sample_producer) = InMemory_store"
  by (simp add: sample_producer_def)

section \<open>Properties\<close>



text \<open>
  C14. Committed batches are in the manifest in the order in which the rotator sealed them: while other
  producers append to the same manifest, what the committer leaves there is the initial queue followed
  by entries among which all committed batches appear in the order of their ordinals, one entry each
  at least.
\<close>

theorem committer_preserves_order:
  assumes "cas_store S objs" and "\<forall>a. queue_clients objs path (env a)"
    and "enqueuer_at S path (batch_size p) p" and "queue_at (objs s) path q" and "list_all uc_fits ch"
    and "order_ok order" and "distinct (map ordinal_of ch)" and "set (map ordinal_of ch) = {n. n < N}"
    and "manifestCommitter (casWithRetry env shut) order ks ch p s = Some (Returned prs, cm', p', s')"
  shows "\<exists>xs. queue_at (objs s') path (q_items q xs) \<and> subseq (committed_items prs) xs \<and>
    sorted_wrt (<) (map ordinal_of (map pr_uc (filter (\<lambda>pr. pr_err pr = None) prs)))"
proof -
  note ret = assms(9) [unfolded manifestCommitter_def]
  have mc: "manifest_clients S objs path env"
    using assms(1,2) by (simp add: manifest_clients_def manifest_clients_axioms_def)
  have "0 < batch_size p" by (simp add: batch_size_def Let_def)
  from committer_loop_outcome [OF assms(6) this ret, of "{}" N] assms(7,8)
  have "sorted_wrt (<) (map ordinal_of (map pr_uc (filter (\<lambda>pr. pr_err pr = None) prs)))"
    by (auto simp: committer_start_def tracks_def keyed_def between_def)
  with manifest_clients.committer_appends [OF mc ret assms(3,4,5,6)] show ?thesis by blast
qed

theorem committer_preserves_order_witness:
  "\<exists>prs cm' p' s' xs. manifestCommitter (casWithRetry (\<lambda>_ _ m. m) (\<lambda>_. False)) sorted_list_of_set [1, 0]
      sample_completions sample_producer NewInMemory = Some (Returned prs, cm', p', s') \<and>
    queue_at (InMemory_objects s') (cfg_ManifestPath DefaultProducerConfig) (q_items q_empty xs) \<and>
    subseq (committed_items prs) xs \<and>
    sorted_wrt (<) (map ordinal_of (map pr_uc (filter (\<lambda>pr. pr_err pr = None) prs)))"
proof -
  let ?path = "cfg_ManifestPath DefaultProducerConfig"
  have alone: "\<forall>a items me s. me_store me = InMemory_store \<longrightarrow>
      enqueueBatch ((\<lambda>_ _ m. m) a) items me (s :: InMemory) \<noteq> None"
    using mem.enqueueBatch_alone_returns by blast
  obtain prs cm' p' s' where
    ret: "manifestCommitter (casWithRetry (\<lambda>_ _ m. m) (\<lambda>_. False)) sorted_list_of_set [1, 0]
      sample_completions sample_producer NewInMemory = Some (Returned prs, cm', p', s')"
    using committer_loop_total [OF casWithRetry_returns [OF mem.cas_store_axioms alone] sample_store]
    unfolding manifestCommitter_def by blast
  have at: "enqueuer_at InMemory_store ?path (batch_size sample_producer) sample_producer"
    by (simp add: enqueuer_at_def batch_size_def sample_producer_def Let_def apply_defaults_def
        DefaultProducerConfig_def DefaultManifestAppendBatchSize_def)
  have fits: "list_all uc_fits sample_completions"
    by (simp add: uc_fits_def sample_completions_def sample_uc_def group_items_def item_fits_def
        entry_fits_def entry_checked_def length_entry_body item_entry_def)
  show ?thesis
    using committer_preserves_order [OF mem.cas_store_axioms _ at NewInMemory_queue fits sorted_order_ok
        sample_ordinals ret] idle_clients ret by blast
qed


text \<open>
  A store that, once, applies a conditional write and then loses the answer: the contract allows it,
  as a failed write may have taken effect.
\<close>

definition lossy_store :: "(bool \<times> InMemory) ObjectStore" where
  "lossy_store =
     \<lparr>os_Get = (\<lambda>p (b, m). let (r, m') = os_Get InMemory_store p m in (r, (b, m'))),
      os_Put = (\<lambda>p d (b, m). let (r, m') = os_Put InMemory_store p d m in (r, (b, m'))),
      os_PutIfMatch = (\<lambda>p d v (b, m). let (r, m') = os_PutIfMatch InMemory_store p d v m in
         (if \<not> b \<and> r = None then Some (storageErr ''timeout'') else r, (True, m'))),
      os_Delete = (\<lambda>p (b, m). let (r, m') = os_Delete InMemory_store p m in (r, (b, m')))\<rparr>"

lemma lossy_ops:
  "os_Get lossy_store p (b, m) = (r, s') \<Longrightarrow> \<exists>m'. os_Get InMemory_store p m = (r, m') \<and> s' = (b, m')"
  "os_Put lossy_store p d (b, m) = (e, s') \<Longrightarrow> \<exists>m'. os_Put InMemory_store p d m = (e, m') \<and> s' = (b, m')"
  "os_Delete lossy_store p (b, m) = (e, s') \<Longrightarrow> \<exists>m'. os_Delete InMemory_store p m = (e, m') \<and> s' = (b, m')"
  "os_PutIfMatch lossy_store p d v (b, m) = (e, s') \<Longrightarrow> \<exists>e0 m'. os_PutIfMatch InMemory_store p d v m = (e0, m') \<and>
     s' = (True, m') \<and> (e = e0 \<or> e0 = None \<and> e = Some (storageErr ''timeout''))"
  by (auto simp: lossy_store_def Let_def split: prod.splits if_splits)

lemma lossy_cas_store: "cas_store lossy_store (\<lambda>s. InMemory_objects (snd s))"
proof (unfold_locales, goal_cases)
  case (1 p s r s')
  then show ?case using lossy_ops(1) [of p "fst s" "snd s" r s'] mem.get_frame by auto
next
  case (2 p s g s')
  then show ?case using lossy_ops(1) [of p "fst s" "snd s" "Ok g" s'] mem.get_found by auto
next
  case (3 p s e s')
  then show ?case using lossy_ops(1) [of p "fst s" "snd s" "Err e" s'] mem.get_missing by auto
next
  case (4 p s)
  then show ?case
    using lossy_ops(1) [of p "fst s" "snd s" "fst (os_Get lossy_store p s)" "snd (os_Get lossy_store p s)"]
      mem.get_returns [of p "snd s"] by auto
next
  case (5 p d s s')
  then show ?case using lossy_ops(2) [of p d "fst s" "snd s" None s'] mem.put_ok by auto
next
  case (6 p d s e s')
  then show ?case using lossy_ops(2) [of p d "fst s" "snd s" "Some e" s'] mem.put_error [of p d "snd s" e] by auto
next
  case (7 p d v s s')
  then show ?case using lossy_ops(4) [of p d v "fst s" "snd s" None s'] mem.cas_ok by auto
next
  case (8 p d v s e s')
  then show ?case
    using lossy_ops(4) [of p d v "fst s" "snd s" "Some e" s'] mem.cas_conflict by auto
next
  case (9 p d v s e s')
  then show ?case
    using lossy_ops(4) [of p d v "fst s" "snd s" "Some e" s'] mem.cas_error [of p d v "snd s" e]
      mem.cas_ok [of p d v "snd s"] by auto
next
  case (10 p s s')
  then show ?case using lossy_ops(3) [of p "fst s" "snd s" None s'] mem.delete_ok by auto
qed


end
