(* ===== verification/Resolver.thy ===== *)
theory Resolver
  imports Producer
begin

text \<open>
  The watcher resolver of \<^verbatim>\<open>buffer/producer.go\<close>: the goroutine that ends the life of every batch.
  It reports the outcome, resolves the batch's watchers, answers a flush request and returns the
  batch's reservation to the budget.
\<close>

definition resolver_body :: "resolverItem \<Rightarrow> 's Producer \<Rightarrow> 's Producer res" where
  "resolver_body ri p =
     (let p = observe [OnFlush (ri_reason ri) (ri_stats ri) (ri_err ri), OnBatchOutcome (ri_outcome ri)] p in
      obind (watchers_resolve (ri_watchers ri) (ri_err ri) p) (\<lambda>p.
      obind (budget_release (ri_byteCost ri) 1 (send_ack (ri_flushAck ri) (ri_err ri) p)) (\<lambda>p.
      Ok (emitInflightSnapshot p))))"

text \<open>The loop over what arrives on \<^verbatim>\<open>resolverCh\<close> until it is closed.\<close>

fun watcherResolver :: "resolverItem list \<Rightarrow> 's Producer \<Rightarrow> 's Producer res" where
  "watcherResolver [] p = Ok p"
| "watcherResolver (ri # ris) p = obind (resolver_body ri p) (watcherResolver ris)"

section \<open>Effect on the shared state\<close>

lemma resolver_body_effect:
  assumes "producer_ok p"
  shows "\<exists>p'. resolver_body ri p = Ok p' \<and> producer_ok p' \<and>
    p_watchers p' = (\<lambda>w. if w \<in> set (ri_watchers ri) then resolved (ri_err ri) (p_watchers p w) else p_watchers p w) \<and>
    p_flushAcks p' = p_flushAcks p @ (case ri_flushAck ri of None \<Rightarrow> [] | Some a \<Rightarrow> [(a, ri_err ri)]) \<and>
    bytesUsed (p_budget p') = max 0 (bytesUsed (p_budget p) - ri_byteCost ri) \<and>
    batchesUsed (p_budget p') = max 0 (batchesUsed (p_budget p) - 1) \<and>
    maxBatches (p_budget p') = maxBatches (p_budget p) \<and> p_config p' = p_config p \<and> p_store p' = p_store p \<and>
    p_enqueuer p' = p_enqueuer p \<and> p_runID p' = p_runID p \<and> p_halted p' = p_halted p"
proof -
  let ?p1 = "observe [OnFlush (ri_reason ri) (ri_stats ri) (ri_err ri), OnBatchOutcome (ri_outcome ri)] p"
  have ok: "producer_ok ?p1" and eq: "p_watchers ?p1 = p_watchers p" using assms by simp_all
  note ws = watchers_resolve_Ok [OF ok, of "ri_watchers ri" "ri_err ri", unfolded eq]
    producer_ok_resolved [OF ok, of "ri_watchers ri" "ri_err ri", unfolded eq]
  define p2 where "p2 = send_ack (ri_flushAck ri) (ri_err ri) (?p1\<lparr>p_watchers :=
    (\<lambda>w. if w \<in> set (ri_watchers ri) then resolved (ri_err ri) (p_watchers p w) else p_watchers p w)\<rparr>)"
  have "producer_ok p2" unfolding p2_def producer_ok_frame by (rule ws(2))
  from budget_release_effect [OF this, of 1 "ri_byteCost ri"] obtain b h where
    rel: "budget_release (ri_byteCost ri) 1 p2 = Ok (p2\<lparr>p_budget := b, p_signals := h\<rparr>)"
    "producer_ok (p2\<lparr>p_budget := b, p_signals := h\<rparr>)"
    "bytesUsed b = max 0 (bytesUsed (p_budget p2) - ri_byteCost ri)"
    "batchesUsed b = max 0 (batchesUsed (p_budget p2) - 1)" "maxBatches b = maxBatches (p_budget p2)"
    by (metis zero_le_one)
  have "resolver_body ri p = Ok (emitInflightSnapshot (p2\<lparr>p_budget := b, p_signals := h\<rparr>))"
    unfolding resolver_body_def Let_def ws(1) obind.simps p2_def [symmetric] rel(1) ..
  then show ?thesis using rel(2-5) by (simp add: emitInflightSnapshot_eq p2_def)
qed

end
