(* ===== verification/Pipeline.thy ===== *)
theory Pipeline
  imports Rotator Commits Resolver
begin

text \<open>
  The whole producer of \<^verbatim>\<open>buffer/producer.go\<close> running: the goroutines started by
  \<^verbatim>\<open>NewProducer\<close>, the callers of \<^verbatim>\<open>Append\<close>, \<^verbatim>\<open>Flush\<close> and \<^verbatim>\<open>Close\<close>, the
  channels between them and the store.  The state is a record; an action is what one goroutine does
  between two points where it can block, and \<open>exec\<close> performs one.  An action that cannot happen
  gives \<open>None\<close>.

  A value sent on an unbuffered channel stays with its sender until a receiver takes it
  (\<open>pl_rotOut\<close>, \<open>EncOut\<close>, \<open>pl_cmOut\<close>).  An action that needs capacity of the budget happens when
  there is capacity, or after the shutdown signal; how the waits themselves are woken is the subject of
  \<open>Budget\<close>.  Uploads and manifest writes are one action each, with the steps of other clients of the
  store between their calls as an argument.
\<close>

section \<open>State\<close>

datatype encoder_state =
    EncIdle
  | EncHas pendingBatch
  | EncFailed uploadCompletion
  | EncOut encodedBatch

datatype uploader_state =
    UplIdle
  | UplHas encodedBatch
  | UplOut uploadCompletion

text \<open>
  \<open>pl_sending\<close> are the messages of the \<^verbatim>\<open>AppendContext\<close> calls that hold a reservation and are in
  their \<^verbatim>\<open>select\<close>.  \<open>pl_draining\<close> is set while the committer is in \<^verbatim>\<open>drain\<close>, to the value of
  \<^verbatim>\<open>willAdvance\<close>.  \<open>pl_rotExit\<close>: the rotator has left its loop.
\<close>

record 's pipeline =
  pl_prod :: "'s Producer"
  pl_store :: 's
  pl_sending :: "appendMessage list"
  pl_appendCh :: "appendMessage list"
  pl_closed :: bool
  pl_rot :: rotator
  pl_rotOut :: "pendingBatch option"
  pl_rotExit :: bool
  pl_encs :: "encoder_state list"
  pl_upls :: "uploader_state list"
  pl_comp :: "uploadCompletion list"
  pl_cm :: committer
  pl_draining :: "bool option"
  pl_cmOut :: "resolverItem list"
  pl_res :: "resolverItem option"
  pl_shutdown :: bool
  pl_nextWatcher :: nat
  pl_nextAck :: nat
  pl_panicked :: bool

text \<open>\<^verbatim>\<open>NewProducer\<close> with its worker pools; a concurrency below 1 is 1.\<close>

definition pool_size :: "int \<Rightarrow> nat" where
  "pool_size n = nat (if n < 1 then 1 else n)"

definition start :: "'s ObjectStore \<Rightarrow> ProducerConfig \<Rightarrow> string \<Rightarrow> 's \<Rightarrow> 's pipeline" where
  "start store config runID s =
     (let p = NewProducer store config runID in
      \<lparr>pl_prod = p, pl_store = s, pl_sending = [], pl_appendCh = [], pl_closed = False,
       pl_rot = rotator_start, pl_rotOut = None, pl_rotExit = False,
       pl_encs = replicate (pool_size (cfg_EncodeConcurrency (p_config p))) EncIdle,
       pl_upls = replicate (pool_size (cfg_UploadConcurrency (p_config p))) UplIdle,
       pl_comp = [], pl_cm = committer_start, pl_draining = None, pl_cmOut = [], pl_res = None,
       pl_shutdown = False, pl_nextWatcher = 0, pl_nextAck = 0, pl_panicked = False\<rparr>)"

text \<open>Capacities of the buffered channels; a rendezvous is a send that is received at once.\<close>

definition append_cap :: "'s pipeline \<Rightarrow> nat" where
  "append_cap st = max 1 (nat (cfg_MaxBufferedInputs (p_config (pl_prod st))))"

definition completion_cap :: "'s pipeline \<Rightarrow> nat" where
  "completion_cap st =
     (let completionBuf = cfg_MaxInFlightBatches (p_config (pl_prod st)) in
      nat (if completionBuf < 1 then 1 else completionBuf))"

definition crash :: "'s pipeline \<Rightarrow> 's pipeline" where
  "crash st = st\<lparr>pl_panicked := True\<rparr>"

section \<open>Append\<close>

text \<open>What \<^verbatim>\<open>AppendContext\<close> checks before it reserves anything.\<close>

definition AppendContext_check :: "bytes list \<Rightarrow> 's Producer \<Rightarrow> gerror option" where
  "AppendContext_check entries p =
     (if length entries = 0 then Some (invalidInputErr ''entries must not be empty'')
      else if p_halted p then Some ErrProducerHalted
      else None)"

text \<open>
  A call of \<^verbatim>\<open>AppendContext\<close> that passed its checks, up to its \<^verbatim>\<open>select\<close>: one attempt of the
  byte reservation, and on success the message with its new watcher.  A call that has to wait sends
  nothing and attempts again; it does not look at \<^verbatim>\<open>halted\<close> again.
\<close>

definition AppendContext_reserve ::
  "bytes list \<Rightarrow> bytes \<Rightarrow> u64 \<Rightarrow> 's pipeline \<Rightarrow> 's pipeline option" where
  "AppendContext_reserve entries metadata now st =
     (let p = pl_prod st in
      if length entries = 0 then None
      else let byteCost = appendByteCost entries metadata in
        (case reserve_attempt byteCost (p_budget p) (p_signals p) of
           (WaitOn c, b, h) \<Rightarrow> Some (st\<lparr>pl_prod := p\<lparr>p_budget := b, p_signals := h\<rparr>\<rparr>)
         | (Granted, b, h) \<Rightarrow>
             let p = emitInflightSnapshot (p\<lparr>p_budget := b, p_signals := h\<rparr>);
                 msg = \<lparr>am_entries = entries, am_metadata = metadata, am_ingestionTimeMs = now,
                        am_watcher = pl_nextWatcher st, am_byteCost = byteCost\<rparr>
             in Some (st\<lparr>pl_prod := p, pl_sending := pl_sending st @ [msg],
                         pl_nextWatcher := pl_nextWatcher st + 1\<rparr>)))"

definition remove_at :: "nat \<Rightarrow> 'a list \<Rightarrow> 'a list" where
  "remove_at i xs = take i xs @ drop (Suc i) xs"

text \<open>The send case of the \<^verbatim>\<open>select\<close>; sending on a closed channel panics.\<close>

definition AppendContext_send :: "nat \<Rightarrow> 's pipeline \<Rightarrow> 's pipeline option" where
  "AppendContext_send i st =
     (if i \<ge> length (pl_sending st) then None
      else if pl_closed st then Some (crash st)
      else if length (pl_appendCh st) < append_cap st
      then let ch = pl_appendCh st @ [pl_sending st ! i] in
        Some (st\<lparr>pl_sending := remove_at i (pl_sending st), pl_appendCh := ch,
                 pl_prod := observe [OnAppendChBlock, OnAccepted, OnQueueDepth StageAppend (int (length ch))]
                   (pl_prod st)\<rparr>)
      else None)"

text \<open>The two other cases: the context is done, or the rotator has exited.\<close>

definition AppendContext_giveup :: "nat \<Rightarrow> 's pipeline \<Rightarrow> 's pipeline option" where
  "AppendContext_giveup i st =
     (if i \<ge> length (pl_sending st) then None
      else case budget_release (am_byteCost (pl_sending st ! i)) 0 (pl_prod st) of
          Ok p \<Rightarrow> Some (st\<lparr>pl_sending := remove_at i (pl_sending st), pl_prod := emitInflightSnapshot p\<rparr>)
        | _ \<Rightarrow> Some (crash st))"

section \<open>Rotator\<close>

datatype rotator_case = CaseMessage | CaseClosed | CaseFlush | CaseTimer

text \<open>What the rotator's \<^verbatim>\<open>select\<close> can receive, and what remains in \<^verbatim>\<open>appendCh\<close>.\<close>

fun rotator_receives ::
  "rotator_case \<Rightarrow> int \<Rightarrow> 's pipeline \<Rightarrow> (rotator_event \<times> appendMessage list) option" where
  "rotator_receives CaseMessage now st =
     (case pl_appendCh st of [] \<Rightarrow> None | m # ch \<Rightarrow> Some (AppendRecv m, ch))"
| "rotator_receives CaseClosed now st =
     (if pl_closed st \<and> pl_appendCh st = [] then Some (AppendClosed, []) else None)"
| "rotator_receives CaseFlush now st =
     Some (FlushRecv (pl_nextAck st) (map (\<lambda>m. (now, m)) (pl_appendCh st)), [])"
| "rotator_receives CaseTimer now st =
     (if ba_started (rt_batch (pl_rot st)) then Some (TimerFired, pl_appendCh st) else None)"

text \<open>The iteration would block in \<^verbatim>\<open>acquireBatchSlot\<close>.\<close>

definition rotator_blocks :: "int \<Rightarrow> rotator_event \<Rightarrow> 's pipeline \<Rightarrow> bool" where
  "rotator_blocks now ev st =
     (case rotator_select now ev (pl_rot st) (pl_prod st) of
        (None, _, _) \<Rightarrow> False
      | (Some _, rt, p) \<Rightarrow> \<not> batch_isEmpty (rt_batch rt) \<and>
          \<not> batchesUsed (p_budget p) < maxBatches (p_budget p) \<and> \<not> pl_shutdown st)"

definition rotator_step :: "rotator_case \<Rightarrow> int \<Rightarrow> 's pipeline \<Rightarrow> 's pipeline option" where
  "rotator_step cs now st =
     (if pl_rotOut st \<noteq> None \<or> pl_rotExit st then None
      else case rotator_receives cs now st of
          None \<Rightarrow> None
        | Some (ev, ch) \<Rightarrow>
            if rotator_blocks now ev st then None
            else (case rotator_iter try_acquire now ev (pl_rot st) (pl_prod st) of
                Ok (out, rt, p) \<Rightarrow>
                  Some (st\<lparr>pl_prod := p, pl_rot := rt, pl_appendCh := ch,
                    pl_rotOut := (case out of Emitted pb \<Rightarrow> Some pb | _ \<Rightarrow> None),
                    pl_rotExit := (cs = CaseClosed),
                    pl_nextAck := (if cs = CaseFlush then pl_nextAck st + 1 else pl_nextAck st)\<rparr>)
              | _ \<Rightarrow> Some (crash st)))"

section \<open>Encoder and uploader pools\<close>

definition encoder_take :: "nat \<Rightarrow> 's pipeline \<Rightarrow> 's pipeline option" where
  "encoder_take i st =
     (if i \<ge> length (pl_encs st) then None
      else case (pl_rotOut st, pl_encs st ! i) of
          (Some pb, EncIdle) \<Rightarrow> Some (st\<lparr>pl_rotOut := None, pl_encs := (pl_encs st)[i := EncHas pb]\<rparr>)
        | _ \<Rightarrow> None)"

definition encoder_run :: "zstd_lib \<Rightarrow> nat \<Rightarrow> int \<Rightarrow> nat \<Rightarrow> 's pipeline \<Rightarrow> 's pipeline option" where
  "encoder_run z i now depth st =
     (if i \<ge> length (pl_encs st) then None
      else case pl_encs st ! i of
          EncHas pb \<Rightarrow>
            (case encoder_body z now depth pb (pl_prod st) of
               Ok (Inl uc, p) \<Rightarrow> Some (st\<lparr>pl_prod := p, pl_encs := (pl_encs st)[i := EncFailed uc]\<rparr>)
             | Ok (Inr eb, p) \<Rightarrow> Some (st\<lparr>pl_prod := p, pl_encs := (pl_encs st)[i := EncOut eb]\<rparr>)
             | _ \<Rightarrow> Some (crash st))
        | _ \<Rightarrow> None)"

definition encoder_fail :: "nat \<Rightarrow> 's pipeline \<Rightarrow> 's pipeline option" where
  "encoder_fail i st =
     (if i \<ge> length (pl_encs st) then None
      else case pl_encs st ! i of
          EncFailed uc \<Rightarrow>
            if length (pl_comp st) < completion_cap st
            then Some (st\<lparr>pl_encs := (pl_encs st)[i := EncIdle], pl_comp := pl_comp st @ [uc]\<rparr>)
            else None
        | _ \<Rightarrow> None)"

definition uploader_take :: "nat \<Rightarrow> nat \<Rightarrow> 's pipeline \<Rightarrow> 's pipeline option" where
  "uploader_take i j st =
     (if i \<ge> length (pl_encs st) \<or> j \<ge> length (pl_upls st) then None
      else case (pl_encs st ! i, pl_upls st ! j) of
          (EncOut eb, UplIdle) \<Rightarrow>
            Some (st\<lparr>pl_encs := (pl_encs st)[i := EncIdle], pl_upls := (pl_upls st)[j := UplHas eb]\<rparr>)
        | _ \<Rightarrow> None)"

definition uploader_run ::
  "(nat \<Rightarrow> 's \<Rightarrow> 's) \<Rightarrow> (nat \<Rightarrow> bool) \<Rightarrow> nat \<Rightarrow> nat \<Rightarrow> 's pipeline \<Rightarrow> 's pipeline option" where
  "uploader_run env shut j depth st =
     (if j \<ge> length (pl_upls st) then None
      else case pl_upls st ! j of
          UplHas eb \<Rightarrow>
            (case uploader_body env shut depth eb (pl_prod st) (pl_store st) of
               Ok (uc, p, s) \<Rightarrow>
                 Some (st\<lparr>pl_prod := p, pl_store := s, pl_upls := (pl_upls st)[j := UplOut uc]\<rparr>)
             | _ \<Rightarrow> Some (crash st))
        | _ \<Rightarrow> None)"

definition uploader_done :: "nat \<Rightarrow> 's pipeline \<Rightarrow> 's pipeline option" where
  "uploader_done j st =
     (if j \<ge> length (pl_upls st) then None
      else case pl_upls st ! j of
          UplOut uc \<Rightarrow>
            if length (pl_comp st) < completion_cap st
            then Some (st\<lparr>pl_upls := (pl_upls st)[j := UplIdle], pl_comp := pl_comp st @ [uc]\<rparr>)
            else None
        | _ \<Rightarrow> None)"

section \<open>Committer and resolver\<close>

text \<open>
  The receive with \<^verbatim>\<open>gather\<close>, which takes whatever is in the channel; in halted mode a receive is
  answered at once.
\<close>

definition committer_receive :: "'s pipeline \<Rightarrow> 's pipeline option" where
  "committer_receive st =
     (if pl_cmOut st \<noteq> [] \<or> pl_draining st \<noteq> None then None
      else case pl_comp st of
          [] \<Rightarrow> None
        | uc # ch \<Rightarrow>
            if cm_halted (pl_cm st)
            then Some (st\<lparr>pl_comp := ch,
                   pl_cmOut := [resolve_item (resolution uc (Some ErrProducerHalted) OutcomeAbandoned)]\<rparr>)
            else let cm = fold put_ready ch (put_ready uc (pl_cm st));
                     hasNext = (cm_ready cm (cm_next cm) \<noteq> None);
                     cm = (if \<not> hasNext \<and> \<not> cm_holStarted cm then cm\<lparr>cm_holStarted := True\<rparr> else cm)
                 in Some (st\<lparr>pl_comp := [], pl_cm := cm, pl_draining := Some hasNext\<rparr>))"

definition committer_drain ::
  "(nat \<Rightarrow> nat \<Rightarrow> 's \<Rightarrow> 's) \<Rightarrow> (nat \<Rightarrow> bool) \<Rightarrow> (u64 set \<Rightarrow> u64 list) \<Rightarrow> 's pipeline \<Rightarrow> 's pipeline option" where
  "committer_drain env shut order st =
     (case (pl_draining st, pl_cmOut st) of
        (Some willAdvance, []) \<Rightarrow>
          (case drain_round (casWithRetry env shut) order (batch_size (pl_prod st)) (pl_cm st) (pl_prod st)
                  (pl_store st) of
             None \<Rightarrow> None
           | Some (Panicked, _) \<Rightarrow> Some (crash st)
           | Some (Returned (prs, goes_on), cm, p, s) \<Rightarrow>
               if goes_on
               then Some (st\<lparr>pl_cm := cm, pl_prod := p, pl_store := s, pl_cmOut := map resolve_item prs\<rparr>)
               else let (cm, p) = (if willAdvance \<and> cm_holStarted cm
                          then (cm\<lparr>cm_holStarted := False\<rparr>, observe [OnHeadOfLineBlock] p) else (cm, p))
                    in Some (st\<lparr>pl_cm := cm, pl_prod := p, pl_store := s, pl_cmOut := map resolve_item prs,
                                pl_draining := None\<rparr>))
      | _ \<Rightarrow> None)"

definition resolver_take :: "'s pipeline \<Rightarrow> 's pipeline option" where
  "resolver_take st =
     (case (pl_res st, pl_cmOut st) of
        (None, ri # ris) \<Rightarrow> Some (st\<lparr>pl_res := Some ri, pl_cmOut := ris\<rparr>)
      | _ \<Rightarrow> None)"

definition resolver_run :: "'s pipeline \<Rightarrow> 's pipeline option" where
  "resolver_run st =
     (case pl_res st of
        None \<Rightarrow> None
      | Some ri \<Rightarrow>
          (case resolver_body ri (pl_prod st) of
             Ok p \<Rightarrow> Some (st\<lparr>pl_res := None, pl_prod := p\<rparr>)
           | _ \<Rightarrow> Some (crash st)))"
section \<open>Close and the shutdown cascade\<close>

text \<open>
  \<^verbatim>\<open>Close\<close> closes \<^verbatim>\<open>appendCh\<close> once; when its context fires it also closes
  \<^verbatim>\<open>shutdownCh\<close>.  A goroutine exits when its input is closed and drained, so the done channels
  that \<^verbatim>\<open>Close\<close> waits on in turn are conditions on the state.
\<close>

definition Close_append :: "'s pipeline \<Rightarrow> 's pipeline option" where
  "Close_append st = (if pl_closed st then None else Some (st\<lparr>pl_closed := True\<rparr>))"

definition Close_abort :: "'s pipeline \<Rightarrow> 's pipeline option" where
  "Close_abort st = (if pl_closed st then Some (st\<lparr>pl_shutdown := True\<rparr>) else None)"

definition rotatorDone :: "'s pipeline \<Rightarrow> bool" where
  "rotatorDone st \<longleftrightarrow> pl_rotExit st \<and> pl_rotOut st = None"

definition encoderPoolDone :: "'s pipeline \<Rightarrow> bool" where
  "encoderPoolDone st \<longleftrightarrow> rotatorDone st \<and> list_all (\<lambda>e. e = EncIdle) (pl_encs st)"

definition uploaderPoolDone :: "'s pipeline \<Rightarrow> bool" where
  "uploaderPoolDone st \<longleftrightarrow> encoderPoolDone st \<and> list_all (\<lambda>u. u = UplIdle) (pl_upls st)"

definition committerDone :: "'s pipeline \<Rightarrow> bool" where
  "committerDone st \<longleftrightarrow> uploaderPoolDone st \<and> pl_comp st = [] \<and> pl_draining st = None \<and> pl_cmOut st = []"

definition resolverDone :: "'s pipeline \<Rightarrow> bool" where
  "resolverDone st \<longleftrightarrow> committerDone st \<and> pl_res st = None"

text \<open>
  \<^verbatim>\<open>Flush\<close> after its request \<open>ack\<close> was received: it can return \<open>r\<close> when the acknowledgement
  has arrived and no batch is in flight, or when the pipeline has been torn down first.
\<close>

definition Flush_returns :: "nat \<Rightarrow> 's pipeline \<Rightarrow> gerror option \<Rightarrow> bool" where
  "Flush_returns ack st r \<longleftrightarrow>
     (ack, r) \<in> set (p_flushAcks (pl_prod st)) \<and> batchesUsed (p_budget (pl_prod st)) = 0 \<or>
     resolverDone st \<and> r = Some ErrShutdown \<or>
     (\<exists>e. (ack, e) \<in> set (p_flushAcks (pl_prod st))) \<and> pl_shutdown st \<and> r = Some ErrShutdown"

lemma Flush_returns_code [code]:
  "Flush_returns ack st r \<longleftrightarrow>
     (ack, r) \<in> set (p_flushAcks (pl_prod st)) \<and> batchesUsed (p_budget (pl_prod st)) = 0 \<or>
     resolverDone st \<and> r = Some ErrShutdown \<or>
     ack \<in> fst ` set (p_flushAcks (pl_prod st)) \<and> pl_shutdown st \<and> r = Some ErrShutdown"
  by (force simp: Flush_returns_def)

section \<open>Runs\<close>

datatype 's action =
    ReserveA "bytes list" bytes u64
  | SendA nat
  | GiveupA nat
  | RotatorA rotator_case int
  | EncTakeA nat
  | EncodeA nat int nat
  | EncFailA nat
  | UplTakeA nat nat
  | UploadA "nat \<Rightarrow> 's \<Rightarrow> 's" "nat \<Rightarrow> bool" nat nat
  | UplDoneA nat
  | ReceiveA
  | DrainA "nat \<Rightarrow> nat \<Rightarrow> 's \<Rightarrow> 's" "nat \<Rightarrow> bool"
  | ResTakeA
  | ResolveA
  | CloseA
  | AbortA
  | EnvA "'s \<Rightarrow> 's"

text \<open>After a panic nothing runs any more.\<close>

fun exec_action ::
  "zstd_lib \<Rightarrow> (u64 set \<Rightarrow> u64 list) \<Rightarrow> 's action \<Rightarrow> 's pipeline \<Rightarrow> 's pipeline option" where
  "exec_action z order (ReserveA entries metadata now) st = AppendContext_reserve entries metadata now st"
| "exec_action z order (SendA i) st = AppendContext_send i st"
| "exec_action z order (GiveupA i) st = AppendContext_giveup i st"
| "exec_action z order (RotatorA cs now) st = rotator_step cs now st"
| "exec_action z order (EncTakeA i) st = encoder_take i st"
| "exec_action z order (EncodeA i now depth) st = encoder_run z i now depth st"
| "exec_action z order (EncFailA i) st = encoder_fail i st"
| "exec_action z order (UplTakeA i j) st = uploader_take i j st"
| "exec_action z order (UploadA env shut j depth) st = uploader_run env shut j depth st"
| "exec_action z order (UplDoneA j) st = uploader_done j st"
| "exec_action z order ReceiveA st = committer_receive st"
| "exec_action z order (DrainA env shut) st = committer_drain env shut order st"
| "exec_action z order ResTakeA st = resolver_take st"
| "exec_action z order ResolveA st = resolver_run st"
| "exec_action z order CloseA st = Close_append st"
| "exec_action z order AbortA st = Close_abort st"
| "exec_action z order (EnvA f) st = Some (st\<lparr>pl_store := f (pl_store st)\<rparr>)"

definition exec ::
  "zstd_lib \<Rightarrow> (u64 set \<Rightarrow> u64 list) \<Rightarrow> 's action \<Rightarrow> 's pipeline \<Rightarrow> 's pipeline option" where
  "exec z order a st = (if pl_panicked st then None else exec_action z order a st)"

fun exec_all ::
  "zstd_lib \<Rightarrow> (u64 set \<Rightarrow> u64 list) \<Rightarrow> 's action list \<Rightarrow> 's pipeline \<Rightarrow> 's pipeline option" where
  "exec_all z order [] st = Some st"
| "exec_all z order (a # as) st =
     (case exec z order a st of None \<Rightarrow> None | Some st' \<Rightarrow> exec_all z order as st')"

inductive pipeline_step ::
  "zstd_lib \<Rightarrow> (u64 set \<Rightarrow> u64 list) \<Rightarrow> ('s action \<Rightarrow> bool) \<Rightarrow> 's pipeline \<Rightarrow> 's pipeline \<Rightarrow> bool"
  for z order A where
  act: "A a \<Longrightarrow> exec z order a st = Some st' \<Longrightarrow> pipeline_step z order A st st'"

inductive_cases pipeline_stepE: "pipeline_step z order A st st'"
end
