(* ===== verification/Accounting.thy ===== *)
theory Accounting
  imports Pipeline
begin

text \<open>
  Conservation in the running producer: where every accepted message, every batch and every reserved
  byte is at any moment of a run.  The invariant is kept by every action; from it follow that the
  budget is exact, that watchers are resolved exactly once, and what \<^verbatim>\<open>Flush\<close> and
  \<^verbatim>\<open>Close\<close> mean for their callers.
\<close>

section \<open>Frames\<close>

text \<open>
  Messages reported as accepted and not yet as flushed, read off the calls made to the observer.
\<close>

fun event_pending :: "Observer \<Rightarrow> int" where
  "event_pending OnAccepted = 1"
| "event_pending (OnFlush reason stats err) = - fs_Inputs stats"
| "event_pending _ = 0"

definition log_pending :: "Observer list \<Rightarrow> int" where
  "log_pending evs = sum_list (map event_pending evs)"

lemma log_pending_simps [simp]:
  "log_pending [] = 0" "log_pending (ev # evs) = event_pending ev + log_pending evs"
  "log_pending (evs @ evs') = log_pending evs + log_pending evs'"
  by (simp_all add: log_pending_def)

lemma log_pending_observe:
  "log_pending (p_log (observe evs p)) = log_pending (p_log p) + (if cfg_Observer (p_config p) then log_pending evs else 0)"
  by (simp add: observe_def)

text \<open>The parts of the shared state that the workers and the committer leave alone.\<close>

definition same_core :: "'s Producer \<Rightarrow> 's Producer \<Rightarrow> bool" where
  "same_core p p' \<longleftrightarrow> p_budget p' = p_budget p \<and> p_signals p' = p_signals p \<and> p_watchers p' = p_watchers p \<and>
     p_config p' = p_config p \<and> p_store p' = p_store p \<and> p_runID p' = p_runID p \<and>
     p_flushAcks p' = p_flushAcks p \<and> me_store (p_enqueuer p') = me_store (p_enqueuer p) \<and>
     me_manifestPath (p_enqueuer p') = me_manifestPath (p_enqueuer p) \<and>
     log_pending (p_log p') = log_pending (p_log p)"

lemma same_core_refl [simp]: "same_core p p"
  by (simp add: same_core_def)

lemma same_core_trans [trans]: "same_core p q \<Longrightarrow> same_core q r \<Longrightarrow> same_core p r"
  by (simp add: same_core_def)

lemma same_core_observe [simp]: "log_pending evs = 0 \<Longrightarrow> same_core p (observe evs q) = same_core p q"
  by (simp add: same_core_def log_pending_observe)

lemma same_core_fields [simp]:
  "same_core p (q\<lparr>p_encodeWorkersBusy := n\<rparr>) = same_core p q"
  "same_core p (q\<lparr>p_uploadWorkersBusy := n\<rparr>) = same_core p q"
  "same_core p (q\<lparr>p_halted := b\<rparr>) = same_core p q"
  "same_core p (q\<lparr>p_haltedNotify := b\<rparr>) = same_core p q"
  "same_core p (q\<lparr>p_oldestUnflushedNs := n\<rparr>) = same_core p q"
  by (simp_all add: same_core_def)

lemma same_core_ok: "same_core p p' \<Longrightarrow> producer_ok p' = producer_ok p"
  by (simp add: same_core_def producer_ok_def)

lemma encoder_body_core: "encoder_body z t depth pb p = Ok (x, p') \<Longrightarrow> same_core p p'"
  by (auto simp: encoder_body_def Let_def split: res.splits)

lemma put_loop_core: "put_loop env shut eb n a p s = Ok (r, p', s') \<Longrightarrow> same_core p p'"
proof (induction n arbitrary: a p s)
  case (Suc n)
  obtain err s1 where put: "os_Put (p_store p) (eb_location eb) (eb_payload eb) (env a s) = (err, s1)" by fastforce
  show ?case
  proof (cases "err = None \<or> n = 0 \<or> shut a")
    case True
    then show ?thesis using Suc.prems put by (auto simp: Let_def split: option.splits if_splits)
  next
    case False
    then have "put_loop env shut eb n (a + 1)
        (observe [OnStorePut (eb_size eb) err, OnUploadDuration (eb_size eb) err] p) s1 = Ok (r, p', s')"
      using Suc.prems put by auto
    from Suc.IH [OF this] show ?thesis by (simp add: same_core_def log_pending_observe)
  qed
qed simp

lemma uploader_body_core:
  assumes "uploader_body env shut depth eb p s = Ok (uc, p', s')"
  shows "same_core p p'"
proof -
  let ?p1 = "observe [OnWorkersBusy StageUpload (p_uploadWorkersBusy p + 1)]
    (p\<lparr>p_uploadWorkersBusy := p_uploadWorkersBusy p + 1\<rparr>)"
  obtain r p2 evs evs' n where put: "putWithRetry env shut eb ?p1 s = Ok (r, p2, s')"
    and p': "p' = observe evs (observe evs' (p2\<lparr>p_uploadWorkersBusy := n\<rparr>))" "log_pending evs = 0" "log_pending evs' = 0"
    using assms by (auto simp: uploader_body_def Let_def outcome_simps)
  have "same_core ?p1 p2" using put put_loop_core by (auto simp: putWithRetry_def Let_def)
  then show ?thesis using p' by (simp add: same_core_def log_pending_observe)
qed

lemma enqueueBatch_core:
  fixes p :: "'s manifestEnqueuer"
  assumes "enqueueBatch env items p s = Some (r, p', s')"
  shows "me_store p' = me_store p \<and> me_manifestPath p' = me_manifestPath p"
proof (cases "items = []")
  case False
  then have ret: "enqueue_loop env items 0 p s = Some (r, p', s')" using assms by (simp add: enqueueBatch_def)
  let ?P = "\<lambda>(c :: nat) (p :: 's manifestEnqueuer) (s :: 's) (r :: enqueue_result, p' :: 's manifestEnqueuer, s' :: 's).
    me_store p' = me_store p \<and> me_manifestPath p' = me_manifestPath p"
  have "?P 0 p s (r, p', s')"
    using enqueue_round_frame [where env = env and items = items]
    by (intro enqueue_loop_induct [OF ret, where P = ?P]) (fastforce split: prod.splits round.splits)+
  then show ?thesis by simp
qed (use assms in \<open>simp add: enqueueBatch_def\<close>)

lemma cas_loop_core:
  "cas_loop env shut items n a tc err p s = Some (r, p', s') \<Longrightarrow> same_core p p'"
proof (induction n arbitrary: a tc err p s)
  case (Suc n)
  from Suc.prems obtain r1 me1 s1 where enq: "enqueueBatch (env a) items (p_enqueuer p) s = Some (r1, me1, s1)"
    by (auto split: option.splits)
  have step: "same_core p (p\<lparr>p_enqueuer := me1\<rparr>)" using enqueueBatch_core [OF enq] by (simp add: same_core_def)
  show ?case
  proof (cases r1)
    case Panicked
    then show ?thesis using Suc.prems enq step by simp
  next
    case (Returned ce)
    then obtain c e where r1: "r1 = Returned (c, e)" by (cases ce) simp
    show ?thesis
    proof (cases "e = None \<or> n \<noteq> 0 \<and> shut a")
      case True
      then show ?thesis using Suc.prems enq step r1 by (auto simp: Let_def split: option.splits)
    next
      case False
      then have "cas_loop env shut items n (a + 1) (tc + c) e (p\<lparr>p_enqueuer := me1\<rparr>) s1 = Some (r, p', s')"
        using Suc.prems enq r1 by (auto simp: Let_def split: if_splits)
      from same_core_trans [OF step Suc.IH [OF this]] show ?thesis .
    qed
  qed
qed simp

lemma commit_group_core:
  assumes "commit_group (casWithRetry env shut) grp p s = Some (r, p', s')"
  shows "same_core p p'"
proof (cases "grp = []")
  case True
  then show ?thesis using assms by (simp add: commit_group_def)
next
  case False
  then obtain r1 p1 where cas: "casWithRetry env shut (group_items grp) p s = Some (r1, p1, s')"
    and p': "same_core p1 p'"
    using assms by (auto simp: commit_group_def Let_def split: option.splits run.splits)
  have "same_core p p1" by (rule cas_loop_core [OF cas [unfolded casWithRetry_def Let_def]])
  from same_core_trans [OF this p'] show ?thesis .
qed

lemma drain_round_core:
  assumes "drain_round (casWithRetry env shut) order n cm p s = Some (r, cm', p', s')"
  shows "same_core p p'"
proof -
  obtain nx rd grp failed where col: "collect n (cm_next cm) (cm_ready cm) [] [] = (nx, rd, grp, failed)"
    by (metis prod_cases4)
  show ?thesis
  proof (cases "grp = [] \<and> failed = []")
    case True
    then show ?thesis using assms col by (simp add: drain_round_def Let_def)
  next
    case False
    then obtain r1 p1 s1 where grp: "commit_group (casWithRetry env shut) grp p s = Some (r1, p1, s1)"
      using assms col by (cases "commit_group (casWithRetry env shut) grp p s") (auto simp: drain_round_def Let_def)
    then have "same_core p1 p'"
      using assms col False
      by (cases r1) (auto simp: drain_round_def Let_def enterHalted_def split: if_splits)
    from same_core_trans [OF commit_group_core [OF grp] this] show ?thesis .
  qed
qed

section \<open>What is in flight\<close>

text \<open>
  A batch in flight, wherever it is, is the watchers it will resolve and the bytes it holds.
\<close>

type_synonym load = "nat list \<times> int"

definition pb_load :: "pendingBatch \<Rightarrow> load" where
  "pb_load pb = (pb_watchers pb, pb_byteCost pb)"

definition eb_load :: "encodedBatch \<Rightarrow> load" where
  "eb_load eb = (eb_watchers eb, eb_byteCost eb)"

definition uc_load :: "uploadCompletion \<Rightarrow> load" where
  "uc_load uc = eb_load (uc_eb uc)"

definition ri_load :: "resolverItem \<Rightarrow> load" where
  "ri_load ri = (ri_watchers ri, ri_byteCost ri)"

fun enc_loads :: "encoder_state \<Rightarrow> load list" where
  "enc_loads EncIdle = []"
| "enc_loads (EncHas pb) = [pb_load pb]"
| "enc_loads (EncFailed uc) = [uc_load uc]"
| "enc_loads (EncOut eb) = [eb_load eb]"

fun upl_loads :: "uploader_state \<Rightarrow> load list" where
  "upl_loads UplIdle = []"
| "upl_loads (UplHas eb) = [eb_load eb]"
| "upl_loads (UplOut uc) = [uc_load uc]"

definition in_flight :: "'s pipeline \<Rightarrow> load multiset" where
  "in_flight st =
     mset (map pb_load (case pl_rotOut st of None \<Rightarrow> [] | Some pb \<Rightarrow> [pb])) +
     mset (concat (map enc_loads (pl_encs st))) + mset (concat (map upl_loads (pl_upls st))) +
     mset (map uc_load (pl_comp st)) + image_mset uc_load (pool (cm_ready (pl_cm st))) +
     mset (map ri_load (pl_cmOut st)) + mset (map ri_load (case pl_res st of None \<Rightarrow> [] | Some ri \<Rightarrow> [ri]))"

text \<open>The ordinals on their way to the committer.\<close>

fun enc_ordinals :: "encoder_state \<Rightarrow> u64 list" where
  "enc_ordinals EncIdle = []"
| "enc_ordinals (EncHas pb) = [pb_ordinal pb]"
| "enc_ordinals (EncFailed uc) = [ordinal_of uc]"
| "enc_ordinals (EncOut eb) = [eb_ordinal eb]"

fun upl_ordinals :: "uploader_state \<Rightarrow> u64 list" where
  "upl_ordinals UplIdle = []"
| "upl_ordinals (UplHas eb) = [eb_ordinal eb]"
| "upl_ordinals (UplOut uc) = [ordinal_of uc]"

definition upstream :: "'s pipeline \<Rightarrow> u64 multiset" where
  "upstream st =
     mset (map pb_ordinal (case pl_rotOut st of None \<Rightarrow> [] | Some pb \<Rightarrow> [pb])) +
     mset (concat (map enc_ordinals (pl_encs st))) + mset (concat (map upl_ordinals (pl_upls st))) +
     mset (map ordinal_of (pl_comp st))"

definition load_watchers :: "load multiset \<Rightarrow> nat multiset" where
  "load_watchers M = \<Sum>\<^sub># (image_mset (mset \<circ> fst) M)"

definition load_bytes :: "load multiset \<Rightarrow> int" where
  "load_bytes M = sum_mset (image_mset snd M)"

text \<open>The watchers of accepted messages that wait for their outcome.\<close>

definition waiting_watchers :: "'s pipeline \<Rightarrow> nat multiset" where
  "waiting_watchers st = mset (map am_watcher (pl_appendCh st)) + mset (ba_watchers (rt_batch (pl_rot st)))"

definition accepted :: "'s pipeline \<Rightarrow> nat multiset" where
  "accepted st = waiting_watchers st + load_watchers (in_flight st)"

abbreviation sum_cost :: "appendMessage list \<Rightarrow> int" where
  "sum_cost ms \<equiv> sum_list (map am_byteCost ms)"

section \<open>The invariant\<close>

definition message_ok :: "appendMessage \<Rightarrow> bool" where
  "message_ok m \<longleftrightarrow> nonempty m \<and> 0 \<le> am_byteCost m"

definition reservation_inv :: "'s pipeline \<Rightarrow> bool" where
  "reservation_inv st \<longleftrightarrow>
     batchesUsed (p_budget (pl_prod st)) = int (size (in_flight st)) \<and>
     bytesUsed (p_budget (pl_prod st)) =
       sum_cost (pl_sending st) + sum_cost (pl_appendCh st) + ba_byteCost (rt_batch (pl_rot st)) +
       load_bytes (in_flight st) \<and>
     (\<forall>l \<in># in_flight st. 0 \<le> snd l)"

definition message_inv :: "'s pipeline \<Rightarrow> bool" where
  "message_inv st \<longleftrightarrow> list_all message_ok (pl_sending st) \<and> list_all message_ok (pl_appendCh st) \<and>
     (\<exists>msgs. holds msgs (rt_batch (pl_rot st)) \<and> list_all message_ok msgs)"

definition watcher_inv :: "'s pipeline \<Rightarrow> bool" where
  "watcher_inv st \<longleftrightarrow>
     (\<forall>w. count (mset (map am_watcher (pl_sending st)) + accepted st) w \<le>
        (if w < pl_nextWatcher st \<and> \<not> w_done (p_watchers (pl_prod st) w) then 1 else 0)) \<and>
     (\<forall>w. pl_nextWatcher st \<le> w \<longrightarrow> \<not> w_done (p_watchers (pl_prod st) w))"

definition ordinal_inv :: "'s pipeline \<Rightarrow> bool" where
  "ordinal_inv st \<longleftrightarrow>
     (\<forall>n. count (upstream st) n \<le> (if n < rt_ordinal (pl_rot st) then 1 else 0)) \<and>
     (if cm_halted (pl_cm st) then cm_ready (pl_cm st) = Map.empty
      else tracks ({n. n < rt_ordinal (pl_rot st)} - set_mset (upstream st)) (cm_next (pl_cm st)) (cm_ready (pl_cm st)) \<and>
        keyed (cm_ready (pl_cm st))) \<and>
     (pl_draining st = None \<longrightarrow> \<not> cm_halted (pl_cm st) \<longrightarrow> cm_ready (pl_cm st) (cm_next (pl_cm st)) = None) \<and>
     (pl_draining st \<noteq> None \<longrightarrow> \<not> cm_halted (pl_cm st))"

definition pipeline_inv :: "'s pipeline \<Rightarrow> bool" where
  "pipeline_inv st \<longleftrightarrow> producer_ok (pl_prod st) \<and> message_inv st \<and> reservation_inv st \<and> watcher_inv st \<and> ordinal_inv st"

lemma start_inv: "pipeline_inv (start store config runID s)"
proof -
  have none: "concat (map f (replicate n x)) = []" if "f x = []" for f :: "'b \<Rightarrow> 'c list" and n x
    using that by (induction n) simp_all
  show ?thesis
    by (auto simp: pipeline_inv_def start_def Let_def NewProducer_ok message_inv_def reservation_inv_def watcher_inv_def
        ordinal_inv_def in_flight_def upstream_def accepted_def waiting_watchers_def load_watchers_def load_bytes_def none
        rotator_start_def committer_start_def tracks_def keyed_def new_accumulator_def holds_def newDurabilityWatcher_def
        intro!: exI [of _ "[]"])
qed

section \<open>Every action keeps the invariant\<close>

text \<open>
  What an action may do to the watchers: a message that was accepted, or a batch that was in flight,
  still is or has been resolved, and a resolution is final.
\<close>

definition advances :: "'s pipeline \<Rightarrow> 's pipeline \<Rightarrow> bool" where
  "advances st st' \<longleftrightarrow>
     (\<forall>w. w \<in># accepted st \<longrightarrow> w \<in># accepted st' \<or> w_done (p_watchers (pl_prod st') w)) \<and>
     (\<forall>w. w \<in># load_watchers (in_flight st) \<longrightarrow>
        w \<in># load_watchers (in_flight st') \<or> w_done (p_watchers (pl_prod st') w)) \<and>
     (\<forall>w. w_done (p_watchers (pl_prod st) w) \<longrightarrow> p_watchers (pl_prod st') w = p_watchers (pl_prod st) w)"

definition keeps :: "'s pipeline \<Rightarrow> 's pipeline \<Rightarrow> bool" where
  "keeps st st' \<longleftrightarrow> pipeline_inv st' \<and> advances st st'"

lemma advances_refl: "advances st st"
  by (simp add: advances_def)

lemma advances_trans: "advances st st' \<Longrightarrow> advances st' st'' \<Longrightarrow> advances st st''"
  unfolding advances_def by metis

text \<open>Actions that only hand batches on.\<close>

lemma keeps_move:
  assumes "pipeline_inv st" and "in_flight st' = in_flight st" and "upstream st' = upstream st"
    and "same_core (pl_prod st) (pl_prod st')" and "pl_sending st' = pl_sending st"
    and "pl_appendCh st' = pl_appendCh st" and "pl_rot st' = pl_rot st" and "pl_cm st' = pl_cm st"
    and "pl_draining st' = pl_draining st" and "pl_nextWatcher st' = pl_nextWatcher st"
  shows "keeps st st'"
proof -
  have "accepted st' = accepted st" using assms by (simp add: accepted_def waiting_watchers_def)
  then show ?thesis
    using assms same_core_ok [OF assms(4)] unfolding same_core_def
    by (simp add: keeps_def advances_def pipeline_inv_def message_inv_def reservation_inv_def watcher_inv_def ordinal_inv_def)
qed

lemma crash_keeps: "pipeline_inv st \<Longrightarrow> keeps st (crash st)"
  by (rule keeps_move) (simp_all add: crash_def in_flight_def upstream_def)

lemma concat_update:
  assumes "i < length xs"
  shows "mset (concat (map f (xs[i := y]))) + mset (f (xs ! i)) = mset (concat (map f xs)) + mset (f y)"
proof -
  have "xs = take i xs @ xs ! i # drop (Suc i) xs" using assms by (rule id_take_nth_drop)
  then have "mset (concat (map f xs)) = mset (concat (map f (take i xs @ xs ! i # drop (Suc i) xs)))" by simp
  then show ?thesis by (simp add: upd_conv_take_nth_drop [OF assms] ac_simps)
qed

lemma encoder_take_keeps:
  assumes "pipeline_inv st" and "encoder_take i st = Some st'"
  shows "keeps st st' \<and> pl_panicked st' = pl_panicked st"
proof -
  obtain pb where i: "i < length (pl_encs st)" "pl_encs st ! i = EncIdle" and pb: "pl_rotOut st = Some pb"
    and st': "st' = st\<lparr>pl_rotOut := None, pl_encs := (pl_encs st)[i := EncHas pb]\<rparr>"
    using assms(2) by (auto simp: encoder_take_def split: if_splits option.splits encoder_state.splits)
  note upd = concat_update [OF i(1), of enc_loads "EncHas pb"] concat_update [OF i(1), of enc_ordinals "EncHas pb"]
  have "keeps st st'"
    by (rule keeps_move [OF assms(1)]) (use i pb upd in \<open>simp_all add: st' in_flight_def upstream_def\<close>)
  then show ?thesis by (simp add: st')
qed

lemma encoder_run_keeps:
  assumes "pipeline_inv st" and "encoder_run z i now depth st = Some st'"
  shows "keeps st st' \<and> pl_panicked st' = pl_panicked st"
proof -
  obtain pb where i: "i < length (pl_encs st)" "pl_encs st ! i = EncHas pb"
    using assms(2) by (auto simp: encoder_run_def split: if_splits encoder_state.splits)
  from encoder_body_cases [of z now depth pb "pl_prod st"] obtain x p' where
    body: "encoder_body z now depth pb (pl_prod st) = Ok (x, p')"
    and same: "case x of Inl uc \<Rightarrow> same_batch pb (uc_eb uc) | Inr eb \<Rightarrow> same_batch pb eb"
    by (fastforce split: sum.splits)
  define e where "e = (case x of Inl uc \<Rightarrow> EncFailed uc | Inr eb \<Rightarrow> EncOut eb)"
  have st': "st' = st\<lparr>pl_prod := p', pl_encs := (pl_encs st)[i := e]\<rparr>"
    using assms(2) i body by (auto simp: encoder_run_def e_def split: sum.splits)
  have e: "enc_loads e = [pb_load pb]" "enc_ordinals e = [pb_ordinal pb]"
    using same by (auto simp: e_def pb_load_def eb_load_def uc_load_def ordinal_of_def same_batch_def split: sum.splits)
  note upd = concat_update [OF i(1), of enc_loads e] concat_update [OF i(1), of enc_ordinals e]
  have "keeps st st'"
    by (rule keeps_move [OF assms(1)])
      (use i e upd encoder_body_core [OF body] in \<open>simp_all add: st' in_flight_def upstream_def\<close>)
  then show ?thesis by (simp add: st')
qed

lemma encoder_fail_keeps:
  assumes "pipeline_inv st" and "encoder_fail i st = Some st'"
  shows "keeps st st' \<and> pl_panicked st' = pl_panicked st"
proof -
  obtain uc where i: "i < length (pl_encs st)" "pl_encs st ! i = EncFailed uc"
    and st': "st' = st\<lparr>pl_encs := (pl_encs st)[i := EncIdle], pl_comp := pl_comp st @ [uc]\<rparr>"
    using assms(2) by (auto simp: encoder_fail_def split: if_splits encoder_state.splits)
  note upd = concat_update [OF i(1), of enc_loads EncIdle] concat_update [OF i(1), of enc_ordinals EncIdle]
  have "keeps st st'"
    by (rule keeps_move [OF assms(1)])
      (use i in \<open>simp_all add: st' in_flight_def upstream_def upd [simplified, symmetric]\<close>)
  then show ?thesis by (simp add: st')
qed

lemma uploader_take_keeps:
  assumes "pipeline_inv st" and "uploader_take i j st = Some st'"
  shows "keeps st st' \<and> pl_panicked st' = pl_panicked st"
proof -
  obtain eb where i: "i < length (pl_encs st)" "pl_encs st ! i = EncOut eb"
    and j: "j < length (pl_upls st)" "pl_upls st ! j = UplIdle"
    and st': "st' = st\<lparr>pl_encs := (pl_encs st)[i := EncIdle], pl_upls := (pl_upls st)[j := UplHas eb]\<rparr>"
    using assms(2) by (auto simp: uploader_take_def split: if_splits encoder_state.splits uploader_state.splits)
  note upd = concat_update [OF i(1), of enc_loads EncIdle] concat_update [OF i(1), of enc_ordinals EncIdle]
    concat_update [OF j(1), of upl_loads "UplHas eb"] concat_update [OF j(1), of upl_ordinals "UplHas eb"]
  have "keeps st st'"
    by (rule keeps_move [OF assms(1)])
      (use i j upd in \<open>simp_all add: st' in_flight_def upstream_def\<close>)
  then show ?thesis by (simp add: st')
qed

lemma uploader_body_load:
  assumes "uploader_body env shut depth eb p s = Ok (uc, p', s')"
  shows "uc_eb uc = eb\<lparr>eb_payload := []\<rparr> \<and> uc_encodeFailed uc = False"
  using assms by (auto simp: uploader_body_def Let_def outcome_simps)

lemma putWithRetry_returns: "\<exists>r p' s'. putWithRetry env shut eb p s = Ok (r, p', s')"
  unfolding putWithRetry_def Let_def by (rule put_loop_returns) simp

lemma uploader_body_returns: "\<exists>uc p' s'. uploader_body env shut depth eb p s = Ok (uc, p', s')"
proof -
  let ?p1 = "observe [OnWorkersBusy StageUpload (p_uploadWorkersBusy p + 1)]
    (p\<lparr>p_uploadWorkersBusy := p_uploadWorkersBusy p + 1\<rparr>)"
  obtain r p' s' where "putWithRetry env shut eb ?p1 s = Ok (r, p', s')"
    using putWithRetry_returns [of env shut eb ?p1 s] by blast
  then show ?thesis by (simp add: uploader_body_def Let_def)
qed

lemma uploader_run_keeps:
  assumes "pipeline_inv st" and "uploader_run env shut j depth st = Some st'"
  shows "keeps st st' \<and> pl_panicked st' = pl_panicked st"
proof -
  obtain eb where j: "j < length (pl_upls st)" "pl_upls st ! j = UplHas eb"
    using assms(2) by (auto simp: uploader_run_def split: if_splits uploader_state.splits)
  obtain uc p' s' where body: "uploader_body env shut depth eb (pl_prod st) (pl_store st) = Ok (uc, p', s')"
    using uploader_body_returns [of env shut depth eb "pl_prod st" "pl_store st"] by blast
  then have st': "st' = st\<lparr>pl_prod := p', pl_store := s', pl_upls := (pl_upls st)[j := UplOut uc]\<rparr>"
    using assms(2) j by (simp add: uploader_run_def)
  have e: "uc_load uc = eb_load eb" "ordinal_of uc = eb_ordinal eb"
    using uploader_body_load [OF body] by (simp_all add: uc_load_def eb_load_def ordinal_of_def)
  note upd = concat_update [OF j(1), of upl_loads "UplOut uc"] concat_update [OF j(1), of upl_ordinals "UplOut uc"]
  have "keeps st st'"
    by (rule keeps_move [OF assms(1)])
      (use j e upd uploader_body_core [OF body] in \<open>simp_all add: st' in_flight_def upstream_def\<close>)
  then show ?thesis by (simp add: st')
qed

lemma uploader_done_keeps:
  assumes "pipeline_inv st" and "uploader_done j st = Some st'"
  shows "keeps st st' \<and> pl_panicked st' = pl_panicked st"
proof -
  obtain uc where j: "j < length (pl_upls st)" "pl_upls st ! j = UplOut uc"
    and st': "st' = st\<lparr>pl_upls := (pl_upls st)[j := UplIdle], pl_comp := pl_comp st @ [uc]\<rparr>"
    using assms(2) by (auto simp: uploader_done_def split: if_splits uploader_state.splits)
  note upd = concat_update [OF j(1), of upl_loads UplIdle] concat_update [OF j(1), of upl_ordinals UplIdle]
  have "keeps st st'"
    by (rule keeps_move [OF assms(1)])
      (use j in \<open>simp_all add: st' in_flight_def upstream_def upd [simplified, symmetric]\<close>)
  then show ?thesis by (simp add: st')
qed

lemma resolver_take_keeps:
  assumes "pipeline_inv st" and "resolver_take st = Some st'"
  shows "keeps st st' \<and> pl_panicked st' = pl_panicked st"
proof -
  obtain ri ris where "pl_res st = None" "pl_cmOut st = ri # ris"
    and st': "st' = st\<lparr>pl_res := Some ri, pl_cmOut := ris\<rparr>"
    using assms(2) by (auto simp: resolver_take_def split: option.splits list.splits)
  then have "keeps st st'"
    by (intro keeps_move [OF assms(1)]) (simp_all add: st' in_flight_def upstream_def)
  then show ?thesis by (simp add: st')
qed

lemma close_env_keeps:
  assumes "pipeline_inv st"
  shows "keeps st (st\<lparr>pl_closed := True\<rparr>)" and "keeps st (st\<lparr>pl_shutdown := True\<rparr>)"
    and "keeps st (st\<lparr>pl_store := s\<rparr>)"
  by (rule keeps_move [OF assms]; simp add: in_flight_def upstream_def)+

text \<open>The committer moves completions between its map and its results.\<close>

lemma resolve_item_load [simp]: "ri_load (resolve_item pr) = uc_load (pr_uc pr)"
  by (simp add: ri_load_def resolve_item_def uc_load_def eb_load_def Let_def)

lemma count_mset_distinct:
  assumes "\<forall>n. count (mset xs + M) n \<le> (if P n then 1 else 0)"
  shows "distinct xs \<and> set xs \<inter> set_mset M = {}"
proof
  have le: "count (mset xs) n + count M n \<le> 1" for n
    using order_trans [OF assms [rule_format, of n], of 1] by simp
  have "count (mset xs) n = (if n \<in> set xs then 1 else 0)" for n
  proof (cases "n \<in> set xs")
    case True
    then have "0 < count (mset xs) n" by (simp add: count_greater_zero_iff)
    with le [of n] have "count (mset xs) n = 1" by linarith
    then show ?thesis using True by simp
  qed (simp add: count_mset_0_iff)
  then show "distinct xs" by (simp add: distinct_count_atmost_1)
  show "set xs \<inter> set_mset M = {}"
  proof (intro equals0I)
    fix n assume "n \<in> set xs \<inter> set_mset M"
    then have "0 < count (mset xs) n" "0 < count M n" by (simp_all add: count_greater_zero_iff)
    with le [of n] show False by linarith
  qed
qed

lemma keeps_same_load:
  assumes "pipeline_inv st" and "in_flight st' = in_flight st" and "ordinal_inv st'"
    and "same_core (pl_prod st) (pl_prod st')" and "pl_sending st' = pl_sending st"
    and "pl_appendCh st' = pl_appendCh st" and "pl_rot st' = pl_rot st"
    and "pl_nextWatcher st' = pl_nextWatcher st"
  shows "keeps st st'"
proof -
  have "accepted st' = accepted st" using assms by (simp add: accepted_def waiting_watchers_def)
  then show ?thesis
    using assms same_core_ok [OF assms(4)] unfolding same_core_def
    by (simp add: keeps_def advances_def pipeline_inv_def message_inv_def reservation_inv_def watcher_inv_def)
qed

lemma committer_receive_keeps:
  assumes "pipeline_inv st" and "committer_receive st = Some st'"
  shows "keeps st st' \<and> pl_panicked st' = pl_panicked st"
proof -
  let ?B = "{n. n < rt_ordinal (pl_rot st)}" and ?cm = "pl_cm st"
  obtain uc ch where comp: "pl_comp st = uc # ch" and idle: "pl_cmOut st = []" "pl_draining st = None"
    using assms(2) by (auto simp: committer_receive_def split: if_splits list.splits)
  define M where "M = mset (map pb_ordinal (case pl_rotOut st of None \<Rightarrow> [] | Some pb \<Rightarrow> [pb])) +
     mset (concat (map enc_ordinals (pl_encs st))) + mset (concat (map upl_ordinals (pl_upls st)))"
  have up: "upstream st = mset (map ordinal_of (uc # ch)) + M" by (simp add: upstream_def comp M_def)
  have ord: "ordinal_inv st" using assms(1) by (simp add: pipeline_inv_def)
  then have cnt: "\<forall>n. count (mset (map ordinal_of (uc # ch)) + M) n \<le> (if n < rt_ordinal (pl_rot st) then 1 else 0)"
    unfolding ordinal_inv_def up by blast
  note dis = count_mset_distinct [OF cnt]
  have cntM: "\<forall>n. count (N + M) n \<le> (if n < rt_ordinal (pl_rot st) then 1 else 0)"
    if "N \<subseteq># mset (map ordinal_of (uc # ch))" for N
    using cnt mset_subset_eq_count [OF that] by (metis (no_types, lifting) add_le_mono1 count_union le_trans)
  show ?thesis
  proof (cases "cm_halted ?cm")
    case True
    then have st': "st' = st\<lparr>pl_comp := ch,
        pl_cmOut := [resolve_item (resolution uc (Some ErrProducerHalted) OutcomeAbandoned)]\<rparr>"
      using assms(2) comp idle by (simp add: committer_receive_def)
    have "upstream st' = mset (map ordinal_of ch) + M" by (simp add: st' upstream_def M_def)
    then have "ordinal_inv st'"
      using ord True cntM [of "mset (map ordinal_of ch)"] by (auto simp: ordinal_inv_def st')
    then have "keeps st st'"
      by (intro keeps_same_load [OF assms(1)]) (simp_all add: st' in_flight_def comp idle)
    then show ?thesis by (simp add: st')
  next
    case False
    let ?cm1 = "fold put_ready (uc # ch) ?cm"
    obtain cm' d where st': "st' = st\<lparr>pl_comp := [], pl_cm := cm', pl_draining := Some d\<rparr>"
      and cm': "cm_ready cm' = cm_ready ?cm1" "cm_next cm' = cm_next ?cm1" "cm_halted cm' = cm_halted ?cm1"
      using assms(2) comp idle False by (auto simp: committer_receive_def Let_def split: if_splits)
    have tr: "tracks (?B - set_mset (upstream st)) (cm_next ?cm) (cm_ready ?cm)" and key: "keyed (cm_ready ?cm)"
      using ord False by (auto simp: ordinal_inv_def)
    have "set (map ordinal_of (uc # ch)) \<inter> (?B - set_mset (upstream st)) = {}" by (auto simp: up)
    from fold_put_ready_tracks [OF tr conjunct1 [OF dis] this] have
      tr1: "tracks (?B - set_mset (upstream st) \<union> set (map ordinal_of (uc # ch))) (cm_next ?cm) (cm_ready ?cm1)"
      and pool1: "pool (cm_ready ?cm1) = mset (uc # ch) + pool (cm_ready ?cm)" by blast+
    have "n < rt_ordinal (pl_rot st)" if "n \<in> set (map ordinal_of (uc # ch))" for n
    proof -
      from that have "n \<in># mset (map ordinal_of (uc # ch)) + M" by auto
      then have "0 < count (mset (map ordinal_of (uc # ch)) + M) n" by (simp only: count_greater_zero_iff)
      with cnt [rule_format, of n] show ?thesis by (auto split: if_splits)
    qed
    then have D: "?B - set_mset (upstream st) \<union> set (map ordinal_of (uc # ch)) = ?B - set_mset M"
      using conjunct2 [OF dis] by (auto simp: up)
    have up': "upstream st' = M" by (simp add: st' upstream_def M_def)
    have "ordinal_inv st'"
      using tr1 fold_put_ready_keyed [OF key, of "uc # ch"] False cntM [of "{#}"]
      unfolding ordinal_inv_def up' D by (simp add: st' cm' put_ready_def)
    then have "keeps st st'"
      using pool1 by (intro keeps_same_load [OF assms(1)]) (simp_all add: st' cm' in_flight_def comp)
    then show ?thesis by (simp add: st')
  qed
qed

lemma drain_round_outcome:
  assumes "order_ok order" and "no_wrap D" and "0 < n"
    and "drain_round cas order n cm p s = Some (Returned (prs, go), cm', p', s')"
    and "tracks D (cm_next cm) (cm_ready cm)" and "keyed (cm_ready cm)" and "\<not> cm_halted cm"
  shows "mset (map pr_uc prs) + pool (cm_ready cm') = pool (cm_ready cm) \<and>
    (if cm_halted cm' then cm_ready cm' = Map.empty \<and> \<not> go
     else tracks D (cm_next cm') (cm_ready cm') \<and> keyed (cm_ready cm') \<and>
       (\<not> go \<longrightarrow> prs = [] \<and> cm_ready cm' (cm_next cm') = None))"
proof -
  obtain nx rd grp failed where col: "collect n (cm_next cm) (cm_ready cm) [] [] = (nx, rd, grp, failed)"
    by (metis prod_cases4)
  let ?cm1 = "cm\<lparr>cm_next := nx, cm_ready := rd\<rparr>"
  note tr = collect_tracks [OF assms(5,2) col] and key = collect_between [OF col assms(5,2,6)]
    and pl = collect_pool [OF col]
  show ?thesis
  proof (cases "grp = [] \<and> failed = []")
    case True
    then have "prs = []" "cm' = ?cm1" "\<not> go" using assms(4) col by (simp_all add: drain_round_def Let_def)
    then show ?thesis using True tr key pl assms(3,7) by simp
  next
    case False
    obtain casErr p1 s1 where grp: "commit_group cas grp p s = Some (Returned casErr, p1, s1)"
      using assms(4) col False by (auto simp: drain_round_def Let_def split: option.splits run.splits)
    show ?thesis
    proof (cases "casErr \<noteq> None \<and> \<not> errors_Is (the casErr) ErrShutdown")
      case True
      then have "cm_halted cm'" "cm_ready cm' = Map.empty" "\<not> go" and
        "prs = map (\<lambda>uc. resolution uc (Some ErrProducerHalted) OutcomeManifestFailed) grp @ failed @
          map (\<lambda>k. resolution (the (rd k)) (Some ErrProducerHalted) OutcomeAbandoned) (order (dom rd))"
        using assms(4) col False grp by (auto simp: drain_round_def Let_def enterHalted_def)
      then show ?thesis using pl pool_order [OF assms(1), of rd] by (simp add: comp_def ac_simps)
    next
      case go: False
      then have "cm' = ?cm1" "go" "mset (map pr_uc prs) = mset grp + mset (map pr_uc failed)"
        using assms(4) col False grp by (auto simp: drain_round_def Let_def comp_def)
      then show ?thesis using tr key pl assms(7) by (simp add: ac_simps)
    qed
  qed
qed

lemma cas_loop_not_Panicked:
  assumes "cas_store S objs" and "me_store (p_enqueuer p) = S"
  shows "cas_loop env shut items n a tc err p s \<noteq> Some (Panicked, p', s')"
  using assms(2)
proof (induction n arbitrary: a tc err p s)
  case (Suc n)
  show ?case
  proof (cases "enqueueBatch (env a) items (p_enqueuer p) s")
    case (Some out)
    then obtain r me1 s1 where enq: "enqueueBatch (env a) items (p_enqueuer p) s = Some (r, me1, s1)"
      by (cases out) auto
    have "r \<noteq> Panicked"
      using enq enqueue_loop_not_Panicked [of "p_enqueuer p" objs] assms(1) Suc.prems
      by (auto simp: enqueueBatch_def split: if_splits)
    then obtain c e where r: "r = Returned (c, e)" by (cases r) auto
    have "me_store (p_enqueuer (p\<lparr>p_enqueuer := me1\<rparr>)) = S" using enqueueBatch_core [OF enq] Suc.prems by simp
    from Suc.IH [OF this] show ?thesis using enq r by (auto simp: Let_def split: option.splits)
  qed simp
qed simp

lemma drain_round_not_Panicked:
  assumes "cas_store (me_store (p_enqueuer p)) objs"
  shows "drain_round (casWithRetry env shut) order n cm p s \<noteq> Some (Panicked, cm', p', s')"
proof -
  have "casWithRetry env shut items p s \<noteq> Some (Panicked, p'', s'')" for items p'' s''
    unfolding casWithRetry_def Let_def by (rule cas_loop_not_Panicked [OF assms refl])
  then have "commit_group (casWithRetry env shut) grp p s \<noteq> Some (Panicked, p'', s'')" for grp p'' s''
    by (auto simp: commit_group_def Let_def split: option.splits run.splits)
  then show ?thesis
    by (auto simp: drain_round_def Let_def enterHalted_def split: prod.splits option.splits run.splits if_splits)
qed

lemma batch_size_pos: "0 < batch_size p"
  by (simp add: batch_size_def Let_def)

lemma committer_drain_keeps:
  assumes "pipeline_inv st" and "committer_drain env shut order st = Some st'" and "order_ok order"
    and "cas_store (me_store (p_enqueuer (pl_prod st))) objs"
  shows "keeps st st' \<and> pl_panicked st' = pl_panicked st"
proof -
  let ?D = "{n. n < rt_ordinal (pl_rot st)} - set_mset (upstream st)" and ?cm = "pl_cm st" and ?p = "pl_prod st"
  obtain w where dr: "pl_draining st = Some w" and out: "pl_cmOut st = []"
    using assms(2) by (auto simp: committer_drain_def split: option.splits list.splits)
  have ord: "ordinal_inv st" using assms(1) by (simp add: pipeline_inv_def)
  then have live: "\<not> cm_halted ?cm" and tr: "tracks ?D (cm_next ?cm) (cm_ready ?cm)" and key: "keyed (cm_ready ?cm)"
    using dr by (auto simp: ordinal_inv_def)
  have nw: "no_wrap ?D" by (rule no_wrap_below [of _ "rt_ordinal (pl_rot st)"]) auto
  obtain r cm1 p1 s1 where rnd: "drain_round (casWithRetry env shut) order (batch_size ?p) ?cm ?p (pl_store st) =
      Some (r, cm1, p1, s1)"
    using assms(2) dr out by (auto simp: committer_drain_def split: option.splits)
  have "r \<noteq> Panicked" using rnd drain_round_not_Panicked [OF assms(4)] by auto
  then obtain prs go where r: "r = Returned (prs, go)" by (cases r) auto
  note round = drain_round_outcome [OF assms(3) nw batch_size_pos rnd [unfolded r] tr key live]
  obtain cm2 p2 where st': "st' = st\<lparr>pl_cm := cm2, pl_prod := p2, pl_store := s1, pl_cmOut := map resolve_item prs,
      pl_draining := (if go then Some w else None)\<rparr>"
    and cm2: "cm_ready cm2 = cm_ready cm1" "cm_next cm2 = cm_next cm1" "cm_halted cm2 = cm_halted cm1"
    and p2: "same_core p1 p2"
    using assms(2) dr out rnd r
    by (cases st, cases go) (auto simp: committer_drain_def Let_def split: if_splits)
  have "ordinal_inv st'"
    using ord round dr unfolding ordinal_inv_def by (auto simp: st' cm2 upstream_def)
  moreover have "in_flight st' = in_flight st"
    using conjunct1 [OF round, symmetric] unfolding in_flight_def st'
    by (simp add: cm2 out multiset.map_comp comp_def)
  moreover have "same_core ?p p2" using same_core_trans [OF drain_round_core [OF rnd] p2] .
  ultimately have "keeps st st'" by (intro keeps_same_load [OF assms(1)]) (simp_all add: st')
  then show ?thesis by (simp add: st')
qed

text \<open>The resolver ends a batch.\<close>

lemma load_simps [simp]:
  "load_watchers {#} = {#}" "load_watchers (add_mset l M) = mset (fst l) + load_watchers M"
  "load_watchers (M + N) = load_watchers M + load_watchers N"
  "load_bytes {#} = 0" "load_bytes (add_mset l M) = snd l + load_bytes M"
  "load_bytes (M + N) = load_bytes M + load_bytes N"
  by (simp_all add: load_watchers_def load_bytes_def)

lemma load_bytes_nonneg: "\<forall>l \<in># M. 0 \<le> snd l \<Longrightarrow> 0 \<le> load_bytes M"
  by (induction M) simp_all

lemma sum_cost_nonneg: "list_all message_ok ms \<Longrightarrow> 0 \<le> sum_cost ms"
  by (induction ms) (auto simp: message_ok_def)

lemma acc_cost_nonneg: "message_inv st \<Longrightarrow> 0 \<le> ba_byteCost (rt_batch (pl_rot st))"
  using sum_cost_nonneg by (auto simp: message_inv_def holds_def)

lemma resolver_run_keeps:
  assumes "pipeline_inv st" and "resolver_run st = Some st'"
  shows "keeps st st' \<and> pl_panicked st' = pl_panicked st"
proof -
  let ?p = "pl_prod st"
  obtain ri where ri: "pl_res st = Some ri" using assms(2) by (auto simp: resolver_run_def split: option.splits)
  have ok: "producer_ok ?p" and mi: "message_inv st" and bi: "reservation_inv st" and wi: "watcher_inv st" and oi: "ordinal_inv st"
    using assms(1) by (auto simp: pipeline_inv_def)
  from resolver_body_effect [OF ok, of ri] obtain p' where body: "resolver_body ri ?p = Ok p'" and ok': "producer_ok p'"
    and ws: "p_watchers p' = (\<lambda>w. if w \<in> set (ri_watchers ri) then resolved (ri_err ri) (p_watchers ?p w) else p_watchers ?p w)"
    and bytes: "bytesUsed (p_budget p') = max 0 (bytesUsed (p_budget ?p) - ri_byteCost ri)"
    and batches: "batchesUsed (p_budget p') = max 0 (batchesUsed (p_budget ?p) - 1)" by blast
  have st': "st' = st\<lparr>pl_res := None, pl_prod := p'\<rparr>" using assms(2) ri body by (simp add: resolver_run_def)
  have fl: "in_flight st = add_mset (ri_load ri) (in_flight st')" by (simp add: in_flight_def st' ri)
  have acc: "accepted st = mset (ri_watchers ri) + accepted st'"
    by (simp add: accepted_def waiting_watchers_def fl st' ri_load_def)
  have nonneg: "0 \<le> sum_cost (pl_sending st) + sum_cost (pl_appendCh st) + ba_byteCost (rt_batch (pl_rot st))"
    using mi sum_cost_nonneg [of "pl_sending st"] sum_cost_nonneg [of "pl_appendCh st"] acc_cost_nonneg [of st]
    by (simp add: message_inv_def)
  have "reservation_inv st'"
    using bi nonneg load_bytes_nonneg [of "in_flight st'"] bytes batches
    unfolding reservation_inv_def fl by (simp add: st' ri_load_def)
  moreover have "watcher_inv st'"
    unfolding watcher_inv_def
  proof (intro conjI allI impI)
    fix w
    let ?c = "count (mset (map am_watcher (pl_sending st')) + accepted st') w"
    have le: "count (mset (ri_watchers ri)) w + ?c \<le> (if w < pl_nextWatcher st \<and> \<not> w_done (p_watchers ?p w) then 1 else 0)"
      using wi by (simp add: watcher_inv_def acc st' ac_simps)
    show "?c \<le> (if w < pl_nextWatcher st' \<and> \<not> w_done (p_watchers (pl_prod st') w) then 1 else 0)"
    proof (cases "w \<in> set (ri_watchers ri)")
      case True
      then have "0 < count (mset (ri_watchers ri)) w" by (simp add: count_greater_zero_iff)
      moreover have "count (mset (ri_watchers ri)) w + ?c \<le> 1" by (rule order_trans [OF le]) simp
      ultimately have "?c = 0" by linarith
      then show ?thesis by simp
    next
      case False
      then show ?thesis using le by (simp add: st' ws)
    qed
  next
    fix w assume "pl_nextWatcher st' \<le> w"
    then have n: "\<not> w < pl_nextWatcher st" by (simp add: st')
    have "count (mset (map am_watcher (pl_sending st)) + accepted st) w = 0"
      using conjunct1 [OF wi [unfolded watcher_inv_def], rule_format, of w] n by simp
    then have "w \<notin> set (ri_watchers ri)" by (simp add: acc)
    then show "\<not> w_done (p_watchers (pl_prod st') w)" using wi n by (simp add: watcher_inv_def st' ws)
  qed
  moreover have "upstream st' = upstream st" by (simp add: upstream_def st')
  then have "ordinal_inv st'" using oi unfolding ordinal_inv_def by (simp add: st')
  moreover have "message_inv st'" using mi by (simp add: message_inv_def st')
  moreover have "advances st st'"
    unfolding advances_def acc fl by (auto simp: st' ws ri_load_def)
  moreover have "producer_ok (pl_prod st')" using ok' by (simp add: st')
  ultimately have "keeps st st'" by (simp add: keeps_def pipeline_inv_def)
  then show ?thesis by (simp add: st')
qed

lemma keepsI:
  "producer_ok (pl_prod st') \<Longrightarrow> message_inv st' \<Longrightarrow> reservation_inv st' \<Longrightarrow> watcher_inv st' \<Longrightarrow> ordinal_inv st' \<Longrightarrow>
     advances st st' \<Longrightarrow> keeps st st'"
  by (simp add: keeps_def pipeline_inv_def)

text \<open>Callers of \<^verbatim>\<open>AppendContext\<close>.\<close>

lemma appendByteCost_nonneg: "0 \<le> appendByteCost entries metadata"
proof -
  have "0 \<le> n \<Longrightarrow> 0 \<le> foldl (\<lambda>total e. total + int (length e)) n entries" for n
    by (induction entries arbitrary: n) simp_all
  then show ?thesis by (simp add: appendByteCost_def)
qed

lemma AppendContext_reserve_keeps:
  assumes "pipeline_inv st" and "AppendContext_reserve entries metadata now st = Some st'"
  shows "keeps st st' \<and> pl_panicked st' = pl_panicked st"
proof -
  let ?p = "pl_prod st" and ?n = "appendByteCost entries metadata" and ?w = "pl_nextWatcher st"
  obtain out b h where att: "reserve_attempt ?n (p_budget ?p) (p_signals ?p) = (out, b, h)" by (metis prod_cases3)
  have inv: "producer_ok ?p" "message_inv st" "reservation_inv st" "watcher_inv st" "ordinal_inv st"
    using assms(1) by (auto simp: pipeline_inv_def)
  have n: "int (nat ?n) = ?n" using appendByteCost_nonneg [of entries metadata] by simp
  have bok: "budget_ok b h"
    using attempt_ok [of "p_budget ?p" "p_signals ?p" "ReserveBytes (nat ?n)" out b h] inv(1) att n
    by (simp add: producer_ok_def)
  have ne: "entries \<noteq> []"
    using assms(2) by (auto simp: AppendContext_reserve_def Let_def split: if_splits)
  show ?thesis
  proof (cases out)
    case (WaitOn c)
    then have st': "st' = st\<lparr>pl_prod := ?p\<lparr>p_budget := b, p_signals := h\<rparr>\<rparr>"
      using assms(2) ne att by (simp add: AppendContext_reserve_def Let_def)
    have "bytesUsed b = bytesUsed (p_budget ?p)" "batchesUsed b = batchesUsed (p_budget ?p)"
      using att WaitOn by (auto simp: reserve_attempt_def ensureWaiterLocked_def split: if_splits option.splits prod.splits)
    moreover have fl: "in_flight st' = in_flight st" "upstream st' = upstream st" "accepted st' = accepted st"
      by (simp_all add: st' in_flight_def upstream_def accepted_def waiting_watchers_def)
    moreover have "producer_ok (pl_prod st')" using inv(1) bok by (simp add: st' producer_ok_def)
    ultimately show ?thesis
      using inv(2-5) unfolding keeps_def advances_def pipeline_inv_def message_inv_def reservation_inv_def
        watcher_inv_def ordinal_inv_def fl by (simp add: st')
  next
    case Granted
    then have b: "b = (p_budget ?p)\<lparr>bytesUsed := bytesUsed (p_budget ?p) + ?n\<rparr>"
      using att by (auto simp: reserve_attempt_def split: if_splits prod.splits)
    define m where "m = \<lparr>am_entries = entries, am_metadata = metadata, am_ingestionTimeMs = now,
      am_watcher = ?w, am_byteCost = ?n\<rparr>"
    have st': "st' = st\<lparr>pl_prod := emitInflightSnapshot (?p\<lparr>p_budget := b, p_signals := h\<rparr>),
        pl_sending := pl_sending st @ [m], pl_nextWatcher := ?w + 1\<rparr>"
      using assms(2) ne att Granted by (simp add: AppendContext_reserve_def Let_def m_def)
    have m: "message_ok m" using ne appendByteCost_nonneg by (simp add: message_ok_def nonempty_def m_def)
    have fl: "in_flight st' = in_flight st" "upstream st' = upstream st" "accepted st' = accepted st"
      by (simp_all add: st' in_flight_def upstream_def accepted_def waiting_watchers_def)
    have ws: "p_watchers (pl_prod st') = p_watchers ?p" by (simp add: st' emitInflightSnapshot_eq)
    have "watcher_inv st'"
      unfolding watcher_inv_def fl ws
    proof (intro conjI allI impI)
      fix w
      define c where "c = count (mset (map am_watcher (pl_sending st)) + accepted st) w"
      have le: "c \<le> (if w < ?w \<and> \<not> w_done (p_watchers ?p w) then 1 else 0)"
        and new: "?w \<le> w \<longrightarrow> \<not> w_done (p_watchers ?p w)" using inv(4) by (auto simp: watcher_inv_def c_def)
      have "count (mset (map am_watcher (pl_sending st')) + accepted st) w = c + (if w = ?w then 1 else 0)"
        by (simp add: st' m_def c_def)
      moreover have "c + (if w = ?w then 1 else 0) \<le> (if w < ?w + 1 \<and> \<not> w_done (p_watchers ?p w) then 1 else 0)"
        using le new by (cases w "?w" rule: linorder_cases) (simp_all split: if_splits)
      ultimately show "count (mset (map am_watcher (pl_sending st')) + accepted st) w \<le>
          (if w < pl_nextWatcher st' \<and> \<not> w_done (p_watchers ?p w) then 1 else 0)" by (simp add: st')
      show "\<not> w_done (p_watchers ?p w)" if "pl_nextWatcher st' \<le> w" using that new by (simp add: st')
    qed
    moreover have "reservation_inv st'"
      using inv(3) unfolding reservation_inv_def fl by (simp add: st' emitInflightSnapshot_eq b m_def)
    moreover have "message_inv st'" using inv(2) m by (auto simp: message_inv_def st')
    moreover have "ordinal_inv st'" using inv(5) unfolding ordinal_inv_def fl by (simp add: st')
    moreover have "producer_ok (pl_prod st')" using inv(1) bok by (simp add: st' producer_ok_def emitInflightSnapshot_eq)
    moreover have "advances st st'" unfolding advances_def fl by (simp add: st' emitInflightSnapshot_eq)
    ultimately have "keeps st st'" by (intro keepsI)
    then show ?thesis by (simp add: st')
  qed
qed

lemma remove_at_mset:
  assumes "i < length xs"
  shows "mset (map f xs) = add_mset (f (xs ! i)) (mset (map f (remove_at i xs)))"
    and "sum_list (map g xs) = g (xs ! i) + (sum_list (map g (remove_at i xs)) :: int)"
    and "list_all P xs \<longleftrightarrow> P (xs ! i) \<and> list_all P (remove_at i xs)"
proof -
  have xs: "xs = take i xs @ xs ! i # drop (Suc i) xs" using assms by (rule id_take_nth_drop)
  show "mset (map f xs) = add_mset (f (xs ! i)) (mset (map f (remove_at i xs)))"
    by (subst xs) (simp add: remove_at_def)
  show "sum_list (map g xs) = g (xs ! i) + (sum_list (map g (remove_at i xs)) :: int)"
    by (subst xs) (simp add: remove_at_def)
  show "list_all P xs \<longleftrightarrow> P (xs ! i) \<and> list_all P (remove_at i xs)"
    by (subst xs) (auto simp: remove_at_def)
qed

lemma AppendContext_send_keeps:
  assumes "pipeline_inv st" and "AppendContext_send i st = Some st'"
  shows "keeps st st' \<and> (pl_panicked st' \<longrightarrow> pl_panicked st \<or> pl_closed st)"
proof -
  have i: "i < length (pl_sending st)" using assms(2) by (auto simp: AppendContext_send_def split: if_splits)
  show ?thesis
  proof (cases "pl_closed st")
    case True
    then show ?thesis using assms i crash_keeps by (auto simp: AppendContext_send_def)
  next
    case False
    define m where "m = pl_sending st ! i"
    obtain evs where st': "st' = st\<lparr>pl_sending := remove_at i (pl_sending st), pl_appendCh := pl_appendCh st @ [m],
        pl_prod := observe evs (pl_prod st)\<rparr>"
      using assms(2) i False by (auto simp: AppendContext_send_def Let_def m_def split: if_splits)
    have inv: "producer_ok (pl_prod st)" "message_inv st" "reservation_inv st" "watcher_inv st" "ordinal_inv st"
      using assms(1) by (auto simp: pipeline_inv_def)
    note rm = remove_at_mset [OF i, folded m_def]
    have fl: "in_flight st' = in_flight st" "upstream st' = upstream st"
      by (simp_all add: st' in_flight_def upstream_def)
    have acc: "accepted st' = add_mset (am_watcher m) (accepted st)"
      by (simp add: st' accepted_def waiting_watchers_def in_flight_def)
    have ws: "mset (map am_watcher (pl_sending st')) + accepted st' = mset (map am_watcher (pl_sending st)) + accepted st"
        "pl_nextWatcher st' = pl_nextWatcher st" "p_watchers (pl_prod st') = p_watchers (pl_prod st)"
      unfolding rm(1) acc by (simp_all add: st')
    have "watcher_inv st'" using inv(4) unfolding watcher_inv_def ws .
    moreover have "reservation_inv st'" using inv(3) unfolding reservation_inv_def fl rm(2) by (simp add: st')
    moreover have "message_inv st'" using inv(2) unfolding message_inv_def rm(3) by (auto simp: st')
    moreover have "ordinal_inv st'" using inv(5) unfolding ordinal_inv_def fl by (simp add: st')
    moreover have "producer_ok (pl_prod st')" using inv(1) by (simp add: st')
    moreover have "advances st st'" unfolding advances_def fl acc ws by simp
    ultimately have "keeps st st'" by (intro keepsI)
    then show ?thesis by (simp add: st')
  qed
qed

lemma AppendContext_giveup_keeps:
  assumes "pipeline_inv st" and "AppendContext_giveup i st = Some st'"
  shows "keeps st st' \<and> pl_panicked st' = pl_panicked st"
proof -
  define m where "m = pl_sending st ! i"
  have i: "i < length (pl_sending st)" using assms(2) by (auto simp: AppendContext_giveup_def split: if_splits)
  have inv: "producer_ok (pl_prod st)" "message_inv st" "reservation_inv st" "watcher_inv st" "ordinal_inv st"
    using assms(1) by (auto simp: pipeline_inv_def)
  from budget_release_effect [OF inv(1), of 0 "am_byteCost m"] obtain b h where
    rel: "budget_release (am_byteCost m) 0 (pl_prod st) = Ok (pl_prod st\<lparr>p_budget := b, p_signals := h\<rparr>)"
      "producer_ok (pl_prod st\<lparr>p_budget := b, p_signals := h\<rparr>)"
      "bytesUsed b = max 0 (bytesUsed (p_budget (pl_prod st)) - am_byteCost m)"
      "batchesUsed b = max 0 (batchesUsed (p_budget (pl_prod st)) - 0)"
    by (metis order_refl)
  have st': "st' = st\<lparr>pl_sending := remove_at i (pl_sending st),
      pl_prod := emitInflightSnapshot (pl_prod st\<lparr>p_budget := b, p_signals := h\<rparr>)\<rparr>"
    using assms(2) i rel(1) by (simp add: AppendContext_giveup_def m_def)
  note rm = remove_at_mset [OF i, folded m_def]
  have fl: "in_flight st' = in_flight st" "upstream st' = upstream st" "accepted st' = accepted st"
    by (simp_all add: st' in_flight_def upstream_def accepted_def waiting_watchers_def)
  have ws: "p_watchers (pl_prod st') = p_watchers (pl_prod st)" by (simp add: st' emitInflightSnapshot_eq)
  have "watcher_inv st'"
    unfolding watcher_inv_def fl ws
  proof (intro conjI allI)
    fix w
    have "count (mset (map am_watcher (pl_sending st')) + accepted st) w \<le>
        count (mset (map am_watcher (pl_sending st)) + accepted st) w"
      unfolding rm(1) by (simp add: st')
    also have "\<dots> \<le> (if w < pl_nextWatcher st \<and> \<not> w_done (p_watchers (pl_prod st) w) then 1 else 0)"
      using inv(4) unfolding watcher_inv_def by blast
    finally show "count (mset (map am_watcher (pl_sending st')) + accepted st) w \<le>
        (if w < pl_nextWatcher st' \<and> \<not> w_done (p_watchers (pl_prod st) w) then 1 else 0)" by (simp add: st')
    show "pl_nextWatcher st' \<le> w \<longrightarrow> \<not> w_done (p_watchers (pl_prod st) w)"
      using inv(4) unfolding watcher_inv_def by (simp add: st')
  qed
  moreover have ms: "message_inv st'" using inv(2) unfolding message_inv_def rm(3) by (auto simp: st')
  moreover have "reservation_inv st'"
  proof -
    have "0 \<le> sum_cost (pl_sending st') + sum_cost (pl_appendCh st) + ba_byteCost (rt_batch (pl_rot st)) +
        load_bytes (in_flight st)"
      using ms sum_cost_nonneg [of "pl_sending st'"] sum_cost_nonneg [of "pl_appendCh st"] acc_cost_nonneg [OF inv(2)]
        load_bytes_nonneg [of "in_flight st"] inv(3) by (simp add: message_inv_def reservation_inv_def st')
    then show ?thesis
      using inv(3) rel(3,4) unfolding reservation_inv_def fl rm(2) by (simp add: st' emitInflightSnapshot_eq)
  qed
  moreover have "ordinal_inv st'" using inv(5) unfolding ordinal_inv_def fl by (simp add: st')
  moreover have "producer_ok (pl_prod st')" using rel(2) by (simp add: st')
  moreover have "advances st st'" unfolding advances_def fl ws by simp
  ultimately have "keeps st st'" by (intro keepsI)
  then show ?thesis by (simp add: st')
qed

text \<open>The rotator.\<close>

lemma keeps_trans: "keeps st st' \<Longrightarrow> keeps st' st'' \<Longrightarrow> keeps st st''"
  using advances_trans by (auto simp: keeps_def)

lemma rotator_receives_split: "rotator_receives cs now st = Some (ev, ch) \<Longrightarrow> received ev @ ch = pl_appendCh st"
  by (cases cs) (auto simp: comp_def split: list.splits if_splits)

lemma rotator_select_same_core: "rotator_select now ev rt p = (req, rt', p') \<Longrightarrow> same_core p p'"
  by (cases ev) (auto simp: Let_def split: if_splits prod.splits)

text \<open>Receiving moves messages from \<^verbatim>\<open>appendCh\<close> into the open batch.\<close>

lemma receive_keeps:
  assumes "pipeline_inv st" and "rotator_receives cs now st = Some (ev, ch)"
    and "rotator_select now ev (pl_rot st) (pl_prod st) = (req, rt', p')"
    and st': "st' = st\<lparr>pl_prod := p', pl_rot := rt', pl_appendCh := ch\<rparr>"
  shows "keeps st st'"
proof -
  have inv: "producer_ok (pl_prod st)" "message_inv st" "reservation_inv st" "watcher_inv st" "ordinal_inv st"
    using assms(1) by (auto simp: pipeline_inv_def)
  note ch = rotator_receives_split [OF assms(2), symmetric]
  obtain msgs where msgs: "holds msgs (rt_batch (pl_rot st))" "list_all message_ok msgs"
    using inv(2) by (auto simp: message_inv_def)
  note sel = rotator_select_holds [OF msgs(1) assms(3)]
  note core = rotator_select_same_core [OF assms(3), unfolded same_core_def]
  have fl: "in_flight st' = in_flight st" "upstream st' = upstream st"
    by (simp_all add: st' in_flight_def upstream_def)
  have acc: "accepted st' = accepted st"
    using msgs(1) sel unfolding accepted_def fl by (simp add: st' waiting_watchers_def ch holds_def)
  have "producer_ok (pl_prod st')" using sel inv(1) by (simp add: st')
  moreover have "message_inv st'"
    using inv(2) msgs(2) sel by (auto simp: message_inv_def ch st' intro!: exI [of _ "msgs @ received ev"])
  moreover have "reservation_inv st'"
    using inv(3) core sel msgs(1) unfolding reservation_inv_def fl by (simp add: ch st' holds_def)
  moreover have "watcher_inv st'" using inv(4) core unfolding watcher_inv_def acc by (simp add: st')
  moreover have "ordinal_inv st'" using inv(5) sel unfolding ordinal_inv_def fl by (simp add: st')
  moreover have "advances st st'" using core unfolding advances_def fl acc by (simp add: st')
  ultimately show ?thesis by (intro keepsI)
qed

lemma emit_granted:
  assumes "holds msgs (rt_batch rt)" and "list_all message_ok msgs" and "msgs \<noteq> []" and "producer_ok p"
    and "batchesUsed (p_budget p) < maxBatches (p_budget p)" and "0 \<le> bytesUsed (p_budget p)"
  shows "\<exists>pb p'. emit try_acquire now reason ack rt p =
      Ok (Emitted pb, rt\<lparr>rt_batch := snd (batch_reset (rt_batch rt)), rt_ordinal := rt_ordinal rt + 1\<rparr>, p') \<and>
    carries pb msgs \<and> pb_ordinal pb = rt_ordinal rt \<and> producer_ok p' \<and> p_watchers p' = p_watchers p \<and>
    bytesUsed (p_budget p') = bytesUsed (p_budget p) + framing_extra (pb_entries pb) \<and>
    batchesUsed (p_budget p') = batchesUsed (p_budget p) + 1"
proof -
  have ne: "\<not> batch_isEmpty (rt_batch rt)"
    using holds_isEmpty [OF assms(1)] assms(2,3) by (simp add: message_ok_def list_all_iff)
  let ?p1 = "p\<lparr>p_budget := (p_budget p)\<lparr>batchesUsed := batchesUsed (p_budget p) + 1\<rparr>\<rparr>"
  have acq: "try_acquire p = (None, ?p1)" using assms(5) by (simp add: try_acquire_def acquire_attempt_def)
  have "producer_ok ?p1" using try_acquire_ok assms(4) acq unfolding acquire_ok_def by (metis snd_conv)
  define q where "q = (emitInflightSnapshot ?p1)\<lparr>p_oldestUnflushedNs := 0\<rparr>"
  have ok: "producer_ok q" and q: "bytesUsed (p_budget q) = bytesUsed (p_budget p)"
      "batchesUsed (p_budget q) = batchesUsed (p_budget p) + 1" "p_watchers q = p_watchers p"
    using \<open>producer_ok ?p1\<close> by (simp_all add: q_def) (simp_all add: emitInflightSnapshot_eq)
  obtain b h where
    add: "budget_addReservation (framing_extra (ba_entries (rt_batch rt))) q = Ok (q\<lparr>p_budget := b, p_signals := h\<rparr>)"
      "producer_ok (q\<lparr>p_budget := b, p_signals := h\<rparr>)"
      "bytesUsed b = max 0 (bytesUsed (p_budget q) + framing_extra (ba_entries (rt_batch rt)))"
      "batchesUsed b = batchesUsed (p_budget q)"
    by (rule budget_addReservation_effect [OF ok])
  have "0 \<le> framing_extra es" for es by (simp add: framing_extra_def batchEntryLenSize_def batchFooterSize_def)
  then have "bytesUsed b = bytesUsed (p_budget p) + framing_extra (ba_entries (rt_batch rt))"
    using add(3) assms(6) q by (simp add: add_nonneg_nonneg)
  then show ?thesis
    using ne acq add(1,2,4) assms(1) q
    by (auto simp: emit_def emit_pending_def batch_reset_def carries_def holds_def Let_def q_def [symmetric])
      (simp_all add: emitInflightSnapshot_eq)
qed

lemma emit_refused:
  assumes "holds msgs (rt_batch rt)" and "list_all message_ok msgs" and "msgs \<noteq> []" and "producer_ok p"
    and "\<not> batchesUsed (p_budget p) < maxBatches (p_budget p)" and "0 \<le> batchesUsed (p_budget p)"
  shows "\<exists>p'. emit try_acquire now reason ack rt p =
      Ok (DroppedOnShutdown (map am_watcher msgs), rt\<lparr>rt_batch := snd (batch_reset (rt_batch rt))\<rparr>, p') \<and>
    producer_ok p' \<and> p_watchers p' = (\<lambda>w. if w \<in> set (map am_watcher msgs)
      then resolved (Some ErrShutdown) (p_watchers p w) else p_watchers p w) \<and>
    bytesUsed (p_budget p') = max 0 (bytesUsed (p_budget p) - ba_byteCost (rt_batch rt)) \<and>
    batchesUsed (p_budget p') = batchesUsed (p_budget p)"
proof -
  have ne: "\<not> batch_isEmpty (rt_batch rt)"
    using holds_isEmpty [OF assms(1)] assms(2,3) by (simp add: message_ok_def list_all_iff)
  obtain c h' where sg: "make_signal (p_signals p) = (c, h')" by fastforce
  obtain e p1 where acq: "try_acquire p = (Some e, p1)" "bytesUsed (p_budget p1) = bytesUsed (p_budget p)"
      "batchesUsed (p_budget p1) = batchesUsed (p_budget p)" "p_watchers p1 = p_watchers p"
    using assms(5) sg
    by (cases "waiter (p_budget p)") (auto simp: try_acquire_def acquire_attempt_def ensureWaiterLocked_def Let_def)
  have "producer_ok p1" using try_acquire_ok assms(4) acq(1) unfolding acquire_ok_def by (metis snd_conv)
  from budget_release_effect [OF this, of 0 "ba_byteCost (rt_batch rt)"] obtain b h where
    rel: "budget_release (ba_byteCost (rt_batch rt)) 0 p1 = Ok (p1\<lparr>p_budget := b, p_signals := h\<rparr>)"
      "producer_ok (p1\<lparr>p_budget := b, p_signals := h\<rparr>)"
      "bytesUsed b = max 0 (bytesUsed (p_budget p1) - ba_byteCost (rt_batch rt))"
      "batchesUsed b = max 0 (batchesUsed (p_budget p1) - 0)"
    by (metis order_refl)
  define q where "q = (emitInflightSnapshot (p1\<lparr>p_budget := b, p_signals := h\<rparr>))\<lparr>p_oldestUnflushedNs := 0\<rparr>"
  have ok: "producer_ok q" using rel(2) by (simp add: q_def)
  have q: "p_budget q = b" "p_watchers q = p_watchers p" using acq by (simp_all add: q_def emitInflightSnapshot_eq)
  note res = watchers_resolve_Ok [OF ok, of "ba_watchers (rt_batch rt)" "Some ErrShutdown", unfolded q]
    producer_ok_resolved [OF ok, of "ba_watchers (rt_batch rt)" "Some ErrShutdown", unfolded q]
  show ?thesis
    using ne acq(1-3) rel(1,3,4) assms(1,6) res q
    by (simp add: emit_def emit_dropped_def batch_reset_def holds_def Let_def q_def [symmetric])
qed
lemma keeps_emitted:
  assumes "pipeline_inv st" and "pl_rotOut st = None" and ord: "rt_ordinal (pl_rot st) \<noteq> - 1"
    and msgs: "holds msgs (rt_batch (pl_rot st))" "list_all message_ok msgs"
    and pb: "carries pb msgs" "pb_ordinal pb = rt_ordinal (pl_rot st)"
    and p': "producer_ok p'" "p_watchers p' = p_watchers (pl_prod st)"
      "bytesUsed (p_budget p') = bytesUsed (p_budget (pl_prod st)) + framing_extra (pb_entries pb)"
      "batchesUsed (p_budget p') = batchesUsed (p_budget (pl_prod st)) + 1"
    and rt': "rt' = (pl_rot st)\<lparr>rt_batch := snd (batch_reset (rt_batch (pl_rot st))), rt_ordinal := rt_ordinal (pl_rot st) + 1\<rparr>"
    and st': "st' = st\<lparr>pl_prod := p', pl_rot := rt', pl_rotOut := Some pb\<rparr>"
  shows "keeps st st'"
proof -
  let ?x = "rt_ordinal (pl_rot st)"
  have inv: "producer_ok (pl_prod st)" "message_inv st" "reservation_inv st" "watcher_inv st" "ordinal_inv st"
    using assms(1) by (auto simp: pipeline_inv_def)
  note empty = holds_reset [of "rt_batch (pl_rot st)"]
  have fl: "in_flight st' = add_mset (pb_load pb) (in_flight st)" "upstream st' = add_mset ?x (upstream st)"
    using assms(2) pb(2) by (simp_all add: st' in_flight_def upstream_def)
  have acc: "accepted st' = accepted st"
    using msgs(1) empty pb(1) unfolding accepted_def fl
    by (simp add: st' rt' waiting_watchers_def holds_def carries_def pb_load_def)
  have extra: "0 \<le> framing_extra es" for es by (simp add: framing_extra_def batchEntryLenSize_def batchFooterSize_def)
  have "producer_ok (pl_prod st')" using p' by (simp add: st')
  moreover have "message_inv st'"
    using inv(2) empty by (auto simp: message_inv_def st' rt' intro!: exI [of _ "[]"])
  moreover have "reservation_inv st'"
    using inv(3) p'(3,4) msgs empty pb(1) extra sum_cost_nonneg [OF msgs(2)] unfolding reservation_inv_def fl
    by (auto simp: st' rt' pb_load_def carries_def holds_def)
  moreover have "watcher_inv st'" using inv(4) p'(2) unfolding watcher_inv_def acc by (simp add: st')
  moreover have "ordinal_inv st'"
  proof -
    have lt: "n < ?x + 1 \<longleftrightarrow> n \<le> ?x" for n :: u64 using inc_less_eq_iff [of ?x n] ord by (auto simp: not_le [symmetric])
    have "{n. n < ?x + 1} - set_mset (add_mset ?x (upstream st)) = {n. n < ?x} - set_mset (upstream st)"
      unfolding lt by auto
    moreover have "count (add_mset ?x (upstream st)) n \<le> (if n < ?x + 1 then 1 else 0)" for n
      using inv(5) [unfolded ordinal_inv_def, THEN conjunct1, rule_format, of n] unfolding lt
      by (cases "n = ?x") (auto split: if_splits)
    ultimately show ?thesis
      using inv(5) unfolding ordinal_inv_def fl by (simp add: st' rt')
  qed
  moreover have "advances st st'"
    using p'(2) unfolding advances_def acc fl by (simp add: st')
  ultimately show ?thesis by (intro keepsI)
qed

lemma keeps_dropped:
  assumes "pipeline_inv st" and "pl_rotOut st = None"
    and msgs: "holds msgs (rt_batch (pl_rot st))" "list_all message_ok msgs"
    and p': "producer_ok p'" "p_watchers p' = (\<lambda>w. if w \<in> set (map am_watcher msgs)
        then resolved (Some ErrShutdown) (p_watchers (pl_prod st) w) else p_watchers (pl_prod st) w)"
      "bytesUsed (p_budget p') = max 0 (bytesUsed (p_budget (pl_prod st)) - ba_byteCost (rt_batch (pl_rot st)))"
      "batchesUsed (p_budget p') = batchesUsed (p_budget (pl_prod st))"
    and rt': "rt' = (pl_rot st)\<lparr>rt_batch := snd (batch_reset (rt_batch (pl_rot st)))\<rparr>"
    and st': "st' = st\<lparr>pl_prod := p', pl_rot := rt', pl_rotOut := None\<rparr>"
  shows "keeps st st'"
proof -
  have inv: "producer_ok (pl_prod st)" "message_inv st" "reservation_inv st" "watcher_inv st" "ordinal_inv st"
    using assms(1) by (auto simp: pipeline_inv_def)
  note empty = holds_reset [of "rt_batch (pl_rot st)"]
  let ?ws = "mset (map am_watcher msgs)"
  have fl: "in_flight st' = in_flight st" "upstream st' = upstream st"
    using assms(2) by (simp_all add: st' in_flight_def upstream_def)
  have acc: "accepted st = accepted st' + ?ws"
    using msgs(1) empty unfolding accepted_def fl by (simp add: st' rt' waiting_watchers_def holds_def)
  have "producer_ok (pl_prod st')" using p' by (simp add: st')
  moreover have "message_inv st'"
    using inv(2) empty by (auto simp: message_inv_def st' rt' intro!: exI [of _ "[]"])
  moreover have "reservation_inv st'"
    using inv(2,3) p'(3,4) msgs empty sum_cost_nonneg [of "pl_sending st"] sum_cost_nonneg [of "pl_appendCh st"]
      load_bytes_nonneg [of "in_flight st"] unfolding reservation_inv_def fl message_inv_def
    by (auto simp: st' rt' holds_def)
  moreover have "watcher_inv st'"
    unfolding watcher_inv_def
  proof (intro conjI allI impI)
    fix w
    let ?s = "mset (map am_watcher (pl_sending st))"
    have c: "count ?s w + (count (accepted st') w + count ?ws w) \<le>
        (if w < pl_nextWatcher st \<and> \<not> w_done (p_watchers (pl_prod st) w) then 1 else 0)"
      using inv(4) unfolding watcher_inv_def acc by (simp only: count_union)
    have mem: "w \<in> set (map am_watcher msgs) \<longleftrightarrow> 1 \<le> count ?ws w"
      by (metis One_nat_def Suc_leI count_greater_zero_iff le_zero_eq not_gr_zero not_one_le_zero set_mset_mset)
    show "count (mset (map am_watcher (pl_sending st')) + accepted st') w \<le>
        (if w < pl_nextWatcher st' \<and> \<not> w_done (p_watchers (pl_prod st') w) then 1 else 0)"
    proof (cases "w \<in> set (map am_watcher msgs)")
      case True
      then have "1 \<le> count ?ws w" using mem by simp
      moreover have "count ?s w + (count (accepted st') w + count ?ws w) \<le> 1" using c by (simp only: split: if_splits)
      ultimately have "count ?s w = 0 \<and> count (accepted st') w = 0" by linarith
      then have "count (mset (map am_watcher (pl_sending st')) + accepted st') w = 0" by (simp add: st')
      then show ?thesis by simp
    next
      case False
      then show ?thesis using c p'(2) by (auto simp: st' split: if_splits)
    qed
    show "\<not> w_done (p_watchers (pl_prod st') w)" if "pl_nextWatcher st' \<le> w"
    proof -
      have "count ?ws w = 0" using c that by (simp add: st')
      then have "w \<notin> set (map am_watcher msgs)" unfolding mem by linarith
      then show ?thesis using inv(4) that p'(2) by (simp add: watcher_inv_def st')
    qed
  qed
  moreover have "ordinal_inv st'" using inv(5) unfolding ordinal_inv_def fl by (simp add: st' rt')
  moreover have "advances st st'"
    using p'(2) unfolding advances_def acc fl by (auto simp: st')
  ultimately show ?thesis by (intro keepsI)
qed
lemma emit_keeps:
  assumes inv: "pipeline_inv st" and out: "pl_rotOut st = None" and ord: "rt_ordinal (pl_rot st) \<noteq> - 1"
  shows "\<exists>out rt' p'. emit try_acquire now reason ack (pl_rot st) (pl_prod st) = Ok (out, rt', p') \<and>
    keeps st (st\<lparr>pl_prod := p', pl_rot := rt', pl_rotOut := (case out of Emitted pb \<Rightarrow> Some pb | _ \<Rightarrow> None)\<rparr>) \<and>
    ba_watchers (rt_batch rt') = []"
proof -
  obtain msgs where msgs: "holds msgs (rt_batch (pl_rot st))" "list_all message_ok msgs"
    using inv by (auto simp: pipeline_inv_def message_inv_def)
  have ok: "producer_ok (pl_prod st)" using inv by (simp add: pipeline_inv_def)
  have used: "0 \<le> bytesUsed (p_budget (pl_prod st))" "0 \<le> batchesUsed (p_budget (pl_prod st))"
    using ok by (auto simp: producer_ok_def budget_ok_def)
  have none: "ba_watchers (snd (batch_reset b)) = []" for b by (simp add: batch_reset_def)
  show ?thesis
  proof (cases "msgs = []")
    case True
    let ?st' = "st\<lparr>pl_prod := send_ack ack None (pl_prod st), pl_rot := pl_rot st, pl_rotOut := None\<rparr>"
    have fl: "in_flight ?st' = in_flight st" "upstream ?st' = upstream st" "accepted ?st' = accepted st"
      using out by (simp_all add: in_flight_def upstream_def accepted_def waiting_watchers_def)
    have "keeps st ?st'"
      using inv unfolding keeps_def advances_def pipeline_inv_def message_inv_def reservation_inv_def watcher_inv_def
        ordinal_inv_def fl by simp
    moreover have "batch_isEmpty (rt_batch (pl_rot st))" "ba_watchers (rt_batch (pl_rot st)) = []"
      using True msgs(1) by (simp_all add: holds_def batch_isEmpty_def)
    ultimately show ?thesis by (simp add: emit_def)
  next
    case False
    show ?thesis
    proof (cases "batchesUsed (p_budget (pl_prod st)) < maxBatches (p_budget (pl_prod st))")
      case True
      from emit_granted [OF msgs False ok True used(1), of now reason ack] obtain pb p' where
        em: "emit try_acquire now reason ack (pl_rot st) (pl_prod st) = Ok (Emitted pb,
          (pl_rot st)\<lparr>rt_batch := snd (batch_reset (rt_batch (pl_rot st))), rt_ordinal := rt_ordinal (pl_rot st) + 1\<rparr>, p')"
          and pb: "carries pb msgs" "pb_ordinal pb = rt_ordinal (pl_rot st)" "producer_ok p'"
          "p_watchers p' = p_watchers (pl_prod st)"
          "bytesUsed (p_budget p') = bytesUsed (p_budget (pl_prod st)) + framing_extra (pb_entries pb)"
          "batchesUsed (p_budget p') = batchesUsed (p_budget (pl_prod st)) + 1"
        by blast
      from em keeps_emitted [OF inv out ord msgs pb refl refl] none show ?thesis by simp
    next
      case full: False
      from emit_refused [OF msgs False ok full used(2), of now reason ack] obtain p' where
        em: "emit try_acquire now reason ack (pl_rot st) (pl_prod st) =
          Ok (DroppedOnShutdown (map am_watcher msgs),
            (pl_rot st)\<lparr>rt_batch := snd (batch_reset (rt_batch (pl_rot st)))\<rparr>, p')"
          and p': "producer_ok p'" "p_watchers p' = (\<lambda>w. if w \<in> set (map am_watcher msgs)
            then resolved (Some ErrShutdown) (p_watchers (pl_prod st) w) else p_watchers (pl_prod st) w)"
          "bytesUsed (p_budget p') = max 0 (bytesUsed (p_budget (pl_prod st)) - ba_byteCost (rt_batch (pl_rot st)))"
          "batchesUsed (p_budget p') = batchesUsed (p_budget (pl_prod st))"
        by blast
      from em keeps_dropped [OF inv out msgs p' refl refl] none show ?thesis by simp
    qed
  qed
qed

lemma rotator_step_keeps:
  assumes inv: "pipeline_inv st" and step: "rotator_step cs now st = Some st'" and ord: "rt_ordinal (pl_rot st) \<noteq> - 1"
  shows "keeps st st' \<and> pl_panicked st' = pl_panicked st \<and> (cs = CaseFlush \<or> cs = CaseClosed \<longrightarrow> waiting_watchers st' = {#})"
proof -
  obtain ev ch where out: "pl_rotOut st = None" and recv: "rotator_receives cs now st = Some (ev, ch)"
    and step': "(case rotator_iter try_acquire now ev (pl_rot st) (pl_prod st) of
        Ok (out, rt, p) \<Rightarrow> Some (st\<lparr>pl_prod := p, pl_rot := rt, pl_appendCh := ch,
            pl_rotOut := (case out of Emitted pb \<Rightarrow> Some pb | _ \<Rightarrow> None), pl_rotExit := (cs = CaseClosed),
            pl_nextAck := (if cs = CaseFlush then pl_nextAck st + 1 else pl_nextAck st)\<rparr>)
      | _ \<Rightarrow> Some (crash st)) = Some st'"
    using step unfolding rotator_step_def by (cases "rotator_receives cs now st") (simp_all split: if_splits prod.splits)
  obtain req rt1 p1 where sel: "rotator_select now ev (pl_rot st) (pl_prod st) = (req, rt1, p1)" by (metis prod_cases3)
  define st1 where "st1 = st\<lparr>pl_prod := p1, pl_rot := rt1, pl_appendCh := ch\<rparr>"
  have k1: "keeps st st1" by (rule receive_keeps [OF inv recv sel st1_def])
  have rest: "keeps st2 (st2\<lparr>pl_rotExit := e, pl_nextAck := a\<rparr>)" if "pipeline_inv st2" for st2 :: "'a pipeline" and e a
    using that by (rule keeps_move) (simp_all add: in_flight_def upstream_def)
  show ?thesis
  proof (cases req)
    case None
    then have st': "st' = st1\<lparr>pl_rotExit := (cs = CaseClosed), pl_nextAck := (if cs = CaseFlush then pl_nextAck st + 1 else pl_nextAck st)\<rparr>"
      using step' sel out by (cases st) (simp add: rotator_iter_def st1_def)
    have "\<not> (cs = CaseFlush \<or> cs = CaseClosed)" using recv sel None by (auto simp: Let_def split: if_splits)
    moreover have "keeps st st'"
      unfolding st' by (rule keeps_trans [OF k1 rest]) (use k1 in \<open>simp add: keeps_def\<close>)
    ultimately show ?thesis by (simp add: st' st1_def)
  next
    case (Some r)
    have o1: "rt_ordinal (pl_rot st1) \<noteq> - 1" "pl_rotOut st1 = None" "pipeline_inv st1"
      using sel ord out k1 by (cases ev; auto simp: st1_def keeps_def Let_def split: if_splits prod.splits)+
    from emit_keeps [OF o1(3,2,1), of now "fst r" "snd r"] obtain out2 rt2 p2 where
      em: "emit try_acquire now (fst r) (snd r) (pl_rot st1) (pl_prod st1) = Ok (out2, rt2, p2)"
        "ba_watchers (rt_batch rt2) = []"
      and k2: "keeps st1 (st1\<lparr>pl_prod := p2, pl_rot := rt2, pl_rotOut := (case out2 of Emitted pb \<Rightarrow> Some pb | _ \<Rightarrow> None)\<rparr>)"
      by blast
    have it: "rotator_iter try_acquire now ev (pl_rot st) (pl_prod st) = Ok (out2, rt2, p2)"
      using Some sel em by (cases r) (simp add: rotator_iter_def st1_def)
    then have st': "st' = st1\<lparr>pl_prod := p2, pl_rot := rt2, pl_rotOut := (case out2 of Emitted pb \<Rightarrow> Some pb | _ \<Rightarrow> None),
        pl_rotExit := (cs = CaseClosed), pl_nextAck := (if cs = CaseFlush then pl_nextAck st + 1 else pl_nextAck st)\<rparr>"
      using step' by (auto simp: st1_def)
    have "cs = CaseFlush \<or> cs = CaseClosed \<longrightarrow> ch = []" using recv by (auto split: if_splits)
    then have "cs = CaseFlush \<or> cs = CaseClosed \<longrightarrow> waiting_watchers st' = {#}"
      using em(2) by (auto simp: st' st1_def waiting_watchers_def)
    moreover have "keeps st st'"
      using keeps_trans [OF keeps_trans [OF k1 k2] rest] k2 unfolding st' by (simp add: keeps_def)
    ultimately show ?thesis by (simp add: st' st1_def)
  qed
qed

end
