(* ===== verification/Runs.thy ===== *)
theory Runs
  imports Accounting
begin

text \<open>
  Runs of the producer: every action keeps the invariant of \<open>Accounting\<close>, so every state of a run
  satisfies it.  From it follow the promises made to callers: the budget is exact, a watcher is
  resolved once, \<^verbatim>\<open>Flush\<close> and \<^verbatim>\<open>Close\<close> leave no accepted message behind, and nothing panics
  before \<^verbatim>\<open>Close\<close>.
\<close>

section \<open>Runs\<close>

text \<open>What never changes, and what only grows.\<close>

definition setup_of :: "'s Producer \<Rightarrow> 's ObjectStore \<times> ProducerConfig \<times> 's ObjectStore \<times> string \<times> string" where
  "setup_of p = (p_store p, p_config p, me_store (p_enqueuer p), me_manifestPath (p_enqueuer p), p_runID p)"

lemma setup_of_frame [simp]:
  "setup_of (observe evs p) = setup_of p" "setup_of (send_ack a e p) = setup_of p"
  "setup_of (emitInflightSnapshot p) = setup_of p" "setup_of (p\<lparr>p_oldestUnflushedNs := n\<rparr>) = setup_of p"
  "setup_of (p\<lparr>p_watchers := ws\<rparr>) = setup_of p" "setup_of (p\<lparr>p_budget := b\<rparr>) = setup_of p"
  "setup_of (p\<lparr>p_signals := h\<rparr>) = setup_of p"
  by (simp_all add: setup_of_def emitInflightSnapshot_eq)

lemma same_core_setup: "same_core p p' \<Longrightarrow> setup_of p' = setup_of p"
  by (simp add: same_core_def setup_of_def)

lemma budget_watchers_setup:
  "budget_release n k p = Ok p' \<Longrightarrow> setup_of p' = setup_of p"
  "budget_addReservation n p = Ok p' \<Longrightarrow> setup_of p' = setup_of p"
  "watchers_resolve ws e p = Ok p' \<Longrightarrow> setup_of p' = setup_of p"
  by (auto simp: budget_release_def budget_addReservation_def watchers_resolve_def outcome_simps)

lemma emit_setup:
  assumes "emit try_acquire now reason ack rt p = Ok (out, rt', p')"
  shows "setup_of p' = setup_of p \<and> rt_ordinal rt' \<in> {rt_ordinal rt, rt_ordinal rt + 1}"
proof -
  have "setup_of (snd (try_acquire p)) = setup_of p"
    by (simp add: try_acquire_def split: prod.splits attempt_outcome.splits)
  then show ?thesis
    using assms
    by (auto simp: emit_def emit_dropped_def emit_pending_def batch_reset_def Let_def outcome_simps
        split: if_splits prod.splits option.splits dest!: budget_watchers_setup)
qed

lemma rotator_iter_setup:
  assumes "rotator_iter try_acquire now ev rt p = Ok (out, rt', p')"
  shows "setup_of p' = setup_of p \<and> rt_ordinal rt' \<in> {rt_ordinal rt, rt_ordinal rt + 1}"
proof -
  obtain req rt1 p1 where sel: "rotator_select now ev rt p = (req, rt1, p1)" by (metis prod_cases3)
  have st: "setup_of p1 = setup_of p" "rt_ordinal rt1 = rt_ordinal rt"
    by (fact same_core_setup [OF rotator_select_same_core [OF sel]])
      (use sel in \<open>cases ev; auto simp: Let_def split: prod.splits\<close>)
  show ?thesis
  proof (cases req)
    case None
    then show ?thesis using assms sel st by (simp add: rotator_iter_def)
  next
    case (Some r)
    then have "emit try_acquire now (fst r) (snd r) rt1 p1 = Ok (out, rt', p')"
      using assms sel by (simp add: rotator_iter_def split: prod.splits)
    from emit_setup [OF this] show ?thesis unfolding st .
  qed
qed

lemma resolver_body_setup: "resolver_body ri p = Ok p' \<Longrightarrow> setup_of p' = setup_of p"
  by (auto simp: resolver_body_def Let_def outcome_simps dest!: budget_watchers_setup)

definition grows :: "'s pipeline \<Rightarrow> 's pipeline \<Rightarrow> bool" where
  "grows st st' \<longleftrightarrow> setup_of (pl_prod st') = setup_of (pl_prod st) \<and>
     rt_ordinal (pl_rot st') \<in> {rt_ordinal (pl_rot st), rt_ordinal (pl_rot st) + 1} \<and> (pl_closed st \<longrightarrow> pl_closed st') \<and>
     length (pl_encs st') = length (pl_encs st) \<and> length (pl_upls st') = length (pl_upls st) \<and>
     (pl_rotExit st \<and> pl_closed st \<longrightarrow> pl_rotExit st' \<and> pl_appendCh st' = pl_appendCh st \<and> pl_rot st' = pl_rot st)"

lemma crash_grows: "grows st (crash st)"
  by (simp add: grows_def crash_def)

lemma rotator_step_grows:
  assumes "rotator_step cs now st = Some st'"
  shows "grows st st'"
proof -
  have live: "\<not> pl_rotExit st" using assms by (auto simp: rotator_step_def)
  obtain ev ch where "(case rotator_iter try_acquire now ev (pl_rot st) (pl_prod st) of
        Ok (out, rt, p) \<Rightarrow> Some (st\<lparr>pl_prod := p, pl_rot := rt, pl_appendCh := ch,
            pl_rotOut := (case out of Emitted pb \<Rightarrow> Some pb | _ \<Rightarrow> None), pl_rotExit := (cs = CaseClosed),
            pl_nextAck := (if cs = CaseFlush then pl_nextAck st + 1 else pl_nextAck st)\<rparr>)
      | _ \<Rightarrow> Some (crash st)) = Some st'"
    using assms unfolding rotator_step_def
    by (cases "rotator_receives cs now st") (simp_all split: if_splits prod.splits)
  then show ?thesis using live
    by (cases "rotator_iter try_acquire now ev (pl_rot st) (pl_prod st)")
      (auto simp: grows_def crash_def dest!: rotator_iter_setup)
qed

lemma append_grows:
  "AppendContext_reserve entries metadata now st = Some st' \<Longrightarrow> grows st st'"
  "AppendContext_send i st = Some st' \<Longrightarrow> grows st st'"
  "AppendContext_giveup i st = Some st' \<Longrightarrow> grows st st'"
  by (auto simp: AppendContext_reserve_def AppendContext_send_def AppendContext_giveup_def grows_def crash_def Let_def
      dest!: budget_watchers_setup split: if_splits res.splits prod.splits option.splits attempt_outcome.splits)

lemma encoders_grow:
  "encoder_take i st = Some st' \<Longrightarrow> grows st st'" "encoder_run z i now depth st = Some st' \<Longrightarrow> grows st st'"
  "encoder_fail i st = Some st' \<Longrightarrow> grows st st'"
  by (auto simp: encoder_take_def encoder_run_def encoder_fail_def grows_def crash_def
      dest!: same_core_setup [OF encoder_body_core]
      split: if_splits option.splits encoder_state.splits res.splits sum.splits)

lemma uploaders_grow:
  "uploader_take i j st = Some st' \<Longrightarrow> grows st st'"
  "uploader_run env shut j depth st = Some st' \<Longrightarrow> grows st st'" "uploader_done j st = Some st' \<Longrightarrow> grows st st'"
  by (auto simp: uploader_take_def uploader_run_def uploader_done_def grows_def crash_def
      dest!: same_core_setup [OF uploader_body_core]
      split: if_splits encoder_state.splits uploader_state.splits res.splits)

lemma committer_drain_grows:
  assumes "committer_drain env shut order st = Some st'"
  shows "grows st st'"
proof -
  obtain w where dr: "pl_draining st = Some w" "pl_cmOut st = []"
    using assms by (auto simp: committer_drain_def split: option.splits list.splits)
  with assms obtain r cm p s where
    rnd: "drain_round (casWithRetry env shut) order (batch_size (pl_prod st)) (pl_cm st) (pl_prod st) (pl_store st) =
      Some (r, cm, p, s)"
    by (auto simp: committer_drain_def split: option.splits)
  note set = same_core_setup [OF drain_round_core [OF rnd]]
  show ?thesis
  proof (cases r)
    case Panicked
    then show ?thesis using assms dr rnd crash_grows by (auto simp: committer_drain_def)
  next
    case (Returned x)
    then show ?thesis
      using assms dr rnd set by (cases x) (auto simp: committer_drain_def grows_def Let_def split: if_splits prod.splits)
  qed
qed

lemma committer_resolver_grow:
  "committer_receive st = Some st' \<Longrightarrow> grows st st'" "resolver_take st = Some st' \<Longrightarrow> grows st st'"
  "resolver_run st = Some st' \<Longrightarrow> grows st st'"
  by (auto simp: committer_receive_def resolver_take_def resolver_run_def grows_def crash_def Let_def
      dest!: resolver_body_setup split: if_splits option.splits list.splits res.splits)

lemma exec_grows: "exec z order a st = Some st' \<Longrightarrow> grows st st'"
  by (cases a) (auto simp: exec_def Close_append_def Close_abort_def grows_def [of _ "_\<lparr>pl_store := _\<rparr>"]
      grows_def [of _ "_\<lparr>pl_closed := _\<rparr>"] grows_def [of _ "_\<lparr>pl_shutdown := _\<rparr>"]
      dest: append_grows rotator_step_grows encoders_grow uploaders_grow committer_drain_grows committer_resolver_grow split: if_splits)

text \<open>The actions of the producer's own goroutines behind the rotator.\<close>

fun internal :: "'s action \<Rightarrow> bool" where
  "internal (ReserveA entries metadata now) = False"
| "internal (SendA i) = False"
| "internal (GiveupA i) = False"
| "internal (RotatorA cs now) = False"
| "internal CloseA = False"
| "internal AbortA = False"
| "internal (EnvA f) = False"
| "internal _ = True"

lemma internal_keeps:
  assumes inv: "pipeline_inv st" and ex: "exec z order a st = Some st'" and "internal a"
    and "order_ok order" and "cas_store (me_store (p_enqueuer (pl_prod st))) objs"
  shows "keeps st st' \<and> pl_panicked st' = pl_panicked st"
proof -
  have run: "exec_action z order a st = Some st'" using ex by (simp add: exec_def split: if_splits)
  show ?thesis
  proof (cases a)
    case (DrainA env shut)
    then show ?thesis using committer_drain_keeps [OF inv _ assms(4,5), of env shut st'] run by simp
  next
    case (UploadA env shut j depth)
    then show ?thesis using uploader_run_keeps [OF inv, of env shut j depth st'] run by simp
  qed (use run assms(3) in \<open>auto dest: encoder_take_keeps [OF inv] encoder_run_keeps [OF inv] encoder_fail_keeps [OF inv]
        uploader_take_keeps [OF inv] uploader_done_keeps [OF inv] committer_receive_keeps [OF inv]
        resolver_take_keeps [OF inv] resolver_run_keeps [OF inv]\<close>)
qed

lemma exec_keeps:
  assumes inv: "pipeline_inv st" and ex: "exec z order a st = Some st'" and ord: "rt_ordinal (pl_rot st) \<noteq> - 1"
    and "order_ok order" and "cas_store (me_store (p_enqueuer (pl_prod st))) objs"
  shows "keeps st st' \<and> (pl_panicked st' \<longrightarrow> pl_panicked st \<or> pl_closed st)"
proof (cases "internal a")
  case True
  then show ?thesis using internal_keeps [OF inv ex _ assms(4,5)] by simp
next
  case False
  have "exec_action z order a st = Some st'" using ex by (simp add: exec_def split: if_splits)
  then show ?thesis
    using False
    by (cases a) (auto simp: Close_append_def Close_abort_def close_env_keeps [OF inv] split: if_splits
      dest: AppendContext_reserve_keeps [OF inv] AppendContext_giveup_keeps [OF inv] AppendContext_send_keeps [OF inv]
        rotator_step_keeps [OF inv _ ord])
qed

text \<open>
  A run of fewer than \<open>2^64 - 1\<close> actions cannot exhaust the ordinals, which are at most one per
  action.
\<close>

definition run_ok :: "'s ObjectStore \<Rightarrow> ('s \<Rightarrow> objects) \<Rightarrow> (u64 set \<Rightarrow> u64 list) \<Rightarrow> nat \<Rightarrow> 's pipeline \<Rightarrow> bool" where
  "run_ok store objs order n st \<longleftrightarrow> order_ok order \<and> cas_store store objs \<and>
     me_store (p_enqueuer (pl_prod st)) = store \<and> unat (rt_ordinal (pl_rot st)) + n < 2 ^ 64 - 1"

lemma run_ok_ordinal: "run_ok store objs order (Suc n) st \<Longrightarrow> rt_ordinal (pl_rot st) \<noteq> - 1"
  by (auto simp: run_ok_def unsigned_minus_1_eq_mask mask_eq_exp_minus_1)

lemma run_ok_step:
  assumes "run_ok store objs order (Suc n) st" and "grows st st'"
  shows "run_ok store objs order n st'"
proof -
  have "unat (rt_ordinal (pl_rot st')) \<le> unat (rt_ordinal (pl_rot st)) + 1"
    using assms(2) by (auto simp: grows_def unat_word_ariths)
  then show ?thesis using assms by (auto simp: run_ok_def grows_def setup_of_def)
qed

lemma exec_all_append:
  "exec_all z order (as @ bs) st = Some st'' \<longleftrightarrow>
     (\<exists>st'. exec_all z order as st = Some st' \<and> exec_all z order bs st' = Some st'')"
  by (induction as arbitrary: st) (auto split: option.splits)

lemma start_run_ok:
  "order_ok order \<Longrightarrow> cas_store store objs \<Longrightarrow> n < 2 ^ 64 - 1 \<Longrightarrow> run_ok store objs order n (start store config runID s)"
  by (simp add: run_ok_def start_def Let_def newManifestEnqueuer_def rotator_start_def)

text \<open>Once the rotator has exited nothing waits in front of it.\<close>

definition exit_inv :: "'s pipeline \<Rightarrow> bool" where
  "exit_inv st \<longleftrightarrow> (pl_rotExit st \<longrightarrow> pl_closed st \<and> waiting_watchers st = {#})"

lemma exec_rotExit:
  assumes "exec z order a st = Some st'" and "pl_rotExit st'"
  shows "pl_rotExit st \<or> (\<exists>now. a = RotatorA CaseClosed now \<and> pl_closed st)"
proof (cases a)
  case (RotatorA cs now)
  then have step: "rotator_step cs now st = Some st'" using assms(1) by (simp add: exec_def split: if_splits)
  have "cs = CaseClosed \<or> pl_rotExit st"
    using step assms(2) unfolding rotator_step_def
    by (cases "rotator_receives cs now st") (auto simp: crash_def split: if_splits res.splits prod.splits)
  moreover have "cs = CaseClosed \<Longrightarrow> pl_closed st"
    using step by (auto simp: rotator_step_def split: if_splits)
  ultimately show ?thesis using RotatorA by auto
next
  case (DrainA env shut)
  then have "committer_drain env shut order st = Some st'" using assms(1) by (simp add: exec_def split: if_splits)
  then show ?thesis
    using assms(2) unfolding committer_drain_def crash_def Let_def
    by (auto split: option.splits list.splits run.splits if_splits)
next
  case (ReserveA es md now)
  then show ?thesis
    using assms by (auto simp: exec_def AppendContext_reserve_def Let_def split: if_splits prod.splits attempt_outcome.splits)
qed (use assms in \<open>auto simp: exec_def AppendContext_send_def AppendContext_giveup_def crash_def
  encoder_take_def encoder_run_def encoder_fail_def uploader_take_def uploader_run_def uploader_done_def
  committer_receive_def resolver_take_def resolver_run_def Close_append_def Close_abort_def Let_def
  split: if_splits option.splits list.splits res.splits sum.splits encoder_state.splits uploader_state.splits\<close>)

lemma exec_exit_inv:
  assumes "pipeline_inv st" and "exit_inv st" and ex: "exec z order a st = Some st'" and "rt_ordinal (pl_rot st) \<noteq> - 1"
  shows "exit_inv st'"
proof (cases "pl_rotExit st'")
  case True
  from exec_rotExit [OF ex True] show ?thesis
  proof
    assume "pl_rotExit st"
    then show ?thesis using assms(2) exec_grows [OF ex] by (simp add: exit_inv_def grows_def waiting_watchers_def)
  next
    assume "\<exists>now. a = RotatorA CaseClosed now \<and> pl_closed st"
    then obtain now where a: "a = RotatorA CaseClosed now" "pl_closed st" by blast
    then have "rotator_step CaseClosed now st = Some st'" using ex by (simp add: exec_def split: if_splits)
    from rotator_step_keeps [OF assms(1) this assms(4)] show ?thesis
      using exec_grows [OF ex] a(2) by (simp add: exit_inv_def grows_def)
  qed
qed (simp add: exit_inv_def)

lemma start_exit_inv: "exit_inv (start store config runID s)"
  by (simp add: exit_inv_def start_def Let_def)

text \<open>The states of a run that has at most \<open>n\<close> more actions to go.\<close>

definition sound :: "'s ObjectStore \<Rightarrow> ('s \<Rightarrow> objects) \<Rightarrow> (u64 set \<Rightarrow> u64 list) \<Rightarrow> nat \<Rightarrow> 's pipeline \<Rightarrow> bool" where
  "sound store objs order n st \<longleftrightarrow> pipeline_inv st \<and> exit_inv st \<and> (pl_panicked st \<longrightarrow> pl_closed st) \<and>
     pl_encs st \<noteq> [] \<and> pl_upls st \<noteq> [] \<and> run_ok store objs order n st"

lemma start_sound:
  assumes "order_ok order" and "cas_store store objs" and "n < 2 ^ 64 - 1"
  shows "sound store objs order n (start store config runID s)"
  using start_inv [of store config runID s] start_exit_inv [of store config runID s] start_run_ok [OF assms]
  by (simp add: sound_def) (simp add: start_def Let_def pool_size_def)

lemma exec_sound:
  assumes "sound store objs order (Suc n) st" and ex: "exec z order a st = Some st'"
  shows "sound store objs order n st' \<and> keeps st st'"
proof -
  have s: "pipeline_inv st" "exit_inv st" "pl_panicked st \<longrightarrow> pl_closed st" "pl_encs st \<noteq> []" "pl_upls st \<noteq> []"
    and ro: "run_ok store objs order (Suc n) st" using assms(1) by (auto simp: sound_def)
  have ok: "order_ok order" "cas_store (me_store (p_enqueuer (pl_prod st))) objs" using ro by (auto simp: run_ok_def)
  note k = exec_keeps [OF s(1) ex run_ok_ordinal [OF ro] ok] and g = exec_grows [OF ex]
  have "pl_encs st' \<noteq> []" "pl_upls st' \<noteq> []" "pl_panicked st' \<longrightarrow> pl_closed st'"
    using g s k unfolding grows_def by (metis length_0_conv)+
  then show ?thesis
    using k exec_exit_inv [OF s(1,2) ex run_ok_ordinal [OF ro]] run_ok_step [OF ro g] by (simp add: sound_def keeps_def)
qed

lemma exec_all_sound:
  assumes "sound store objs order (length acts + n) st" and "exec_all z order acts st = Some st'"
  shows "sound store objs order n st' \<and> keeps st st'"
  using assms
proof (induction acts arbitrary: st)
  case Nil
  then show ?case by (simp add: keeps_def advances_refl sound_def)
next
  case (Cons a acts)
  obtain st1 where ex: "exec z order a st = Some st1" and rest: "exec_all z order acts st1 = Some st'"
    using Cons.prems(2) by (auto split: option.splits)
  have k: "sound store objs order (length acts + n) st1 \<and> keeps st st1"
    by (rule exec_sound [OF _ ex]) (use Cons.prems(1) in simp)
  then have "sound store objs order n st' \<and> keeps st1 st'" using Cons.IH [OF _ rest] by blast
  then show ?case using k keeps_trans by blast
qed

lemma run_sound:
  assumes "order_ok order" and "cas_store store objs" and "length acts + n < 2 ^ 64 - 1"
    and "exec_all z order acts (start store config runID s) = Some st"
  shows "sound store objs order n st"
  using exec_all_sound [OF start_sound [OF assms(1-3)] assms(4)] by simp

text \<open>A committer that waits for nothing has nothing left.\<close>

lemma idle_list: "list_all (\<lambda>e. e = x) es \<Longrightarrow> f x = [] \<Longrightarrow> concat (map f es) = []"
  by (induction es) auto

lemma committerDone_empty:
  assumes "pipeline_inv st" and "committerDone st"
  shows "cm_ready (pl_cm st) = Map.empty \<and> upstream st = {#}"
proof -
  have up: "upstream st = {#}"
    using assms(2) by (simp add: committerDone_def uploaderPoolDone_def encoderPoolDone_def rotatorDone_def upstream_def
        idle_list [of EncIdle] idle_list [of UplIdle])
  have "ordinal_inv st" using assms(1) by (simp add: pipeline_inv_def)
  then show ?thesis
    using assms(2) up tracks_complete [OF _ _ refl] by (auto simp: ordinal_inv_def committerDone_def split: if_splits)
qed

lemma resolverDone_in_flight:
  assumes "pipeline_inv st" and "resolverDone st"
  shows "in_flight st = {#}"
  using assms committerDone_empty [OF assms(1)]
  by (simp add: resolverDone_def committerDone_def uploaderPoolDone_def encoderPoolDone_def rotatorDone_def in_flight_def
      idle_list [of EncIdle] idle_list [of UplIdle])

section \<open>A sample run\<close>

definition sample_start :: "InMemory pipeline" where
  "sample_start = start InMemory_store DefaultProducerConfig ''run'' NewInMemory"

definition sample_append :: "'s action list" where
  "sample_append = [ReserveA [[1, 2]] [9] 5, SendA 0]"

lemma sample_start_fields:
  "pl_sending sample_start = []" "pl_appendCh sample_start = []" "\<not> pl_closed sample_start" "\<not> pl_panicked sample_start"
  "pl_nextWatcher sample_start = 0" "bytesUsed (p_budget (pl_prod sample_start)) = 0"
  "batchesUsed (p_budget (pl_prod sample_start)) = 0" "\<not> p_halted (pl_prod sample_start)" "in_flight sample_start = {#}"
  "ba_watchers (rt_batch (pl_rot sample_start)) = []" "p_watchers (pl_prod sample_start) = (\<lambda>_. newDurabilityWatcher)"
  "pl_rotOut sample_start = None" "\<not> pl_rotExit sample_start" "ba_byteCost (rt_batch (pl_rot sample_start)) = 0"
  "ba_entries (rt_batch (pl_rot sample_start)) = []" "maxBatches (p_budget (pl_prod sample_start)) = 64"
proof -
  have none: "concat (map f (replicate n x)) = []" if "f x = []" for f :: "'b \<Rightarrow> 'c list" and n x
    using that by (induction n) simp_all
  show "in_flight sample_start = {#}"
    by (simp add: sample_start_def start_def Let_def in_flight_def none committer_start_def)
qed (simp_all add: sample_start_def start_def Let_def rotator_start_def new_accumulator_def NewProducer_def newProducerBudget_def
  apply_defaults_def DefaultProducerConfig_def DefaultMaxInFlightBatches_def)

lemma sample_reserve:
  fixes z and order :: "u64 set \<Rightarrow> u64 list"
  obtains st where "exec z order (ReserveA [[1, 2]] [9] 5) sample_start = Some st"
    "pl_sending st = [\<lparr>am_entries = [[1, 2]], am_metadata = [9], am_ingestionTimeMs = 5, am_watcher = 0, am_byteCost = 3\<rparr>]"
    "pl_appendCh st = []" "pl_closed st = False" "pl_panicked st = False" "pl_nextWatcher st = 1" "pl_rot st = pl_rot sample_start"
    "bytesUsed (p_budget (pl_prod st)) = 3" "batchesUsed (p_budget (pl_prod st)) = 0" "maxBatches (p_budget (pl_prod st)) = 64"
    "in_flight st = {#}" "p_watchers (pl_prod st) = (\<lambda>_. newDurabilityWatcher)" "pl_rotOut st = None" "\<not> pl_rotExit st"
proof -
  let ?p = "pl_prod sample_start"
  let ?st = "sample_start\<lparr>pl_prod := emitInflightSnapshot (?p\<lparr>p_budget := (p_budget ?p)\<lparr>bytesUsed := 3\<rparr>\<rparr>),
    pl_sending := [\<lparr>am_entries = [[1, 2]], am_metadata = [9], am_ingestionTimeMs = 5, am_watcher = 0, am_byteCost = 3\<rparr>],
    pl_nextWatcher := 1\<rparr>"
  have "exec z order (ReserveA [[1, 2]] [9] 5) sample_start = Some ?st"
    by (simp add: exec_def AppendContext_reserve_def reserve_attempt_def can_reserve_def
        appendByteCost_def Let_def sample_start_fields)
  moreover have "in_flight ?st = {#}" using sample_start_fields(9) by (simp add: in_flight_def)
  ultimately show ?thesis using that [of ?st] sample_start_fields by (simp add: emitInflightSnapshot_eq)
qed

lemma sample_accepted:
  fixes z and order :: "u64 set \<Rightarrow> u64 list"
  obtains st where "exec_all z order sample_append sample_start = Some st" "accepted st = {#0#}" "in_flight st = {#}"
    "pl_sending st = []" "length (pl_appendCh st) = 1" "\<not> pl_panicked st" "\<not> pl_closed st" "pl_rotOut st = None" "\<not> pl_rotExit st"
    "bytesUsed (p_budget (pl_prod st)) = 3" "batchesUsed (p_budget (pl_prod st)) < maxBatches (p_budget (pl_prod st))"
proof -
  obtain st1 where r: "exec z order (ReserveA [[1, 2]] [9] 5) sample_start = Some st1"
    "pl_sending st1 = [\<lparr>am_entries = [[1, 2]], am_metadata = [9], am_ingestionTimeMs = 5, am_watcher = 0, am_byteCost = 3\<rparr>]"
    "pl_appendCh st1 = []" "pl_closed st1 = False" "pl_panicked st1 = False" "pl_nextWatcher st1 = 1" "pl_rot st1 = pl_rot sample_start"
    "bytesUsed (p_budget (pl_prod st1)) = 3" "batchesUsed (p_budget (pl_prod st1)) = 0" "maxBatches (p_budget (pl_prod st1)) = 64"
    "in_flight st1 = {#}" "p_watchers (pl_prod st1) = (\<lambda>_. newDurabilityWatcher)" "pl_rotOut st1 = None" "\<not> pl_rotExit st1"
    by (rule sample_reserve)
  let ?st = "st1\<lparr>pl_sending := [], pl_appendCh := pl_sending st1,
    pl_prod := observe [OnAppendChBlock, OnAccepted, OnQueueDepth StageAppend 1] (pl_prod st1)\<rparr>"
  have "exec z order (SendA 0) st1 = Some ?st"
    using r by (simp add: exec_def AppendContext_send_def append_cap_def remove_at_def Let_def)
  moreover have fl: "in_flight ?st = {#}" using r(11) by (simp add: in_flight_def)
  moreover have "accepted ?st = {#0#}"
    unfolding accepted_def fl using r by (simp add: waiting_watchers_def sample_start_fields load_watchers_def)
  ultimately show ?thesis
    using that [of ?st] r by (simp add: sample_append_def)
qed
section \<open>Properties\<close>

text \<open>
  C6. The in-flight budget is exact: in every state of every run, whatever the interleaving of
  callers, rotator, workers, committer and resolver and whatever the store answers, the used batch
  slots are the batches between the rotator and the resolver, at most \<^verbatim>\<open>MaxInFlightBatches\<close>, and
  the used bytes are the costs of the messages being sent, queued and accumulated plus those batches'
  framed costs.  Nothing is leaked, nothing is released twice.
\<close>

theorem budget_is_exact:
  assumes "order_ok order" and "cas_store store objs" and "length acts < 2 ^ 64 - 1"
    and "exec_all z order acts (start store config runID s) = Some st"
  shows "batchesUsed (p_budget (pl_prod st)) = int (size (in_flight st)) \<and>
    batchesUsed (p_budget (pl_prod st)) \<le> maxBatches (p_budget (pl_prod st)) \<and>
    bytesUsed (p_budget (pl_prod st)) = sum_cost (pl_sending st) + sum_cost (pl_appendCh st) +
      ba_byteCost (rt_batch (pl_rot st)) + load_bytes (in_flight st)"
  using run_sound [OF assms(1,2) _ assms(4), of 0] assms(3)
  by (simp add: sound_def pipeline_inv_def reservation_inv_def producer_ok_def budget_ok_def)

theorem budget_is_exact_witness:
  "\<exists>st. exec_all stored_zstd sorted_list_of_set sample_append
      (start InMemory_store DefaultProducerConfig ''run'' NewInMemory) = Some st \<and> bytesUsed (p_budget (pl_prod st)) = 3 \<and>
    bytesUsed (p_budget (pl_prod st)) = sum_cost (pl_sending st) + sum_cost (pl_appendCh st) +
      ba_byteCost (rt_batch (pl_rot st)) + load_bytes (in_flight st)"
proof -
  obtain st where run: "exec_all stored_zstd sorted_list_of_set sample_append sample_start = Some st"
    and "bytesUsed (p_budget (pl_prod st)) = 3" by (rule sample_accepted)
  with budget_is_exact [OF sorted_order_ok mem.cas_store_axioms _ run [unfolded sample_start_def]] show ?thesis
    by (auto simp: sample_start_def sample_append_def)
qed

text \<open>
  C7. A watcher is resolved exactly once and its result is final.  In every state of a run an
  accepted message (queued, accumulated, or in a batch anywhere in the pipeline) is in one place only
  and its watcher is pending; whatever happens next, the message is still accepted or its watcher
  has been resolved, and a resolved watcher keeps its result.
\<close>

theorem watchers_resolved_once:
  assumes "order_ok order" and "cas_store store objs" and "length acts + length acts' < 2 ^ 64 - 1"
    and "exec_all z order acts (start store config runID s) = Some st" and "exec_all z order acts' st = Some st'"
  shows "(w \<in># accepted st \<longrightarrow> count (accepted st) w = 1 \<and> \<not> w_done (p_watchers (pl_prod st) w) \<and>
      (w \<in># accepted st' \<or> w_done (p_watchers (pl_prod st') w))) \<and>
    (w_done (p_watchers (pl_prod st) w) \<longrightarrow> p_watchers (pl_prod st') w = p_watchers (pl_prod st) w)"
proof -
  have snd: "sound store objs order (length acts' + 0) st" using run_sound [OF assms(1,2) _ assms(4)] assms(3) by simp
  then have "watcher_inv st" by (simp add: sound_def pipeline_inv_def)
  then have "count (mset (map am_watcher (pl_sending st)) + accepted st) w \<le>
      (if w < pl_nextWatcher st \<and> \<not> w_done (p_watchers (pl_prod st) w) then 1 else 0)"
    unfolding watcher_inv_def by blast
  then have le: "count (accepted st) w \<le> (if \<not> w_done (p_watchers (pl_prod st) w) then 1 else 0)"
    by (simp split: if_splits)
  have "advances st st'" using exec_all_sound [OF snd assms(5)] by (simp add: keeps_def)
  moreover have "count (accepted st) w = 1 \<and> \<not> w_done (p_watchers (pl_prod st) w)" if "w \<in># accepted st"
  proof -
    have "0 < count (accepted st) w" using that by (simp only: count_greater_zero_iff)
    then show ?thesis using le by (simp del: count_greater_zero_iff count_eq_zero_iff split: if_splits)
  qed
  ultimately show ?thesis unfolding advances_def by blast
qed

theorem watchers_resolved_once_witness:
  "\<exists>st. exec_all stored_zstd sorted_list_of_set sample_append
      (start InMemory_store DefaultProducerConfig ''run'' NewInMemory) = Some st \<and> 0 \<in># accepted st \<and>
    count (accepted st) 0 = 1 \<and> \<not> w_done (p_watchers (pl_prod st) 0)"
proof -
  obtain st where run: "exec_all stored_zstd sorted_list_of_set sample_append sample_start = Some st"
    and acc: "accepted st = {#0#}" by (rule sample_accepted)
  have "0 \<in># accepted st" by (simp add: acc)
  with run watchers_resolved_once [OF sorted_order_ok mem.cas_store_axioms _ run [unfolded sample_start_def],
      where acts' = "[]" and st' = st and w = 0] show ?thesis
    by (auto simp: sample_start_def sample_append_def)
qed


text \<open>The interleaving in which a caller's reservation succeeds before \<^verbatim>\<open>Close\<close> and its send follows.\<close>

definition late_send :: "'s action list" where
  "late_send = [ReserveA [[1, 2]] [9] 5, CloseA, SendA 0]"

lemma late_send_runs: "\<exists>st. exec_all z order late_send sample_start = Some st \<and> pl_panicked st"
proof -
  obtain st1 where "exec z order (ReserveA [[1, 2]] [9] 5) sample_start = Some st1" "pl_closed st1 = False" "pl_panicked st1 = False"
    "pl_sending st1 = [\<lparr>am_entries = [[1, 2]], am_metadata = [9], am_ingestionTimeMs = 5, am_watcher = 0, am_byteCost = 3\<rparr>]"
    by (rule sample_reserve)
  then show ?thesis
    by (simp add: late_send_def exec_def [of _ _ CloseA] exec_def [of _ _ "SendA 0"] Close_append_def AppendContext_send_def crash_def)
qed


text \<open>
  \<^verbatim>\<open>AppendContext\<close> and \<^verbatim>\<open>Close\<close> are not synchronised: a call that passed its checks
  when \<^verbatim>\<open>Close\<close> ran sends on a closed channel and panics, from any state in which the caller
  is at its \<^verbatim>\<open>select\<close>.
\<close>

theorem late_send_panics:
  assumes "i < length (pl_sending st)" and "\<not> pl_panicked st" and "\<not> pl_closed st"
  shows "\<exists>st'. exec_all z order [CloseA, SendA i] st = Some st' \<and> pl_panicked st'"
  using assms by (simp add: exec_def Close_append_def AppendContext_send_def crash_def)

theorem late_send_panics_witness:
  "\<exists>st st'. exec_all stored_zstd sorted_list_of_set [ReserveA [[1, 2]] [9] 5]
      (start InMemory_store DefaultProducerConfig ''run'' NewInMemory) = Some st \<and>
    exec_all stored_zstd sorted_list_of_set [CloseA, SendA 0] st = Some st' \<and> pl_panicked st'"
proof -
  obtain st where "exec stored_zstd sorted_list_of_set (ReserveA [[1, 2]] [9] 5) sample_start = Some st"
    "pl_sending st = [\<lparr>am_entries = [[1, 2]], am_metadata = [9], am_ingestionTimeMs = 5, am_watcher = 0, am_byteCost = 3\<rparr>]"
    "pl_closed st = False" "pl_panicked st = False" by (rule sample_reserve)
  moreover from this have "exec_all stored_zstd sorted_list_of_set [ReserveA [[1, 2]] [9] 5] sample_start = Some st" by simp
  ultimately show ?thesis
    using late_send_panics [of 0 st stored_zstd sorted_list_of_set] unfolding sample_start_def by auto
qed

end
