(* ===== verification/Progress.thy ===== *)
theory Progress
  imports Runs
begin

text \<open>
  The producer never gets stuck behind its rotator: as long as a batch is in flight some goroutine
  can act, and the goroutines can act only a bounded number of times, so every batch is resolved.
  From this and the invariant follow what \<^verbatim>\<open>Flush\<close> and \<^verbatim>\<open>Close\<close> promise.
\<close>

section \<open>Work left\<close>

text \<open>How many more actions a batch can need, by where it is.\<close>

fun enc_work :: "encoder_state \<Rightarrow> nat" where
  "enc_work EncIdle = 0"
| "enc_work (EncHas pb) = 9"
| "enc_work (EncFailed uc) = 8"
| "enc_work (EncOut eb) = 8"

fun upl_work :: "uploader_state \<Rightarrow> nat" where
  "upl_work UplIdle = 0"
| "upl_work (UplHas eb) = 7"
| "upl_work (UplOut uc) = 6"

definition work :: "'s pipeline \<Rightarrow> nat" where
  "work st = (if pl_rotOut st = None then 0 else 10) + sum_list (map enc_work (pl_encs st)) +
     sum_list (map upl_work (pl_upls st)) + 5 * length (pl_comp st) + 3 * card (dom (cm_ready (pl_cm st))) +
     (if pl_draining st = None then 0 else 1) + 2 * length (pl_cmOut st) + (if pl_res st = None then 0 else 1)"

lemma sum_update:
  assumes "i < length xs"
  shows "sum_list (map f (xs[i := y])) + f (xs ! i) = sum_list (map f xs) + (f y :: 'a :: comm_monoid_add)"
proof -
  have "xs = take i xs @ xs ! i # drop (Suc i) xs" using assms by (rule id_take_nth_drop)
  then have "sum_list (map f xs) = sum_list (map f (take i xs @ xs ! i # drop (Suc i) xs))" by simp
  then show ?thesis by (simp add: upd_conv_take_nth_drop [OF assms] ac_simps)
qed

lemma encoder_take_work:
  assumes "encoder_take i st = Some st'"
  shows "work st' < work st"
proof -
  obtain pb where i: "i < length (pl_encs st)" "pl_encs st ! i = EncIdle" and "pl_rotOut st = Some pb"
    and "st' = st\<lparr>pl_rotOut := None, pl_encs := (pl_encs st)[i := EncHas pb]\<rparr>"
    using assms by (auto simp: encoder_take_def split: if_splits option.splits encoder_state.splits)
  then show ?thesis using sum_update [OF i(1), of enc_work "EncHas pb"] by (simp add: work_def)
qed

lemma encoder_run_work:
  assumes "encoder_run z i now depth st = Some st'"
  shows "work st' < work st"
proof -
  obtain pb where i: "i < length (pl_encs st)" "pl_encs st ! i = EncHas pb"
    using assms by (auto simp: encoder_run_def split: if_splits encoder_state.splits)
  obtain x p' where "encoder_body z now depth pb (pl_prod st) = Ok (x, p')"
    using encoder_body_cases [of z now depth pb "pl_prod st"] by blast
  then have st': "st' = st\<lparr>pl_prod := p', pl_encs := (pl_encs st)[i := (case x of Inl uc \<Rightarrow> EncFailed uc | Inr eb \<Rightarrow> EncOut eb)]\<rparr>"
    using assms i by (simp add: encoder_run_def split: sum.splits)
  show ?thesis
    unfolding st' using sum_update [OF i(1), of enc_work "case x of Inl uc \<Rightarrow> EncFailed uc | Inr eb \<Rightarrow> EncOut eb"] i(2)
    by (simp add: work_def split: sum.splits)
qed

lemma encoder_fail_work:
  assumes "encoder_fail i st = Some st'"
  shows "work st' < work st"
proof -
  obtain uc where i: "i < length (pl_encs st)" "pl_encs st ! i = EncFailed uc"
    and "st' = st\<lparr>pl_encs := (pl_encs st)[i := EncIdle], pl_comp := pl_comp st @ [uc]\<rparr>"
    using assms by (auto simp: encoder_fail_def split: if_splits encoder_state.splits)
  then show ?thesis using sum_update [OF i(1), of enc_work EncIdle] by (simp add: work_def)
qed

lemma uploader_take_work:
  assumes "uploader_take i j st = Some st'"
  shows "work st' < work st"
proof -
  obtain eb where i: "i < length (pl_encs st)" "pl_encs st ! i = EncOut eb"
    and j: "j < length (pl_upls st)" "pl_upls st ! j = UplIdle"
    and "st' = st\<lparr>pl_encs := (pl_encs st)[i := EncIdle], pl_upls := (pl_upls st)[j := UplHas eb]\<rparr>"
    using assms by (auto simp: uploader_take_def split: if_splits encoder_state.splits uploader_state.splits)
  then show ?thesis
    using sum_update [OF i(1), of enc_work EncIdle] sum_update [OF j(1), of upl_work "UplHas eb"] by (simp add: work_def)
qed

lemma uploader_run_work:
  assumes "uploader_run env shut j depth st = Some st'"
  shows "work st' < work st"
proof -
  obtain eb where j: "j < length (pl_upls st)" "pl_upls st ! j = UplHas eb"
    using assms by (auto simp: uploader_run_def split: if_splits uploader_state.splits)
  obtain uc p' s' where "uploader_body env shut depth eb (pl_prod st) (pl_store st) = Ok (uc, p', s')"
    using uploader_body_returns [of env shut depth eb "pl_prod st" "pl_store st"] by blast
  then have "st' = st\<lparr>pl_prod := p', pl_store := s', pl_upls := (pl_upls st)[j := UplOut uc]\<rparr>"
    using assms j by (simp add: uploader_run_def)
  then show ?thesis using sum_update [OF j(1), of upl_work "UplOut uc"] j(2) by (simp add: work_def)
qed

lemma uploader_done_work:
  assumes "uploader_done j st = Some st'"
  shows "work st' < work st"
proof -
  obtain uc where j: "j < length (pl_upls st)" "pl_upls st ! j = UplOut uc"
    and "st' = st\<lparr>pl_upls := (pl_upls st)[j := UplIdle], pl_comp := pl_comp st @ [uc]\<rparr>"
    using assms by (auto simp: uploader_done_def split: if_splits uploader_state.splits)
  then show ?thesis using sum_update [OF j(1), of upl_work UplIdle] by (simp add: work_def)
qed

lemma card_put_ready: "card (dom (cm_ready (fold put_ready ucs cm))) \<le> card (dom (cm_ready cm)) + length ucs"
proof (induction ucs arbitrary: cm)
  case (Cons uc ucs)
  have "card (dom (cm_ready (put_ready uc cm))) \<le> card (dom (cm_ready cm)) + 1"
    by (simp add: put_ready_def card_insert_if)
  then show ?case using Cons.IH [of "put_ready uc cm"] by simp
qed simp

lemma committer_receive_work:
  assumes "committer_receive st = Some st'"
  shows "work st' < work st"
proof -
  obtain uc ch where idle: "pl_cmOut st = []" "pl_draining st = None" and comp: "pl_comp st = uc # ch"
    using assms by (auto simp: committer_receive_def split: if_splits list.splits)
  have card: "card (dom (cm_ready (fold put_ready ch (put_ready uc (pl_cm st))))) \<le>
      card (dom (cm_ready (pl_cm st))) + Suc (length ch)"
    using card_put_ready [of "uc # ch" "pl_cm st"] by simp
  show ?thesis
  proof (cases "cm_halted (pl_cm st)")
    case True
    then obtain ri where "st' = st\<lparr>pl_comp := ch, pl_cmOut := [ri]\<rparr>" using assms idle comp by (auto simp: committer_receive_def)
    then show ?thesis using idle comp by (auto simp: work_def)
  next
    case False
    then have "\<exists>cm b. st' = st\<lparr>pl_comp := [], pl_cm := cm, pl_draining := Some b\<rparr> \<and>
        cm_ready cm = cm_ready (fold put_ready ch (put_ready uc (pl_cm st)))"
      using assms idle comp by (fastforce simp: committer_receive_def Let_def split: if_splits)
    then show ?thesis using idle comp card by (auto simp: work_def)
  qed
qed

lemma size_pool: "size (pool m) = card (dom m)"
  by (simp add: pool_def)

lemma committer_drain_work:
  assumes inv: "pipeline_inv st" and "order_ok order" and dr: "committer_drain env shut order st = Some st'"
    and "cas_store (me_store (p_enqueuer (pl_prod st))) objs"
  shows "work st' < work st"
proof -
  let ?D = "{n. n < rt_ordinal (pl_rot st)} - set_mset (upstream st)" and ?cm = "pl_cm st" and ?p = "pl_prod st"
  obtain w where idle: "pl_draining st = Some w" "pl_cmOut st = []"
    using dr by (auto simp: committer_drain_def split: option.splits list.splits)
  have "ordinal_inv st" using inv by (simp add: pipeline_inv_def)
  then have live: "\<not> cm_halted ?cm" and tr: "tracks ?D (cm_next ?cm) (cm_ready ?cm)" and key: "keyed (cm_ready ?cm)"
    using idle by (auto simp: ordinal_inv_def)
  obtain r cm p s where
    rnd: "drain_round (casWithRetry env shut) order (batch_size ?p) ?cm ?p (pl_store st) = Some (r, cm, p, s)"
    using dr idle by (auto simp: committer_drain_def split: option.splits)
  then obtain prs go where r: "r = Returned (prs, go)"
    using drain_round_not_Panicked [OF assms(4)] by (cases r) auto
  note rnd = rnd [unfolded r]
  have nw: "no_wrap ?D" by (rule no_wrap_below [of _ "rt_ordinal (pl_rot st)"]) auto
  have "mset (map pr_uc prs) + pool (cm_ready cm) = pool (cm_ready ?cm)"
    using drain_round_outcome [OF assms(2) nw batch_size_pos rnd tr key live] by blast
  then have "length prs + card (dom (cm_ready cm)) = card (dom (cm_ready ?cm))"
    by (metis size_mset size_pool size_union length_map)
  moreover have "go \<longrightarrow> card (dom (cm_ready cm)) < card (dom (cm_ready ?cm))" using drain_round_shrinks [where cm' = cm] rnd by (cases go) auto
  ultimately have less: "length prs + card (dom (cm_ready cm)) = card (dom (cm_ready ?cm))" "go \<longrightarrow> 0 < length prs"
    by auto
  show ?thesis
  proof (cases go)
    case True
    then have "st' = st\<lparr>pl_cm := cm, pl_prod := p, pl_store := s, pl_cmOut := map resolve_item prs\<rparr>"
      using dr idle rnd by (simp add: committer_drain_def)
    then show ?thesis using less True idle by (simp add: work_def flip: less(1) length_greater_0_conv)
  next
    case False
    then have "\<exists>cm1 p1. st' = st\<lparr>pl_cm := cm1, pl_prod := p1, pl_store := s, pl_cmOut := map resolve_item prs,
        pl_draining := None\<rparr> \<and> cm_ready cm1 = cm_ready cm"
      using dr idle rnd by (fastforce simp: committer_drain_def Let_def split: if_splits)
    then show ?thesis using less idle by (auto simp: work_def)
  qed
qed

lemma resolver_work:
  "resolver_take st = Some st' \<Longrightarrow> work st' < work st"
  "pipeline_inv st \<Longrightarrow> resolver_run st = Some st' \<Longrightarrow> work st' < work st"
proof -
  assume "resolver_take st = Some st'"
  then show "work st' < work st"
    by (auto simp: resolver_take_def work_def split: option.splits list.splits)
next
  assume inv: "pipeline_inv st" and run: "resolver_run st = Some st'"
  then obtain ri p' where "pl_res st = Some ri" "resolver_body ri (pl_prod st) = Ok p'"
    using resolver_body_effect [of "pl_prod st"] by (fastforce simp: resolver_run_def pipeline_inv_def split: option.splits)
  then show "work st' < work st" using run by (auto simp: resolver_run_def work_def)
qed

lemma internal_work:
  assumes inv: "pipeline_inv st" and "exec z order a st = Some st'" and "internal a" and ord: "order_ok order"
    and cas: "cas_store (me_store (p_enqueuer (pl_prod st))) objs"
  shows "work st' < work st"
proof -
  have run: "exec_action z order a st = Some st'" using assms(2) by (simp add: exec_def split: if_splits)
  then show ?thesis
    using assms(3) by (cases a) (auto dest: encoder_take_work encoder_run_work encoder_fail_work uploader_take_work
      uploader_run_work uploader_done_work committer_receive_work committer_drain_work [OF inv ord _ cas]
      resolver_work resolver_work(2) [OF inv])
qed

text \<open>The work left is bounded by the batches in flight.\<close>

lemma sum_work_le: "(\<And>x. f x \<le> k * length (g x)) \<Longrightarrow> sum_list (map f xs) \<le> k * length (concat (map g xs))"
proof (induction xs)
  case (Cons x xs)
  then show ?case using Cons.prems [of x] by (simp add: distrib_left add_mono)
qed simp

lemma work_bound: "work st \<le> 10 * size (in_flight st) + 1"
proof -
  have "enc_work e \<le> 10 * length (enc_loads e)" for e by (cases e) simp_all
  then have "sum_list (map enc_work (pl_encs st)) \<le> 10 * length (concat (map enc_loads (pl_encs st)))"
    by (rule sum_work_le)
  moreover have "upl_work u \<le> 10 * length (upl_loads u)" for u by (cases u) simp_all
  then have "sum_list (map upl_work (pl_upls st)) \<le> 10 * length (concat (map upl_loads (pl_upls st)))"
    by (rule sum_work_le)
  ultimately show ?thesis
    unfolding work_def in_flight_def size_union size_mset size_image_mset size_pool length_map
    by (auto split: option.splits)
qed

lemma no_work_no_batch: "work st = 0 \<Longrightarrow> pipeline_inv st \<Longrightarrow> in_flight st = {#}"
proof -
  assume w: "work st = 0" and inv: "pipeline_inv st"
  have "list_all (\<lambda>e. e = EncIdle) (pl_encs st)"
  proof (unfold list_all_iff, intro ballI)
    fix e assume "e \<in> set (pl_encs st)"
    then have "enc_work e = 0" using w by (auto simp: work_def)
    then show "e = EncIdle" by (cases e) simp_all
  qed
  moreover have "list_all (\<lambda>u. u = UplIdle) (pl_upls st)"
  proof (unfold list_all_iff, intro ballI)
    fix u assume "u \<in> set (pl_upls st)"
    then have "upl_work u = 0" using w by (auto simp: work_def)
    then show "u = UplIdle" by (cases u) simp_all
  qed
  moreover have "dom (cm_ready (pl_cm st)) = {}" using w by (simp add: work_def)
  ultimately show ?thesis
    using w by (simp add: work_def in_flight_def idle_list [of EncIdle] idle_list [of UplIdle] split: if_splits)
qed

section \<open>Some goroutine can act\<close>

lemma busy_worker:
  assumes "\<not> list_all (\<lambda>e. e = x) es"
  obtains i where "i < length es" "es ! i \<noteq> x"
  using assms by (auto simp: list_all_length)

lemma encoder_enabled:
  assumes "pl_encs st ! i \<noteq> EncIdle" and i: "i < length (pl_encs st)" and "pl_comp st = []"
    and idle: "list_all (\<lambda>u. u = UplIdle) (pl_upls st)" "pl_upls st \<noteq> []"
  shows "\<exists>a. internal a \<and> exec_action z order a st \<noteq> None"
proof (cases "pl_encs st ! i")
  case (EncHas pb)
  obtain x p' where "encoder_body z 0 0 pb (pl_prod st) = Ok (x, p')"
    using encoder_body_cases [of z 0 0 pb "pl_prod st"] by blast
  then show ?thesis using EncHas i by (intro exI [of _ "EncodeA i 0 0"]) (simp add: encoder_run_def split: sum.splits)
next
  case (EncFailed uc)
  then show ?thesis using i assms(3)
    by (intro exI [of _ "EncFailA i"]) (simp add: encoder_fail_def completion_cap_def Let_def)
next
  case (EncOut eb)
  have "pl_upls st ! 0 = UplIdle" using idle by (cases "pl_upls st") simp_all
  then show ?thesis using EncOut i idle(2) by (intro exI [of _ "UplTakeA i 0"]) (simp add: uploader_take_def)
qed (use assms in simp)

lemma uploader_enabled:
  assumes "pl_upls st ! j \<noteq> UplIdle" and j: "j < length (pl_upls st)" and "pl_comp st = []"
  shows "\<exists>a. internal a \<and> exec_action z order a st \<noteq> None"
proof (cases "pl_upls st ! j")
  case (UplHas eb)
  obtain uc p' s' where "uploader_body (\<lambda>_ s. s) (\<lambda>_. False) 0 eb (pl_prod st) (pl_store st) = Ok (uc, p', s')"
    using uploader_body_returns [of "\<lambda>_ s. s" "\<lambda>_. False" 0 eb "pl_prod st" "pl_store st"] by blast
  then show ?thesis using UplHas j
    by (intro exI [of _ "UploadA (\<lambda>_ s. s) (\<lambda>_. False) j 0"]) (simp add: uploader_run_def)
next
  case (UplOut uc)
  then show ?thesis using j assms(3)
    by (intro exI [of _ "UplDoneA j"]) (simp add: uploader_done_def completion_cap_def Let_def)
qed (use assms in simp)

lemma committer_enabled:
  assumes "cas_returns (me_store (p_enqueuer (pl_prod st))) (casWithRetry env shut)"
    and "pl_draining st = Some w" and "pl_cmOut st = []"
  shows "committer_drain env shut order st \<noteq> None"
proof -
  have grp: "\<exists>e p' s'. commit_group (casWithRetry env shut) grp (pl_prod st) (pl_store st) = Some (Returned e, p', s')" for grp
    using commit_group_total [OF assms(1) refl] by blast
  obtain nx rd g failed where
    col: "collect (batch_size (pl_prod st)) (cm_next (pl_cm st)) (cm_ready (pl_cm st)) [] [] = (nx, rd, g, failed)"
    by (metis prod_cases4)
  obtain e p' s' where "commit_group (casWithRetry env shut) g (pl_prod st) (pl_store st) = Some (Returned e, p', s')"
    using grp by blast
  then have "\<exists>x cm p s. drain_round (casWithRetry env shut) order (batch_size (pl_prod st)) (pl_cm st) (pl_prod st)
      (pl_store st) = Some (Returned x, cm, p, s)"
    using col by (auto simp: drain_round_def Let_def enterHalted_def)
  then show ?thesis using assms(2,3) by (auto simp: committer_drain_def Let_def)
qed

lemma internal_enabled:
  assumes inv: "pipeline_inv st" and pools: "pl_encs st \<noteq> []" "pl_upls st \<noteq> []" and "\<not> pl_panicked st"
    and cas: "cas_returns (me_store (p_enqueuer (pl_prod st))) (casWithRetry env shut)" and "in_flight st \<noteq> {#}"
  shows "\<exists>a. internal a \<and> exec z order a st \<noteq> None"
proof -
  have "\<exists>a. internal a \<and> exec_action z order a st \<noteq> None"
  proof (rule ccontr)
    assume "\<not> ?thesis"
    then have none: "internal a \<Longrightarrow> exec_action z order a st = None" for a by blast
    have res: "pl_res st = None"
    proof (rule ccontr)
      assume "pl_res st \<noteq> None"
      then have "exec_action z order ResolveA st \<noteq> None" by (auto simp: resolver_run_def split: res.splits)
      then show False using none [of "ResolveA"] by simp
    qed
    have out: "pl_cmOut st = []"
    proof (rule ccontr)
      assume "pl_cmOut st \<noteq> []"
      then have "exec_action z order ResTakeA st \<noteq> None" using res by (auto simp: resolver_take_def split: list.splits)
      then show False using none [of "ResTakeA"] by simp
    qed
    have dr: "pl_draining st = None"
    proof (rule ccontr)
      assume "pl_draining st \<noteq> None"
      then have "exec_action z order (DrainA env shut) st \<noteq> None" using committer_enabled [OF cas _ out] by auto
      then show False using none [of "DrainA env shut"] by simp
    qed
    have comp: "pl_comp st = []"
    proof (rule ccontr)
      assume "pl_comp st \<noteq> []"
      then have "exec_action z order ReceiveA st \<noteq> None"
        using out dr by (auto simp: committer_receive_def Let_def split: list.splits)
      then show False using none [of "ReceiveA"] by simp
    qed
    have upl: "list_all (\<lambda>u. u = UplIdle) (pl_upls st)"
    proof (rule ccontr)
      assume "\<not> ?thesis"
      then obtain j where "j < length (pl_upls st)" "pl_upls st ! j \<noteq> UplIdle" by (rule busy_worker)
      with uploader_enabled [OF _ _ comp, of j z order] show False using none by auto
    qed
    have enc: "list_all (\<lambda>e. e = EncIdle) (pl_encs st)"
    proof (rule ccontr)
      assume "\<not> ?thesis"
      then obtain i where "i < length (pl_encs st)" "pl_encs st ! i \<noteq> EncIdle" by (rule busy_worker)
      with encoder_enabled [OF _ _ comp upl pools(2), of i z order] show False using none by auto
    qed
    have rot: "pl_rotOut st = None"
    proof (rule ccontr)
      assume "pl_rotOut st \<noteq> None"
      then have "exec_action z order (EncTakeA 0) st \<noteq> None"
        using enc pools(1) by (cases "pl_encs st") (auto simp: encoder_take_def)
      then show False using none [of "EncTakeA 0"] by simp
    qed
    have "upstream st = {#}"
      using rot comp enc upl by (simp add: upstream_def idle_list [of EncIdle] idle_list [of UplIdle])
    moreover have "ordinal_inv st" using inv by (simp add: pipeline_inv_def)
    ultimately have "cm_ready (pl_cm st) = Map.empty"
      using dr tracks_complete [OF _ _ refl] by (auto simp: ordinal_inv_def split: if_splits)
    then have "in_flight st = {#}"
      using rot comp enc upl out res by (simp add: in_flight_def idle_list [of EncIdle] idle_list [of UplIdle])
    then show False using assms(6) by simp
  qed
  then show ?thesis using assms(4) by (simp add: exec_def)
qed

lemma internal_run:
  assumes "pipeline_inv st" and "list_all internal acts" and "exec_all z order acts st = Some st'" and "order_ok order"
    and "cas_store (me_store (p_enqueuer (pl_prod st))) objs" and "pl_encs st \<noteq> []" and "pl_upls st \<noteq> []"
  shows "length acts + work st' \<le> work st \<and> pipeline_inv st' \<and> pl_panicked st' = pl_panicked st \<and>
    me_store (p_enqueuer (pl_prod st')) = me_store (p_enqueuer (pl_prod st)) \<and> pl_encs st' \<noteq> [] \<and> pl_upls st' \<noteq> []"
  using assms
proof (induction acts arbitrary: st)
  case (Cons a acts)
  obtain st1 where ex: "exec z order a st = Some st1" and rest: "exec_all z order acts st1 = Some st'"
    using Cons.prems(3) by (auto split: option.splits)
  have a: "internal a" "list_all internal acts" using Cons.prems(2) by simp_all
  have g: "me_store (p_enqueuer (pl_prod st1)) = me_store (p_enqueuer (pl_prod st))" "pl_encs st1 \<noteq> []" "pl_upls st1 \<noteq> []"
    using exec_grows [OF ex] Cons.prems(6,7) unfolding grows_def setup_of_def by (metis length_0_conv prod.inject)+
  note k = internal_keeps [OF Cons.prems(1) ex a(1) Cons.prems(4,5)] and w = internal_work [OF Cons.prems(1) ex a(1) Cons.prems(4,5)]
  have "pipeline_inv st1" using k by (simp add: keeps_def)
  from Cons.IH [OF this a(2) rest Cons.prems(4) _ g(2,3)] show ?case using Cons.prems(5) g(1) k w by simp
qed simp

lemma internal_drain:
  assumes "pipeline_inv st" and "order_ok order" and "cas_store (me_store (p_enqueuer (pl_prod st))) objs"
    and "cas_returns (me_store (p_enqueuer (pl_prod st))) (casWithRetry env shut)" and "pl_encs st \<noteq> []" and "pl_upls st \<noteq> []"
    and "\<not> pl_panicked st"
  shows "\<exists>acts st'. list_all internal acts \<and> exec_all z order acts st = Some st' \<and> in_flight st' = {#}"
  using assms
proof (induction "work st" arbitrary: st rule: less_induct)
  case less
  show ?case
  proof (cases "in_flight st = {#}")
    case True
    then show ?thesis by (intro exI [of _ "[]"] exI [of _ st]) simp
  next
    case False
    then obtain a st1 where a: "internal a" and ex: "exec z order a st = Some st1"
      using internal_enabled [OF less.prems(1,5,6,7,4)] by blast
    have run: "exec_all z order [a] st = Some st1" and int: "list_all internal [a]" using a ex by simp_all
    note r = internal_run [OF less.prems(1) int run less.prems(2,3,5,6)]
    then have "\<exists>acts st'. list_all internal acts \<and> exec_all z order acts st1 = Some st' \<and> in_flight st' = {#}"
      by (intro less.hyps) (use less.prems in auto)
    then obtain acts st' where "list_all internal acts" "exec_all z order acts st1 = Some st'" "in_flight st' = {#}" by blast
    then show ?thesis using a ex by (intro exI [of _ "a # acts"] exI [of _ st']) simp
  qed
qed

section \<open>A complete run\<close>

definition sample_delivery :: "'s action list" where
  "sample_delivery = [EncTakeA 0, EncodeA 0 13 0, UplTakeA 0 0, UploadA (\<lambda>_ s. s) (\<lambda>_. False) 0 0, UplDoneA 0,
     ReceiveA, DrainA (\<lambda>_ _ s. s) (\<lambda>_. False), ResTakeA, ResolveA, DrainA (\<lambda>_ _ s. s) (\<lambda>_. False)]"

definition sample_closing :: "'s action list" where
  "sample_closing = [CloseA, RotatorA CaseClosed 20]"

lemma sample_run:
  "map_option (\<lambda>st. (p_flushAcks (pl_prod st), batchesUsed (p_budget (pl_prod st)), bytesUsed (p_budget (pl_prod st)),
       pl_panicked st, watcher_Result (p_watchers (pl_prod st) 0)))
     (exec_all stored_zstd sorted_list_of_set (sample_append @ RotatorA CaseFlush 12 # sample_delivery) sample_start) =
   Some ([(0, None)], 0, 0, False, (True, None))"
  by code_simp

lemma sample_close:
  "map_option resolverDone (exec_all stored_zstd sorted_list_of_set
     (sample_append @ RotatorA CaseFlush 12 # sample_delivery @ sample_closing) sample_start) = Some True"
  by code_simp

lemma sample_stages:
  obtains st0 st1 st2 st3 where
    "exec_all stored_zstd sorted_list_of_set sample_append sample_start = Some st0" "accepted st0 = {#0#}" "pl_nextAck st0 = 0"
    "exec stored_zstd sorted_list_of_set (RotatorA CaseFlush 12) st0 = Some st1" "\<not> pl_panicked st1"
    "exec_all stored_zstd sorted_list_of_set sample_delivery st1 = Some st2"
    "p_flushAcks (pl_prod st2) = [(0, None)]" "batchesUsed (p_budget (pl_prod st2)) = 0"
    "exec_all stored_zstd sorted_list_of_set sample_closing st2 = Some st3" "resolverDone st3"
proof -
  let ?ex = "exec_all stored_zstd sorted_list_of_set"
  obtain st0 where st0: "?ex sample_append sample_start = Some st0" "accepted st0 = {#0#}"
    by (rule sample_accepted [of stored_zstd sorted_list_of_set])
  have "map_option pl_nextAck (?ex sample_append sample_start) = Some 0" by code_simp
  then have ack: "pl_nextAck st0 = 0" using st0 by simp
  from sample_run obtain st2 where full: "?ex (sample_append @ RotatorA CaseFlush 12 # sample_delivery) sample_start = Some st2"
    and st2: "p_flushAcks (pl_prod st2) = [(0, None)]" "batchesUsed (p_budget (pl_prod st2)) = 0"
    by (auto simp del: exec_all.simps)
  from iffD1 [OF exec_all_append full] st0(1) have "?ex (RotatorA CaseFlush 12 # sample_delivery) st0 = Some st2" by auto
  then obtain st1 where st1: "exec stored_zstd sorted_list_of_set (RotatorA CaseFlush 12) st0 = Some st1"
    and del: "?ex sample_delivery st1 = Some st2" by (auto split: option.splits)
  from sample_close obtain st3 where
    all: "?ex ((sample_append @ RotatorA CaseFlush 12 # sample_delivery) @ sample_closing) sample_start = Some st3"
    and "resolverDone st3" by (auto simp del: exec_all.simps)
  moreover from iffD1 [OF exec_all_append all] full have "?ex sample_closing st2 = Some st3" by auto
  moreover have "\<not> pl_panicked st1" using del by (auto simp: exec_def sample_delivery_def split: if_splits)
  ultimately show ?thesis using that st0 ack st1 del st2 by blast
qed

section \<open>Properties\<close>

text \<open>
  C10. The pipeline drains.  From any state of any run that did not panic, the producer's own
  goroutines can take at most ten actions per batch in flight and one more, and as long as a batch is
  in flight some goroutine can act (given that the manifest CAS returns): no deadlock, no livelock,
  so every batch reaches the resolver, which gives its slot back and resolves its watchers.
\<close>

theorem pipeline_drains:
  assumes "order_ok order" and "cas_store store objs" and "length acts < 2 ^ 64 - 1"
    and "cas_returns store (casWithRetry env shut)"
    and "exec_all z order acts (start store config runID s) = Some st" and "\<not> pl_panicked st"
    and "list_all internal acts'" and "exec_all z order acts' st = Some st'"
  shows "length acts' \<le> 10 * size (in_flight st) + 1 \<and>
    (in_flight st' \<noteq> {#} \<longrightarrow> (\<exists>a. internal a \<and> exec z order a st' \<noteq> None)) \<and>
    (\<exists>acts'' st''. list_all internal acts'' \<and> exec_all z order acts'' st' = Some st'' \<and> in_flight st'' = {#})"
proof -
  have "sound store objs order 0 st" using run_sound [OF assms(1,2) _ assms(5)] assms(3) by simp
  then have s: "pipeline_inv st" "pl_encs st \<noteq> []" "pl_upls st \<noteq> []" "me_store (p_enqueuer (pl_prod st)) = store"
    by (auto simp: sound_def run_ok_def)
  have cas: "cas_store (me_store (p_enqueuer (pl_prod st))) objs" using s(4) assms(2) by simp
  note r = internal_run [OF s(1) assms(7,8,1) cas s(2,3)]
  have bound: "length acts' \<le> 10 * size (in_flight st) + 1" using r work_bound [of st] by linarith
  have s': "pipeline_inv st'" "pl_encs st' \<noteq> []" "pl_upls st' \<noteq> []" "\<not> pl_panicked st'"
    and ret: "cas_returns (me_store (p_enqueuer (pl_prod st'))) (casWithRetry env shut)"
    and cas': "cas_store (me_store (p_enqueuer (pl_prod st'))) objs"
    using r assms(2,4,6) s(4) by auto
  show ?thesis
    using bound internal_enabled [OF s' ret] internal_drain [OF s'(1) assms(1) cas' ret s'(2,3,4)] by blast
qed

theorem pipeline_drains_witness:
  "\<exists>st st'. exec_all stored_zstd sorted_list_of_set (sample_append @ [RotatorA CaseFlush 12])
      (start InMemory_store DefaultProducerConfig ''run'' NewInMemory) = Some st \<and>
    exec_all stored_zstd sorted_list_of_set sample_delivery st = Some st' \<and>
    length (sample_delivery :: InMemory action list) \<le> 10 * size (in_flight st) + 1"
proof -
  obtain st0 st st' where "exec_all stored_zstd sorted_list_of_set sample_append sample_start = Some st0"
      "exec stored_zstd sorted_list_of_set (RotatorA CaseFlush 12) st0 = Some st" and calm: "\<not> pl_panicked st"
    and del: "exec_all stored_zstd sorted_list_of_set sample_delivery st = Some st'" by (rule sample_stages)
  then have run: "exec_all stored_zstd sorted_list_of_set (sample_append @ [RotatorA CaseFlush 12]) sample_start = Some st"
    by (simp add: exec_all_append)
  have alone: "\<forall>a items me s. me_store me = InMemory_store \<longrightarrow> enqueueBatch (\<lambda>_ s. s) items me s \<noteq> None"
    using mem.enqueueBatch_alone_returns by blast
  have ret: "cas_returns InMemory_store (casWithRetry (\<lambda>_ _ s. s) (\<lambda>_. False))"
    by (rule casWithRetry_returns [OF mem.cas_store_axioms]) (use alone in simp)
  have "list_all internal (sample_delivery :: InMemory action list)" by (simp add: sample_delivery_def)
  then have "length (sample_delivery :: InMemory action list) \<le> 10 * size (in_flight st) + 1"
    using pipeline_drains [OF sorted_order_ok mem.cas_store_axioms _ ret run [unfolded sample_start_def] calm _ del]
    by (simp add: sample_append_def)
  then show ?thesis using run del unfolding sample_start_def by blast
qed

text \<open>
  C8. \<^verbatim>\<open>Flush\<close> waits for everything accepted before it: when it returns nil, every message
  that was queued, accumulated or in flight when the rotator received the request has its watcher
  resolved, whatever was appended meanwhile.
\<close>

theorem Flush_waits_for_accepted:
  assumes "order_ok order" and "cas_store store objs" and "length acts + length acts' + 1 < 2 ^ 64 - 1"
    and "exec_all z order acts (start store config runID s) = Some st0"
    and "exec z order (RotatorA CaseFlush now) st0 = Some st1" and "exec_all z order acts' st1 = Some st2"
    and "Flush_returns (pl_nextAck st0) st2 None" and "w \<in># accepted st0"
  shows "w_done (p_watchers (pl_prod st2) w)"
proof -
  have s0: "sound store objs order (Suc (length acts' + 0)) st0"
    using run_sound [OF assms(1,2) _ assms(4), of "Suc (length acts')"] assms(3) by simp
  note s1 = exec_sound [OF s0 assms(5)]
  note s2 = exec_all_sound [OF conjunct1 [OF s1] assms(6)]
  have ord: "rt_ordinal (pl_rot st0) \<noteq> - 1" using s0 run_ok_ordinal unfolding sound_def by blast
  have "rotator_step CaseFlush now st0 = Some st1" using assms(5) by (simp add: exec_def split: if_splits)
  with s0 ord have "waiting_watchers st1 = {#}" using rotator_step_keeps unfolding sound_def by blast
  then have "w \<in># load_watchers (in_flight st1) \<or> w_done (p_watchers (pl_prod st1) w)"
    using s1 assms(8) unfolding keeps_def advances_def by (auto simp: accepted_def [of st1])
  then have "w \<in># load_watchers (in_flight st2) \<or> w_done (p_watchers (pl_prod st2) w)"
    using s2 unfolding keeps_def advances_def by metis
  moreover have "in_flight st2 = {#}"
    using assms(7) s2 by (auto simp: Flush_returns_def keeps_def pipeline_inv_def reservation_inv_def)
  ultimately show ?thesis by (simp add: load_watchers_def)
qed

theorem Flush_waits_for_accepted_witness:
  "\<exists>st0 st1 st2. exec_all stored_zstd sorted_list_of_set sample_append
      (start InMemory_store DefaultProducerConfig ''run'' NewInMemory) = Some st0 \<and> 0 \<in># accepted st0 \<and>
    exec stored_zstd sorted_list_of_set (RotatorA CaseFlush 12) st0 = Some st1 \<and>
    exec_all stored_zstd sorted_list_of_set sample_delivery st1 = Some st2 \<and> Flush_returns (pl_nextAck st0) st2 None \<and>
    w_done (p_watchers (pl_prod st2) 0)"
proof -
  obtain st0 st1 st2 where run: "exec_all stored_zstd sorted_list_of_set sample_append sample_start = Some st0"
    and acc: "accepted st0 = {#0#}" and ack: "pl_nextAck st0 = 0"
    and fl: "exec stored_zstd sorted_list_of_set (RotatorA CaseFlush 12) st0 = Some st1"
    and del: "exec_all stored_zstd sorted_list_of_set sample_delivery st1 = Some st2"
    and "p_flushAcks (pl_prod st2) = [(0, None)]" "batchesUsed (p_budget (pl_prod st2)) = 0" by (rule sample_stages)
  then have ret: "Flush_returns (pl_nextAck st0) st2 None" by (simp add: Flush_returns_def ack)
  have "w_done (p_watchers (pl_prod st2) 0)"
    by (rule Flush_waits_for_accepted [OF sorted_order_ok mem.cas_store_axioms _ run [unfolded sample_start_def] fl del ret])
      (simp_all add: acc sample_append_def sample_delivery_def)
  then show ?thesis using run fl del ret acc unfolding sample_start_def by auto
qed

text \<open>
  C9. \<^verbatim>\<open>Close\<close> leaves nothing behind: when the last goroutine has exited, gracefully or
  forced, every message ever accepted has its watcher resolved, no batch is in flight, and the only
  bytes still reserved belong to callers that have not entered the pipeline.
\<close>

theorem Close_leaves_nothing:
  assumes "order_ok order" and "cas_store store objs" and "length acts + length acts' < 2 ^ 64 - 1"
    and "exec_all z order acts (start store config runID s) = Some st0" and "exec_all z order acts' st0 = Some st"
    and "resolverDone st"
  shows "(w \<in># accepted st0 \<longrightarrow> w_done (p_watchers (pl_prod st) w)) \<and> batchesUsed (p_budget (pl_prod st)) = 0 \<and>
    bytesUsed (p_budget (pl_prod st)) = sum_cost (pl_sending st)"
proof -
  have s0: "sound store objs order (length acts' + 0) st0" using run_sound [OF assms(1,2) _ assms(4)] assms(3) by simp
  note s = exec_all_sound [OF s0 assms(5)]
  have inv: "pipeline_inv st" "exit_inv st" using s by (auto simp: sound_def)
  have fl: "in_flight st = {#}" by (rule resolverDone_in_flight [OF inv(1) assms(6)])
  have wait: "waiting_watchers st = {#}"
    using inv(2) assms(6) by (simp add: exit_inv_def resolverDone_def committerDone_def uploaderPoolDone_def
        encoderPoolDone_def rotatorDone_def)
  then have "accepted st = {#}" by (simp add: accepted_def fl load_watchers_def)
  then have "w \<in># accepted st0 \<longrightarrow> w_done (p_watchers (pl_prod st) w)"
    using s unfolding keeps_def advances_def by (metis empty_iff set_mset_empty)
  moreover obtain msgs where "holds msgs (rt_batch (pl_rot st))" using inv(1) by (auto simp: pipeline_inv_def message_inv_def)
  then have "ba_byteCost (rt_batch (pl_rot st)) = 0" "pl_appendCh st = []"
    using wait by (auto simp: waiting_watchers_def holds_def)
  ultimately show ?thesis
    using inv(1) by (simp add: pipeline_inv_def reservation_inv_def fl load_bytes_def)
qed

theorem Close_leaves_nothing_witness:
  "\<exists>st0 st. exec_all stored_zstd sorted_list_of_set sample_append
      (start InMemory_store DefaultProducerConfig ''run'' NewInMemory) = Some st0 \<and> 0 \<in># accepted st0 \<and>
    exec_all stored_zstd sorted_list_of_set (RotatorA CaseFlush 12 # sample_delivery @ sample_closing) st0 = Some st \<and>
    resolverDone st \<and> w_done (p_watchers (pl_prod st) 0)"
proof -
  obtain st0 st1 st2 st where run: "exec_all stored_zstd sorted_list_of_set sample_append sample_start = Some st0"
    and acc: "accepted st0 = {#0#}" and "exec stored_zstd sorted_list_of_set (RotatorA CaseFlush 12) st0 = Some st1"
      "exec_all stored_zstd sorted_list_of_set sample_delivery st1 = Some st2"
      "exec_all stored_zstd sorted_list_of_set sample_closing st2 = Some st" and fin: "resolverDone st" by (rule sample_stages)
  then have cl: "exec_all stored_zstd sorted_list_of_set (RotatorA CaseFlush 12 # sample_delivery @ sample_closing) st0 = Some st"
    by (simp add: exec_all_append)
  from fin Close_leaves_nothing [OF sorted_order_ok mem.cas_store_axioms _ run [unfolded sample_start_def] cl, where w = 0] show ?thesis
    using run acc cl unfolding sample_start_def
    by (auto simp: sample_append_def sample_delivery_def sample_closing_def simp del: exec_all.simps)
qed

end
