(* ===== verification/Durability.thy ===== *)
theory Durability
  imports Progress
begin

text \<open>
  What a nil result means.  The invariant of this theory follows the content of every message from
  \<^verbatim>\<open>AppendContext\<close> through batch, data object and manifest entry, with other clients of the
  bucket running in between, and ends in the durability guarantee of the producer.
\<close>

section \<open>What the store keeps\<close>

text \<open>Objects at the paths \<open>P\<close> are neither overwritten nor deleted between \<open>o1\<close> and \<open>o2\<close>.\<close>

definition kept :: "string set \<Rightarrow> objects \<Rightarrow> objects \<Rightarrow> bool" where
  "kept P o1 o2 \<longleftrightarrow> (\<forall>p \<in> P. \<forall>x. o1 p = Some x \<longrightarrow> o2 p = Some x)"

lemma kept_refl [simp]: "kept P o1 o1"
  by (simp add: kept_def)

lemma kept_trans [trans]: "kept P o1 o2 \<Longrightarrow> kept P o2 o3 \<Longrightarrow> kept P o1 o3"
  by (simp add: kept_def)

lemma kept_subset: "kept P o1 o2 \<Longrightarrow> Q \<subseteq> P \<Longrightarrow> kept Q o1 o2"
  by (auto simp: kept_def)

lemma kept_written: "written o1 p d o2 \<Longrightarrow> p \<notin> P \<Longrightarrow> kept P o1 o2"
  by (auto simp: kept_def written_def)

context cas_store
begin

lemma enqueue_round_kept:
  assumes "me_store p = S" and "me_manifestPath p \<notin> P" and env: "\<forall>i s. kept P (objs s) (objs (env i s))"
  shows "case enqueue_round env items c p s of Done r p' s' \<Rightarrow> kept P (objs s) (objs s')
    | Retry p' s' \<Rightarrow> kept P (objs s) (objs s')"
proof -
  obtain r1 s1 where rd: "readManifest p (env (2 * c) s) = (r1, s1)" by fastforce
  obtain x where get: "os_Get S (me_manifestPath p) (env (2 * c) s) = (x, s1)"
    using assms(1) rd by (auto simp: readManifest_def split: prod.splits res.splits if_splits)
  have k1: "kept P (objs s) (objs s1)" using env get_frame [OF get] by simp
  have "kept P (objs s) (objs s2)"
    if put: "os_PutIfMatch S (me_manifestPath p) data v (env (2 * c + 1) s1) = (e, s2)" for data v e s2
  proof -
    have "objs s2 = objs (env (2 * c + 1) s1) \<or> written (objs (env (2 * c + 1) s1)) (me_manifestPath p) data (objs s2)"
      using put cas_ok cas_error by (cases e) blast+
    then have "kept P (objs (env (2 * c + 1) s1)) (objs s2)" using kept_written assms(2) by fastforce
    with env k1 show ?thesis using kept_trans by blast
  qed
  then show ?thesis
    using rd k1 assms(1) by (auto simp: enqueue_round_def Let_def split: res.splits prod.splits option.splits)
qed

lemma enqueueBatch_kept:
  fixes p :: "'s manifestEnqueuer"
  assumes "enqueueBatch env items p s = Some (r, p', s')" and "me_store p = S" and "me_manifestPath p \<notin> P"
    and env: "\<forall>i s. kept P (objs s) (objs (env i s))"
  shows "kept P (objs s) (objs s')"
proof (cases "items = []")
  case False
  then have ret: "enqueue_loop env items 0 p s = Some (r, p', s')" using assms(1) by (simp add: enqueueBatch_def)
  let ?P = "\<lambda>(c :: nat) (p :: 's manifestEnqueuer) s (r :: enqueue_result, p' :: 's manifestEnqueuer, s').
    me_store p = S \<longrightarrow> me_manifestPath p \<notin> P \<longrightarrow> kept P (objs s) (objs s')"
  have "?P 0 p s (r, p', s')"
  proof (rule enqueue_loop_induct [OF ret, where P = ?P])
    fix c p s r p' s' assume "enqueue_round env items c p s = Done r p' s'"
    then show "?P c p s (r, p', s')" using enqueue_round_kept [OF _ _ env, where p = p and items = items and c = c and s = s] by simp
  next
    fix c p s p1 s1 out assume "enqueue_round env items c p s = Retry p1 s1" "?P (Suc c) p1 s1 out"
    then show "?P c p s out"
      using enqueue_round_kept [OF _ _ env, where p = p and items = items and c = c and s = s] kept_trans
        enqueue_round_frame [where env = env and items = items and c = c and p = p and s = s] by auto
  qed
  with assms show ?thesis by simp
qed (use assms in \<open>simp add: enqueueBatch_def\<close>)

lemma cas_loop_kept:
  assumes "cas_loop env shut items n a tc err p s = Some (r, p', s')"
    and "me_store (p_enqueuer p) = S" and "me_manifestPath (p_enqueuer p) \<notin> P"
    and env: "\<forall>a i s. kept P (objs s) (objs (env a i s))"
  shows "kept P (objs s) (objs s')"
  using assms(1-3)
proof (induction n arbitrary: a tc err p s)
  case (Suc n)
  from Suc.prems(1) obtain r1 me1 s1 where enq: "enqueueBatch (env a) items (p_enqueuer p) s = Some (r1, me1, s1)"
    by (auto split: option.splits)
  have k: "kept P (objs s) (objs s1)" by (rule enqueueBatch_kept [OF enq Suc.prems(2,3)]) (use env in simp)
  show ?case
  proof (cases "s' = s1")
    case False
    then obtain c e where r1: "r1 = Returned (c, e)" and
      rec: "cas_loop env shut items n (a + 1) (tc + c) e (p\<lparr>p_enqueuer := me1\<rparr>) s1 = Some (r, p', s')"
      using Suc.prems(1) enq by (auto simp: Let_def split: option.splits run.splits prod.splits if_splits)
    have "kept P (objs s1) (objs s')"
      by (rule Suc.IH [OF rec]) (use enqueueBatch_core [OF enq] Suc.prems in simp_all)
    with k show ?thesis by (rule kept_trans)
  qed (use k in simp)
qed simp

lemma put_loop_kept:
  assumes "put_loop env shut eb n a p s = Ok (r, p', s')" and "p_store p = S" and "eb_location eb \<notin> P"
    and env: "\<forall>a s. kept P (objs s) (objs (env a s))"
  shows "kept P (objs s) (objs s')"
  using assms(1,2)
proof (induction n arbitrary: a p s)
  case (Suc n)
  obtain err s1 where put: "os_Put S (eb_location eb) (eb_payload eb) (env a s) = (err, s1)" by fastforce
  have "objs s1 = objs (env a s) \<or> written (objs (env a s)) (eb_location eb) (eb_payload eb) (objs s1)"
    using put put_ok put_error by (cases err) blast+
  then have "kept P (objs (env a s)) (objs s1)" using kept_written assms(3) by fastforce
  then have k: "kept P (objs s) (objs s1)" using env kept_trans by blast
  show ?case
  proof (cases "s' = s1")
    case False
    then have "put_loop env shut eb n (a + 1)
        (observe [OnStorePut (eb_size eb) err, OnUploadDuration (eb_size eb) err] p) s1 = Ok (r, p', s')"
      using Suc.prems put by (auto simp: Let_def split: option.splits if_splits)
    from Suc.IH [OF this] Suc.prems(2) have "kept P (objs s1) (objs s')" by simp
    with k show ?thesis by (rule kept_trans)
  qed (use k in simp)
qed simp

lemma put_loop_queue:
  assumes "put_loop env shut eb n a p s = Ok (r, p', s')" and "p_store p = S" and "eb_location eb \<noteq> path"
    and env: "\<forall>a. queue_clients objs path (\<lambda>_. env a)" and "queue_at (objs s) path (q_items q xs)"
  shows "\<exists>zs. queue_at (objs s') path (q_items q (xs @ zs))"
  using assms(1,2,5)
proof (induction n arbitrary: a p s xs)
  case (Suc n)
  obtain err s1 where put: "os_Put S (eb_location eb) (eb_payload eb) (env a s) = (err, s1)" by fastforce
  obtain zs where "queue_at (objs (env a s)) path (q_items (q_items q xs) zs)"
    using env Suc.prems(3) unfolding queue_clients_def by blast
  moreover have "objs s1 = objs (env a s) \<or> written (objs (env a s)) (eb_location eb) (eb_payload eb) (objs s1)"
    using put put_ok put_error by (cases err) blast+
  then have "objs s1 path = objs (env a s) path" using assms(3) by (auto simp: written_def)
  ultimately have at: "queue_at (objs s1) path (q_items q (xs @ zs))" by (simp add: queue_at_def)
  show ?case
  proof (cases "s' = s1")
    case False
    then have "put_loop env shut eb n (a + 1)
        (observe [OnStorePut (eb_size eb) err, OnUploadDuration (eb_size eb) err] p) s1 = Ok (r, p', s')"
      using Suc.prems put by (auto simp: Let_def split: option.splits if_splits)
    from Suc.IH [OF this _ at] Suc.prems(2) show ?thesis by (metis append_assoc observe_simps(5))
  qed (use at in blast)
qed simp

end

section \<open>The content of a message\<close>

text \<open>
  A deployment: the compression library, the view of the bucket, the effective configuration and run
  identifier of the producer, and the manifest as the producer found it.
\<close>

record 's deployment =
  dp_zstd :: zstd_lib
  dp_objs :: "'s \<Rightarrow> objects"
  dp_config :: ProducerConfig
  dp_runID :: string
  dp_queue :: queue

abbreviation dp_location :: "'s deployment \<Rightarrow> u64 \<Rightarrow> string" where
  "dp_location D \<equiv> location_of (dp_config D) (dp_runID D)"

abbreviation dp_manifest :: "'s deployment \<Rightarrow> string" where
  "dp_manifest D \<equiv> cfg_ManifestPath (dp_config D)"

abbreviation dp_setup :: "'s deployment \<Rightarrow> 's ObjectStore \<Rightarrow> 's Producer \<Rightarrow> bool" where
  "dp_setup D S p \<equiv> setup_of p = (S, dp_config D, S, dp_manifest D, dp_runID D)"

text \<open>
  The other clients of the bucket: they enqueue to the manifest and leave this producer's data
  objects alone.
\<close>

definition friend :: "'s deployment \<Rightarrow> ('s \<Rightarrow> 's) \<Rightarrow> bool" where
  "friend D f \<longleftrightarrow> queue_clients (dp_objs D) (dp_manifest D) (\<lambda>_. f) \<and>
     (\<forall>s. kept (range (dp_location D)) (dp_objs D s) (dp_objs D (f s)))"

fun friendly :: "'s deployment \<Rightarrow> 's action \<Rightarrow> bool" where
  "friendly D (EnvA f) \<longleftrightarrow> friend D f"
| "friendly D (UploadA env shut j depth) \<longleftrightarrow> (\<forall>a. friend D (env a))"
| "friendly D (DrainA env shut) \<longleftrightarrow> (\<forall>a i. friend D (env a i))"
| "friendly D _ \<longleftrightarrow> True"

text \<open>\<open>M\<close> gives the message of every watcher; a batch is the list of its watchers.\<close>

definition batch_entries :: "(nat \<Rightarrow> appendMessage) \<Rightarrow> nat list \<Rightarrow> bytes list" where
  "batch_entries M ws = concat (map am_entries (map M ws))"

definition batch_item :: "'s deployment \<Rightarrow> (nat \<Rightarrow> appendMessage) \<Rightarrow> nat list \<Rightarrow> u64 \<Rightarrow> enqueueItem" where
  "batch_item D M ws n = \<lparr>ei_Location = dp_location D n, ei_Metadata = message_metadata 0 (map M ws)\<rparr>"

definition encoded :: "'s deployment \<Rightarrow> (nat \<Rightarrow> appendMessage) \<Rightarrow> nat list \<Rightarrow> bytes \<Rightarrow> bool" where
  "encoded D M ws payload \<longleftrightarrow> EncodeBatch (dp_zstd D) (batch_entries M ws) (cfg_BatchCompression (dp_config D)) = Ok payload \<and>
     length (batch_entries M ws) \<le> MaxUint32"

text \<open>The data object of the batch is in place; the batch is in the manifest; both.\<close>

definition stored :: "'s deployment \<Rightarrow> (nat \<Rightarrow> appendMessage) \<Rightarrow> objects \<Rightarrow> nat list \<Rightarrow> u64 \<Rightarrow> bool" where
  "stored D M o1 ws n \<longleftrightarrow> (\<exists>payload v. encoded D M ws payload \<and> o1 (dp_location D n) = Some (payload, v))"

definition listed :: "'s deployment \<Rightarrow> (nat \<Rightarrow> appendMessage) \<Rightarrow> objects \<Rightarrow> nat list \<Rightarrow> u64 \<Rightarrow> bool" where
  "listed D M o1 ws n \<longleftrightarrow>
     (\<exists>xs. queue_at o1 (dp_manifest D) (q_items (dp_queue D) xs) \<and> batch_item D M ws n \<in> set xs)"

definition durable :: "'s deployment \<Rightarrow> (nat \<Rightarrow> appendMessage) \<Rightarrow> objects \<Rightarrow> nat list \<Rightarrow> u64 \<Rightarrow> bool" where
  "durable D M o1 ws n \<longleftrightarrow> stored D M o1 ws n \<and> listed D M o1 ws n"

section \<open>The content invariant\<close>

text \<open>Ordinals of batches that may still be uploaded, and those that no longer will.\<close>

fun upl_pending :: "uploader_state \<Rightarrow> u64 list" where
  "upl_pending (UplHas eb) = [eb_ordinal eb]"
| "upl_pending _ = []"

definition pending_ordinals :: "'s pipeline \<Rightarrow> u64 multiset" where
  "pending_ordinals st =
     mset (map pb_ordinal (case pl_rotOut st of None \<Rightarrow> [] | Some pb \<Rightarrow> [pb])) +
     mset (concat (map enc_ordinals (pl_encs st))) + mset (concat (map upl_pending (pl_upls st)))"

definition settled :: "'s pipeline \<Rightarrow> u64 \<Rightarrow> bool" where
  "settled st n \<longleftrightarrow> n < rt_ordinal (pl_rot st) \<and> n \<notin># pending_ordinals st"

text \<open>The batches in the pipeline, by stage.\<close>

definition pbs :: "'s pipeline \<Rightarrow> pendingBatch set" where
  "pbs st = set_option (pl_rotOut st) \<union> {pb. EncHas pb \<in> set (pl_encs st)}"

definition ebs :: "'s pipeline \<Rightarrow> encodedBatch set" where
  "ebs st = {eb. EncOut eb \<in> set (pl_encs st)} \<union> {eb. UplHas eb \<in> set (pl_upls st)}"

definition ucs :: "'s pipeline \<Rightarrow> uploadCompletion set" where
  "ucs st = {uc. EncFailed uc \<in> set (pl_encs st)} \<union> {uc. UplOut uc \<in> set (pl_upls st)} \<union> set (pl_comp st) \<union>
     ran (cm_ready (pl_cm st))"

definition ris :: "'s pipeline \<Rightarrow> resolverItem set" where
  "ris st = set (pl_cmOut st) \<union> set_option (pl_res st)"

definition pb_ok :: "'s deployment \<Rightarrow> (nat \<Rightarrow> appendMessage) \<Rightarrow> pendingBatch \<Rightarrow> bool" where
  "pb_ok D M pb \<longleftrightarrow> pb_entries pb = batch_entries M (pb_watchers pb) \<and> length (batch_entries M (pb_watchers pb)) \<le> MaxUint32 \<and>
     pb_metadata pb = message_metadata 0 (map M (pb_watchers pb)) \<and>
     item_fits (batch_item D M (pb_watchers pb) (pb_ordinal pb))"

definition eb_ok :: "'s deployment \<Rightarrow> (nat \<Rightarrow> appendMessage) \<Rightarrow> encodedBatch \<Rightarrow> bool" where
  "eb_ok D M eb \<longleftrightarrow> encoded D M (eb_watchers eb) (eb_payload eb) \<and>
     \<lparr>ei_Location = eb_location eb, ei_Metadata = eb_metadata eb\<rparr> = batch_item D M (eb_watchers eb) (eb_ordinal eb) \<and>
     item_fits (batch_item D M (eb_watchers eb) (eb_ordinal eb))"

definition uc_ok :: "'s deployment \<Rightarrow> (nat \<Rightarrow> appendMessage) \<Rightarrow> 's pipeline \<Rightarrow> uploadCompletion \<Rightarrow> bool" where
  "uc_ok D M st uc \<longleftrightarrow> (uc_putError uc = None \<longrightarrow>
     settled st (ordinal_of uc) \<and> stored D M (dp_objs D (pl_store st)) (eb_watchers (uc_eb uc)) (ordinal_of uc) \<and>
     group_items [uc] = [batch_item D M (eb_watchers (uc_eb uc)) (ordinal_of uc)] \<and>
     item_fits (batch_item D M (eb_watchers (uc_eb uc)) (ordinal_of uc)))"

definition ri_ok :: "'s deployment \<Rightarrow> (nat \<Rightarrow> appendMessage) \<Rightarrow> 's pipeline \<Rightarrow> resolverItem \<Rightarrow> bool" where
  "ri_ok D M st ri \<longleftrightarrow> (ri_err ri = None \<longrightarrow>
     (\<exists>n. settled st n \<and> durable D M (dp_objs D (pl_store st)) (ri_watchers ri) n))"

definition delivered :: "'s deployment \<Rightarrow> (nat \<Rightarrow> appendMessage) \<Rightarrow> 's pipeline \<Rightarrow> nat \<Rightarrow> bool" where
  "delivered D M st w \<longleftrightarrow>
     (\<exists>ws n. w \<in> set ws \<and> settled st n \<and> durable D M (dp_objs D (pl_store st)) ws n)"

definition nil_result :: "'s pipeline \<Rightarrow> nat \<Rightarrow> bool" where
  "nil_result st w \<longleftrightarrow> watcher_Result (p_watchers (pl_prod st) w) = (True, None)"

definition manifest_intact :: "'s deployment \<Rightarrow> 's pipeline \<Rightarrow> bool" where
  "manifest_intact D st \<longleftrightarrow> (\<exists>xs. queue_at (dp_objs D (pl_store st)) (dp_manifest D) (q_items (dp_queue D) xs))"

definition front_ok :: "(nat \<Rightarrow> appendMessage) \<Rightarrow> 's pipeline \<Rightarrow> bool" where
  "front_ok M st \<longleftrightarrow> holds (map M (ba_watchers (rt_batch (pl_rot st)))) (rt_batch (pl_rot st)) \<and>
     list_all nonempty (map M (ba_watchers (rt_batch (pl_rot st)))) \<and> (\<forall>m \<in> set (pl_appendCh st). M (am_watcher m) = m)"

definition knows :: "(nat \<Rightarrow> appendMessage) \<Rightarrow> 's pipeline \<Rightarrow> bool" where
  "knows M st \<longleftrightarrow> (\<forall>m \<in> set (pl_sending st). M (am_watcher m) = m)"

definition content :: "'s deployment \<Rightarrow> (nat \<Rightarrow> appendMessage) \<Rightarrow> 's pipeline \<Rightarrow> bool" where
  "content D M st \<longleftrightarrow> front_ok M st \<and> (\<forall>pb \<in> pbs st. pb_ok D M pb) \<and> (\<forall>eb \<in> ebs st. eb_ok D M eb) \<and>
     (\<forall>uc \<in> ucs st. uc_ok D M st uc) \<and> (\<forall>ri \<in> ris st. ri_ok D M st ri) \<and>
     (\<forall>w. nil_result st w \<longrightarrow> delivered D M st w) \<and> manifest_intact D st"

text \<open>What the bucket keeps over an action.\<close>

definition persists :: "'s deployment \<Rightarrow> 's pipeline \<Rightarrow> 's pipeline \<Rightarrow> bool" where
  "persists D st st' \<longleftrightarrow> (\<forall>n. settled st n \<longrightarrow> settled st' n) \<and>
     kept (dp_location D ` {n. settled st n}) (dp_objs D (pl_store st)) (dp_objs D (pl_store st')) \<and>
     (\<forall>xs. queue_at (dp_objs D (pl_store st)) (dp_manifest D) (q_items (dp_queue D) xs) \<longrightarrow>
        (\<exists>zs. queue_at (dp_objs D (pl_store st')) (dp_manifest D) (q_items (dp_queue D) (xs @ zs))))"

lemma stored_persists:
  "persists D st st' \<Longrightarrow> settled st n \<Longrightarrow> stored D M (dp_objs D (pl_store st)) ws n \<Longrightarrow>
     stored D M (dp_objs D (pl_store st')) ws n"
  unfolding persists_def stored_def kept_def by blast

lemma durable_persists:
  assumes "persists D st st'" and "settled st n" and "durable D M (dp_objs D (pl_store st)) ws n"
  shows "durable D M (dp_objs D (pl_store st')) ws n"
proof -
  obtain xs where "queue_at (dp_objs D (pl_store st)) (dp_manifest D) (q_items (dp_queue D) xs)"
    and in_xs: "batch_item D M ws n \<in> set xs" using assms(3) by (auto simp: durable_def listed_def)
  then obtain zs where "queue_at (dp_objs D (pl_store st')) (dp_manifest D) (q_items (dp_queue D) (xs @ zs))"
    using assms(1) unfolding persists_def by blast
  moreover have "batch_item D M ws n \<in> set (xs @ zs)" using in_xs by simp
  ultimately have "listed D M (dp_objs D (pl_store st')) ws n" unfolding listed_def by blast
  then show ?thesis using stored_persists [OF assms(1,2)] assms(3) by (simp add: durable_def)
qed

lemma content_step:
  assumes inv: "content D M st" and keep: "persists D st st'" and front: "front_ok M st'"
    and "\<forall>pb \<in> pbs st'. pb \<in> pbs st \<or> pb_ok D M pb" and "\<forall>eb \<in> ebs st'. eb \<in> ebs st \<or> eb_ok D M eb"
    and uc: "\<forall>uc \<in> ucs st'. uc \<in> ucs st \<or> uc_ok D M st' uc" and ri: "\<forall>ri \<in> ris st'. ri \<in> ris st \<or> ri_ok D M st' ri"
    and fin: "\<forall>w. nil_result st' w \<longrightarrow> nil_result st w \<or> delivered D M st' w"
  shows "content D M st'"
proof -
  have set: "settled st n \<Longrightarrow> settled st' n" for n using keep by (simp add: persists_def)
  have "uc_ok D M st uc \<Longrightarrow> uc_ok D M st' uc" for uc
    using stored_persists [OF keep] set by (simp add: uc_ok_def)
  then have "\<forall>uc \<in> ucs st'. uc_ok D M st' uc" using inv uc by (auto simp: content_def)
  moreover have "ri_ok D M st ri \<Longrightarrow> ri_ok D M st' ri" for ri
    using durable_persists [OF keep] set unfolding ri_ok_def by blast
  then have "\<forall>ri \<in> ris st'. ri_ok D M st' ri" using inv ri by (auto simp: content_def)
  moreover have "delivered D M st w \<Longrightarrow> delivered D M st' w" for w
    using durable_persists [OF keep] set unfolding delivered_def by blast
  then have "\<forall>w. nil_result st' w \<longrightarrow> delivered D M st' w" using inv fin by (auto simp: content_def)
  moreover have "manifest_intact D st'" using inv keep unfolding content_def manifest_intact_def persists_def by blast
  ultimately show ?thesis using inv front assms(4,5) by (auto simp: content_def)
qed

section \<open>Every action keeps the content\<close>

lemma persists_quiet:
  assumes "pl_store st' = pl_store st" and "set_mset (pending_ordinals st') \<subseteq> set_mset (pending_ordinals st)"
    and "rt_ordinal (pl_rot st') = rt_ordinal (pl_rot st)"
  shows "persists D st st'"
proof -
  have "\<exists>zs. queue_at (dp_objs D (pl_store st)) (dp_manifest D) (q_items (dp_queue D) (xs @ zs))"
    if "queue_at (dp_objs D (pl_store st)) (dp_manifest D) (q_items (dp_queue D) xs)" for xs
    by (rule exI [of _ "[]"]) (use that in simp)
  then show ?thesis using assms by (auto simp: persists_def settled_def)
qed

text \<open>Actions in front of the rotator, and those that touch no batch.\<close>

lemma content_front:
  assumes "content D M st" and "front_ok M st'" and "pl_store st' = pl_store st" and "rt_ordinal (pl_rot st') = rt_ordinal (pl_rot st)"
    and "pl_rotOut st' = pl_rotOut st" and "pl_encs st' = pl_encs st" and "pl_upls st' = pl_upls st" and "pl_comp st' = pl_comp st"
    and "pl_cm st' = pl_cm st" and "pl_cmOut st' = pl_cmOut st" and "pl_res st' = pl_res st"
    and "p_watchers (pl_prod st') = p_watchers (pl_prod st)"
  shows "content D M st'"
proof (rule content_step [OF assms(1) _ assms(2)])
  show "persists D st st'" by (rule persists_quiet) (use assms in \<open>simp_all add: pending_ordinals_def\<close>)
qed (use assms in \<open>simp_all add: pbs_def ebs_def ucs_def ris_def nil_result_def\<close>)

lemma crash_content: "content D M st \<Longrightarrow> content D M (crash st)"
  by (rule content_front) (simp_all add: crash_def content_def front_ok_def)

lemma AppendContext_content:
  assumes inv: "content D M st" and "knows M st"
  shows "AppendContext_reserve entries metadata now st = Some st' \<Longrightarrow> content D M st'"
    and "AppendContext_send i st = Some st' \<Longrightarrow> content D M st'"
    and "AppendContext_giveup i st = Some st' \<Longrightarrow> content D M st'"
proof -
  have f: "front_ok M st" using inv by (simp add: content_def)
  {
    assume "AppendContext_reserve entries metadata now st = Some st'"
    then show "content D M st'"
      by (intro content_front [OF inv]) (use f in \<open>auto simp: AppendContext_reserve_def Let_def emitInflightSnapshot_eq front_ok_def
          split: if_splits prod.splits attempt_outcome.splits\<close>)
  next
    assume send: "AppendContext_send i st = Some st'"
    show "content D M st'"
    proof (cases "pl_closed st")
      case True
      then show ?thesis using send crash_content [OF inv] by (auto simp: AppendContext_send_def split: if_splits)
    next
      case False
      then have "M (am_watcher (pl_sending st ! i)) = pl_sending st ! i"
        using assms(2) send by (auto simp: knows_def AppendContext_send_def split: if_splits)
      then show ?thesis
        by (intro content_front [OF inv])
          (use f False send in \<open>auto simp: AppendContext_send_def Let_def front_ok_def split: if_splits\<close>)
    qed
  next
    assume "AppendContext_giveup i st = Some st'"
    then show "content D M st'"
      using crash_content [OF inv] f
      by (auto simp: AppendContext_giveup_def budget_release_def outcome_simps emitInflightSnapshot_eq front_ok_def
          split: if_splits res.splits intro!: content_front [OF inv])
  }
qed

lemma close_content:
  assumes "content D M st"
  shows "content D M (st\<lparr>pl_closed := True\<rparr>)" and "content D M (st\<lparr>pl_shutdown := True\<rparr>)"
  by (rule content_front [OF assms]; use assms in \<open>simp add: content_def front_ok_def\<close>)+

text \<open>The rotator resolves watchers only with an error.\<close>

lemma emit_nil_result:
  assumes "emit try_acquire now reason ack rt p = Ok (out, rt', p')" and "producer_ok p"
    and "watcher_Result (p_watchers p' w) = (True, None)"
  shows "watcher_Result (p_watchers p w) = (True, None)"
proof -
  obtain e p1 where acq: "try_acquire p = (e, p1)" by fastforce
  have p1: "p_watchers p1 = p_watchers p" "producer_ok p1"
    using acq try_acquire_ok assms(2) unfolding acquire_ok_def
    by (auto simp: try_acquire_def split: prod.splits attempt_outcome.splits) (metis snd_conv)
  show ?thesis
  proof (cases e)
    case None
    then show ?thesis
      using assms acq p1
      by (auto simp: emit_def emit_pending_def budget_addReservation_def batch_reset_def Let_def outcome_simps emitInflightSnapshot_eq
          split: if_splits)
  next
    case (Some err)
    then show ?thesis
      using assms acq p1
      by (cases "batch_isEmpty (rt_batch rt)")
        (auto simp: emit_def emit_dropped_def budget_release_def watchers_resolve_def resolve_all_eq batch_reset_def Let_def
          outcome_simps emitInflightSnapshot_eq producer_ok_def resolved_def watcher_Result_def split: if_splits)
  qed
qed

lemma rotator_iter_nil_result:
  assumes "rotator_iter try_acquire now ev rt p = Ok (out, rt', p')" and "producer_ok p"
    and "watcher_Result (p_watchers p' w) = (True, None)"
  shows "watcher_Result (p_watchers p w) = (True, None)"
proof -
  obtain req rt1 p1 where sel: "rotator_select now ev rt p = (req, rt1, p1)" by (metis prod_cases3)
  note core = rotator_select_same_core [OF sel]
  have p1: "p_watchers p1 = p_watchers p" "producer_ok p1"
    using core same_core_ok [OF core] assms(2) by (simp_all add: same_core_def)
  show ?thesis
  proof (cases req)
    case None
    then show ?thesis using assms sel p1 by (simp add: rotator_iter_def)
  next
    case (Some r)
    then have "emit try_acquire now (fst r) (snd r) rt1 p1 = Ok (out, rt', p')"
      using assms sel by (simp add: rotator_iter_def split: prod.splits)
    from emit_nil_result [OF this p1(2) assms(3)] show ?thesis by (simp add: p1)
  qed
qed

text \<open>The batches the rotator hands out can be represented in the batch and manifest formats.\<close>

definition rotOut_fits :: "'s deployment \<Rightarrow> 's pipeline \<Rightarrow> bool" where
  "rotOut_fits D st \<longleftrightarrow> (\<forall>pb. pl_rotOut st = Some pb \<longrightarrow> length (pb_entries pb) \<le> MaxUint32 \<and>
     item_fits \<lparr>ei_Location = dp_location D (pb_ordinal pb), ei_Metadata = pb_metadata pb\<rparr>)"

lemma map_watchers: "\<forall>m \<in> set ms. M (am_watcher m) = m \<Longrightarrow> map M (map am_watcher ms) = ms"
  by (induction ms) auto

lemma watchers_map: "map am_watcher (map M ws) = ws \<Longrightarrow> \<forall>m \<in> set (map M ws). M (am_watcher m) = m"
  by (induction ws) auto

lemma holds_watchers: "holds ms b \<Longrightarrow> ba_watchers b = map am_watcher ms"
  by (simp add: holds_def)

lemma carries_pb_ok:
  assumes "carries pb g" and "\<forall>m \<in> set g. M (am_watcher m) = m" and "length (pb_entries pb) \<le> MaxUint32"
    and "item_fits \<lparr>ei_Location = dp_location D (pb_ordinal pb), ei_Metadata = pb_metadata pb\<rparr>"
  shows "pb_ok D M pb"
  using assms(1,3,4) map_watchers [OF assms(2)]
  by (simp add: pb_ok_def carries_def batch_entries_def batch_item_def del: map_map)

lemma rotator_step_content:
  assumes inv: "content D M st" and pinv: "pipeline_inv st" and ord: "rt_ordinal (pl_rot st) \<noteq> - 1"
    and step: "rotator_step cs now st = Some st'" and fits: "rotOut_fits D st'"
  shows "content D M st'"
proof -
  let ?b = "rt_batch (pl_rot st)"
  obtain ev ch where out: "pl_rotOut st = None" and recv: "rotator_receives cs now st = Some (ev, ch)"
    and step': "(case rotator_iter try_acquire now ev (pl_rot st) (pl_prod st) of
        Ok (out, rt, p) \<Rightarrow> Some (st\<lparr>pl_prod := p, pl_rot := rt, pl_appendCh := ch,
            pl_rotOut := (case out of Emitted pb \<Rightarrow> Some pb | _ \<Rightarrow> None), pl_rotExit := (cs = CaseClosed),
            pl_nextAck := (if cs = CaseFlush then pl_nextAck st + 1 else pl_nextAck st)\<rparr>)
      | _ \<Rightarrow> Some (crash st)) = Some st'"
    using step unfolding rotator_step_def by (cases "rotator_receives cs now st") (simp_all split: if_splits prod.splits)
  note ch = rotator_receives_split [OF recv]
  have f: "holds (map M (ba_watchers ?b)) ?b" "list_all nonempty (map M (ba_watchers ?b))"
    "\<forall>m \<in> set (received ev @ ch). M (am_watcher m) = m"
    using inv unfolding ch by (simp_all add: content_def front_ok_def)
  have ok: "producer_ok (pl_prod st)" using pinv by (simp add: pipeline_inv_def)
  have "list_all nonempty (received ev @ ch)"
    using pinv unfolding ch by (auto simp: pipeline_inv_def message_inv_def message_ok_def list_all_iff)
  then have ne: "list_all nonempty (map M (ba_watchers ?b) @ received ev)" using f(2) by simp
  from rotator_iter_carries [OF f(1) ne ok try_acquire_ok, of now] obtain out2 rt' p' g rest where
    it: "rotator_iter try_acquire now ev (pl_rot st) (pl_prod st) = Ok (out2, rt', p')"
    and split: "map M (ba_watchers ?b) @ received ev = g @ rest" and em: "emission_of g out2" and rest: "holds rest (rt_batch rt')"
    and ords: "map pb_ordinal (emitted [out2]) = (if rt_ordinal rt' = rt_ordinal (pl_rot st) then [] else [rt_ordinal (pl_rot st)])"
      "rt_ordinal rt' = rt_ordinal (pl_rot st) + of_nat (length (emitted [out2]))"
    by blast
  have st': "st' = st\<lparr>pl_prod := p', pl_rot := rt', pl_appendCh := ch,
            pl_rotOut := (case out2 of Emitted pb \<Rightarrow> Some pb | _ \<Rightarrow> None), pl_rotExit := (cs = CaseClosed),
            pl_nextAck := (if cs = CaseFlush then pl_nextAck st + 1 else pl_nextAck st)\<rparr>"
    using step' it by auto
  have "map am_watcher (map M (ba_watchers ?b)) = ba_watchers ?b" using f(1) by (simp add: holds_def)
  then have "\<forall>m \<in> set (map M (ba_watchers ?b)). M (am_watcher m) = m" by (rule watchers_map)
  then have all: "\<forall>m \<in> set (g @ rest). M (am_watcher m) = m" using f(3) unfolding split [symmetric] by auto
  have pl: "pl_store st' = pl_store st" "pl_encs st' = pl_encs st" "pl_upls st' = pl_upls st" "pl_comp st' = pl_comp st"
    "pl_cm st' = pl_cm st" "pl_cmOut st' = pl_cmOut st" "pl_res st' = pl_res st" by (simp_all add: st')
  have "list_all nonempty (g @ rest)" using ne split by simp
  then have front: "front_ok M st'"
    using rest all f(3) map_watchers [of rest M] by (simp add: front_ok_def st' holds_watchers [OF rest] del: map_map)
  have "settled st n \<Longrightarrow> settled st' n" for n
  proof -
    assume n: "settled st n"
    then have less: "n < rt_ordinal (pl_rot st)" "n \<noteq> rt_ordinal (pl_rot st)" by (auto simp: settled_def)
    have "rt_ordinal (pl_rot st) \<le> rt_ordinal rt'"
      using ords(2) inc_less_eq_iff [of "rt_ordinal (pl_rot st)" "rt_ordinal (pl_rot st) + 1"] ord less_imp_le
      by (cases out2) (auto simp: word_le_succ)
    then have "n < rt_ordinal rt'" using less(1) by (rule order.strict_trans2 [rotated])
    moreover have "set_mset (pending_ordinals st') \<subseteq> insert (rt_ordinal (pl_rot st)) (set_mset (pending_ordinals st))"
      using ords(1) out by (cases out2) (auto simp: pending_ordinals_def st' split: if_splits)
    ultimately show "settled st' n" using n less(2) by (auto simp: settled_def st')
  qed
  then have keep: "persists D st st'" using pl(1) by (auto simp: persists_def intro: exI [of _ "[]"])
  show ?thesis
  proof (rule content_step [OF inv keep front])
    show "\<forall>pb \<in> pbs st'. pb \<in> pbs st \<or> pb_ok D M pb"
    proof (intro ballI)
      fix pb assume "pb \<in> pbs st'"
      then consider "EncHas pb \<in> set (pl_encs st)" | "out2 = Emitted pb"
        by (auto simp: pbs_def st' split: emission.splits)
      then show "pb \<in> pbs st \<or> pb_ok D M pb"
      proof cases
        case 2
        then have "carries pb g" "pl_rotOut st' = Some pb" using em by (simp_all add: st')
        then show ?thesis using carries_pb_ok [of pb g M D] all fits by (simp add: rotOut_fits_def)
      qed (simp add: pbs_def)
    qed
    show "\<forall>w. nil_result st' w \<longrightarrow> nil_result st w \<or> delivered D M st' w"
      using rotator_iter_nil_result [OF it ok] by (simp add: nil_result_def st')
  qed (simp_all add: ebs_def ucs_def ris_def pl)
qed

text \<open>The workers.\<close>

lemma pending_upstream: "pending_ordinals st \<subseteq># upstream st"
proof -
  have "mset (upl_pending u) \<subseteq># mset (upl_ordinals u)" for u by (cases u) simp_all
  then have "mset (concat (map upl_pending us)) \<subseteq># mset (concat (map upl_ordinals us))" for us
    by (induction us) (simp_all add: subset_mset.add_mono)
  then show ?thesis
    unfolding pending_ordinals_def upstream_def by (simp add: subset_mset.add_mono subset_mset.add_increasing2)
qed

lemma set_update_cases: "x \<in> set (xs[i := y]) \<Longrightarrow> x \<in> set xs \<or> x = y"
  by (meson insertE set_update_subset_insert subsetD)

lemma encoder_take_content:
  assumes inv: "content D M st" and "encoder_take i st = Some st'"
  shows "content D M st'"
proof -
  obtain pb where i: "i < length (pl_encs st)" "pl_encs st ! i = EncIdle" and pb: "pl_rotOut st = Some pb"
    and st': "st' = st\<lparr>pl_rotOut := None, pl_encs := (pl_encs st)[i := EncHas pb]\<rparr>"
    using assms(2) by (auto simp: encoder_take_def split: if_splits option.splits encoder_state.splits)
  have "pending_ordinals st' = pending_ordinals st"
    using concat_update [OF i(1), of enc_ordinals "EncHas pb"] i pb by (simp add: pending_ordinals_def st')
  then have "persists D st st'" by (intro persists_quiet) (simp_all add: st')
  then show ?thesis
    by (rule content_step [OF inv])
      (use inv pb in \<open>auto simp: st' pbs_def ebs_def ucs_def ris_def nil_result_def content_def front_ok_def dest!: set_update_cases\<close>)
qed

lemma encoder_run_content:
  assumes inv: "content D M st" and run: "encoder_run (dp_zstd D) i now depth st = Some st'" and set: "dp_setup D S (pl_prod st)"
  shows "content D M st'"
proof -
  let ?p = "pl_prod st"
  obtain pb where i: "i < length (pl_encs st)" "pl_encs st ! i = EncHas pb"
    using run by (auto simp: encoder_run_def split: if_splits encoder_state.splits)
  have "pb \<in> pbs st" using i by (auto simp: pbs_def) (metis nth_mem)
  then have pb: "pb_ok D M pb" using inv by (simp add: content_def)
  have cfg: "p_config ?p = dp_config D" "p_runID ?p = dp_runID D" using set by (auto simp: setup_of_def)
  obtain x p' where x: "encoder_body (dp_zstd D) now depth pb ?p = Ok (x, p')" "p_watchers p' = p_watchers ?p"
    and out: "case x of Inl uc \<Rightarrow> same_batch pb (uc_eb uc) \<and> uc_encodeFailed uc \<and>
        EncodeBatch (dp_zstd D) (pb_entries pb) (cfg_BatchCompression (dp_config D)) = Err (the (uc_putError uc)) \<and>
        uc_putError uc \<noteq> None
      | Inr eb \<Rightarrow> same_batch pb eb \<and> eb_location eb = dp_location D (pb_ordinal pb) \<and>
          EncodeBatch (dp_zstd D) (pb_entries pb) (cfg_BatchCompression (dp_config D)) = Ok (eb_payload eb)"
    using encoder_body_cases [of "dp_zstd D" now depth pb ?p] unfolding cfg by blast
  let ?e = "case x of Inl uc \<Rightarrow> EncFailed uc | Inr eb \<Rightarrow> EncOut eb"
  have st': "st' = st\<lparr>pl_prod := p', pl_encs := (pl_encs st)[i := ?e]\<rparr>"
    using run i x(1) by (simp add: encoder_run_def split: sum.splits)
  have "enc_ordinals ?e = [pb_ordinal pb]" using out by (auto simp: same_batch_def ordinal_of_def split: sum.splits)
  then have "pending_ordinals st' = pending_ordinals st"
    using concat_update [OF i(1), of enc_ordinals ?e] i by (simp add: pending_ordinals_def st')
  then have keep: "persists D st st'" by (intro persists_quiet) (simp_all add: st')
  have eb: "eb_ok D M eb" if "x = Inr eb" for eb
    using that out pb by (simp add: eb_ok_def pb_ok_def same_batch_def encoded_def batch_item_def)
  show ?thesis
  proof (rule content_step [OF inv keep])
    show "\<forall>eb \<in> ebs st'. eb \<in> ebs st \<or> eb_ok D M eb"
      using eb by (auto simp: ebs_def st' split: sum.splits dest!: set_update_cases)
    show "\<forall>uc \<in> ucs st'. uc \<in> ucs st \<or> uc_ok D M st' uc"
      using out by (auto simp: ucs_def st' uc_ok_def split: sum.splits dest!: set_update_cases)
    show "\<forall>pb \<in> pbs st'. pb \<in> pbs st \<or> pb_ok D M pb"
      by (auto simp: pbs_def st' split: sum.splits dest!: set_update_cases)
  qed (use inv x(2) in \<open>auto simp: st' ris_def nil_result_def content_def front_ok_def\<close>)
qed

lemma encoder_fail_content:
  assumes inv: "content D M st" and "encoder_fail i st = Some st'"
  shows "content D M st'"
proof -
  obtain uc where i: "i < length (pl_encs st)" "pl_encs st ! i = EncFailed uc"
    and st': "st' = st\<lparr>pl_encs := (pl_encs st)[i := EncIdle], pl_comp := pl_comp st @ [uc]\<rparr>"
    using assms(2) by (auto simp: encoder_fail_def split: if_splits encoder_state.splits)
  have "uc \<in> ucs st" using i by (auto simp: ucs_def) (metis nth_mem)
  have "pending_ordinals st = add_mset (ordinal_of uc) (pending_ordinals st')"
    using concat_update [OF i(1), of enc_ordinals EncIdle] i by (simp add: pending_ordinals_def st')
  then have "persists D st st'" by (intro persists_quiet) (simp_all add: st' subset_insertI)
  then show ?thesis
    by (rule content_step [OF inv])
      (use inv \<open>uc \<in> ucs st\<close> in \<open>auto simp: st' pbs_def ebs_def ucs_def ris_def nil_result_def content_def front_ok_def
        dest!: set_update_cases\<close>)
qed

lemma uploader_take_content:
  assumes inv: "content D M st" and "uploader_take i j st = Some st'"
  shows "content D M st'"
proof -
  obtain eb where i: "i < length (pl_encs st)" "pl_encs st ! i = EncOut eb"
    and j: "j < length (pl_upls st)" "pl_upls st ! j = UplIdle"
    and st': "st' = st\<lparr>pl_encs := (pl_encs st)[i := EncIdle], pl_upls := (pl_upls st)[j := UplHas eb]\<rparr>"
    using assms(2) by (auto simp: uploader_take_def split: if_splits encoder_state.splits uploader_state.splits)
  have "eb \<in> ebs st" using i by (auto simp: ebs_def) (metis nth_mem)
  have "pending_ordinals st' = pending_ordinals st"
    using concat_update [OF i(1), of enc_ordinals EncIdle] concat_update [OF j(1), of upl_pending "UplHas eb"] i j
    by (simp add: pending_ordinals_def st')
  then have "persists D st st'" by (intro persists_quiet) (simp_all add: st')
  then show ?thesis
    by (rule content_step [OF inv])
      (use inv \<open>eb \<in> ebs st\<close> in \<open>auto simp: st' pbs_def ebs_def ucs_def ris_def nil_result_def content_def front_ok_def
        dest!: set_update_cases\<close>)
qed

lemma uploader_done_content:
  assumes inv: "content D M st" and "uploader_done j st = Some st'"
  shows "content D M st'"
proof -
  obtain uc where j: "j < length (pl_upls st)" "pl_upls st ! j = UplOut uc"
    and st': "st' = st\<lparr>pl_upls := (pl_upls st)[j := UplIdle], pl_comp := pl_comp st @ [uc]\<rparr>"
    using assms(2) by (auto simp: uploader_done_def split: if_splits uploader_state.splits)
  have "uc \<in> ucs st" using j by (auto simp: ucs_def) (metis nth_mem)
  have "pending_ordinals st' = pending_ordinals st"
    using concat_update [OF j(1), of upl_pending UplIdle] j by (simp add: pending_ordinals_def st')
  then have "persists D st st'" by (intro persists_quiet) (simp_all add: st')
  then show ?thesis
    by (rule content_step [OF inv])
      (use inv \<open>uc \<in> ucs st\<close> in \<open>auto simp: st' pbs_def ebs_def ucs_def ris_def nil_result_def content_def front_ok_def
        dest!: set_update_cases\<close>)
qed

text \<open>
  What is asked of a deployment: the store keeps the contract, the manifest is not one of the data
  objects, and the size of a commit group is a Go \<^verbatim>\<open>int\<close>.
\<close>

locale deployed = cas_store S "dp_objs D" for S :: "'s ObjectStore" and D :: "'s deployment" +
  assumes manifest_apart: "dp_location D n \<noteq> dp_manifest D"
    and group_bound: "cfg_ManifestAppendBatchSize (dp_config D) < 2 ^ 63"
begin

lemma dp_location_inject: "dp_location D m = dp_location D n \<Longrightarrow> m = n"
  using location_of_inject by blast

lemma friend_kept: "friend D f \<Longrightarrow> kept (dp_location D ` N) (dp_objs D s) (dp_objs D (f s))"
  by (rule kept_subset [of "range (dp_location D)"]) (auto simp: friend_def)

lemma uploader_run_content:
  assumes inv: "content D M st" and pinv: "pipeline_inv st" and set: "dp_setup D S (pl_prod st)"
    and run: "uploader_run env shut j depth st = Some st'" and env: "\<forall>a. friend D (env a)"
  shows "content D M st'"
proof -
  let ?o = "\<lambda>st. dp_objs D (pl_store st)"
  obtain eb where j: "j < length (pl_upls st)" "pl_upls st ! j = UplHas eb"
    using run by (auto simp: uploader_run_def split: if_splits uploader_state.splits)
  have "eb \<in> ebs st" using j by (auto simp: ebs_def) (metis nth_mem)
  then have eb: "eb_ok D M eb" using inv by (simp add: content_def)
  obtain uc p' s' where body: "uploader_body env shut depth eb (pl_prod st) (pl_store st) = Ok (uc, p', s')"
    using uploader_body_returns [of env shut depth eb "pl_prod st" "pl_store st"] by blast
  let ?p1 = "observe [OnWorkersBusy StageUpload (p_uploadWorkersBusy (pl_prod st) + 1)]
    ((pl_prod st)\<lparr>p_uploadWorkersBusy := p_uploadWorkersBusy (pl_prod st) + 1\<rparr>)"
  obtain p2 where put: "putWithRetry env shut eb ?p1 (pl_store st) = Ok (uc_putError uc, p2, s')"
    and uc: "uc_eb uc = eb\<lparr>eb_payload := []\<rparr>"
    using body by (auto simp: uploader_body_def Let_def outcome_simps)
  have loop: "put_loop env shut eb (nat (let n = cfg_UploadMaxAttempts (p_config ?p1) in if n < 1 then 1 else n)) 0 ?p1
      (pl_store st) = Ok (uc_putError uc, p2, s')" using put by (simp add: putWithRetry_def Let_def)
  have S: "p_store ?p1 = S" using set by (simp add: setup_of_def)
  have loc: "eb_location eb = dp_location D (eb_ordinal eb)" using eb by (simp add: eb_ok_def batch_item_def)
  have st': "st' = st\<lparr>pl_prod := p', pl_store := s', pl_upls := (pl_upls st)[j := UplOut uc]\<rparr>"
    using run j body by (simp add: uploader_run_def)
  have pend: "pending_ordinals st = add_mset (eb_ordinal eb) (pending_ordinals st')"
    using concat_update [OF j(1), of upl_pending "UplOut uc"] j by (simp add: pending_ordinals_def st')
  have "count (pending_ordinals st) (eb_ordinal eb) \<le> (if eb_ordinal eb < rt_ordinal (pl_rot st) then 1 else 0)"
    using mset_subset_eq_count [OF pending_upstream, of st "eb_ordinal eb"] pinv
    unfolding pipeline_inv_def ordinal_inv_def by (meson order_trans)
  then have new: "settled st' (eb_ordinal eb)"
    unfolding pend by (auto simp: settled_def st' not_in_iff split: if_splits)
  have old: "\<not> settled st (eb_ordinal eb)" using pend by (simp add: settled_def)
  have apart: "eb_location eb \<notin> dp_location D ` {n. settled st n}" using loc old dp_location_inject by auto
  have "kept (dp_location D ` {n. settled st n}) (?o st) (dp_objs D s')"
    by (rule put_loop_kept [OF loop S apart]) (use env friend_kept in simp)
  moreover have "settled st n \<Longrightarrow> settled st' n" for n using pend by (simp add: settled_def st')
  moreover have "\<exists>zs. queue_at (dp_objs D s') (dp_manifest D) (q_items (dp_queue D) (xs @ zs))"
    if "queue_at (?o st) (dp_manifest D) (q_items (dp_queue D) xs)" for xs
    by (rule put_loop_queue [OF loop S _ _ that]) (use env loc manifest_apart in \<open>auto simp: friend_def\<close>)
  ultimately have keep: "persists D st st'" by (simp add: persists_def st')
  have "uc_putError uc = None \<longrightarrow> (\<exists>v. dp_objs D s' (dp_location D (eb_ordinal eb)) = Some (eb_payload eb, v))"
    using put_loop_outcome [OF _ loop, of "dp_objs D"] S loc cas_store_axioms by simp
  then have "uc_ok D M st' uc"
    using eb new uc by (auto simp: uc_ok_def eb_ok_def stored_def ordinal_of_def group_items_def st')
  then show ?thesis
    using uploader_body_core [OF body] inv
    by (intro content_step [OF inv keep])
      (auto simp: st' pbs_def ebs_def ucs_def ris_def nil_result_def content_def front_ok_def same_core_def dest!: set_update_cases)
qed

lemma env_content:
  assumes inv: "content D M st" and "friend D f"
  shows "content D M (st\<lparr>pl_store := f (pl_store st)\<rparr>)"
proof -
  have "persists D st (st\<lparr>pl_store := f (pl_store st)\<rparr>)"
    unfolding persists_def
  proof (intro conjI allI impI)
    show "kept (dp_location D ` {n. settled st n}) (dp_objs D (pl_store st)) (dp_objs D (pl_store (st\<lparr>pl_store := f (pl_store st)\<rparr>)))"
      using friend_kept [OF assms(2)] by simp
    fix xs assume "queue_at (dp_objs D (pl_store st)) (dp_manifest D) (q_items (dp_queue D) xs)"
    then show "\<exists>zs. queue_at (dp_objs D (pl_store (st\<lparr>pl_store := f (pl_store st)\<rparr>))) (dp_manifest D) (q_items (dp_queue D) (xs @ zs))"
      using assms(2) by (simp add: friend_def queue_clients_def)
  qed (simp add: settled_def pending_ordinals_def)
  then show ?thesis
    by (rule content_step [OF inv])
      (use inv in \<open>auto simp: pbs_def ebs_def ucs_def ris_def nil_result_def content_def front_ok_def\<close>)
qed

end

text \<open>The committer.\<close>

lemma committer_receive_content:
  assumes inv: "content D M st" and recv: "committer_receive st = Some st'"
  shows "content D M st'"
proof -
  obtain uc ch where idle: "pl_cmOut st = []" and comp: "pl_comp st = uc # ch"
    using recv by (auto simp: committer_receive_def split: if_splits list.splits)
  let ?cm = "fold put_ready (uc # ch) (pl_cm st)"
  have ran: "ran (cm_ready ?cm) \<subseteq> ran (cm_ready (pl_cm st)) \<union> set (uc # ch)"
    using fold_put_ready_all [of "\<lambda>uc'. uc' \<in> ran (cm_ready (pl_cm st)) \<union> set (uc # ch)" "uc # ch" "pl_cm st"]
    by (auto simp: list_all_iff)
  have cases: "pl_prod st' = pl_prod st \<and> pl_store st' = pl_store st \<and> pl_rot st' = pl_rot st \<and> pl_appendCh st' = pl_appendCh st \<and>
      pl_rotOut st' = pl_rotOut st \<and> pl_encs st' = pl_encs st \<and> pl_upls st' = pl_upls st \<and> pl_res st' = pl_res st \<and>
      set (pl_comp st') \<subseteq> set (pl_comp st) \<and>
      (ran (cm_ready (pl_cm st')) \<subseteq> ran (cm_ready (pl_cm st)) \<union> set (pl_comp st)) \<and> (\<forall>ri \<in> set (pl_cmOut st'). ri_err ri \<noteq> None)"
  proof (cases "cm_halted (pl_cm st)")
    case True
    then show ?thesis using recv idle comp by (auto simp: committer_receive_def resolve_item_def Let_def split: if_splits)
  next
    case False
    then show ?thesis using recv idle comp ran by (auto simp: committer_receive_def Let_def split: if_splits)
  qed
  then have "persists D st st'" by (intro persists_quiet) (simp_all add: pending_ordinals_def)
  moreover have "front_ok M st'" using cases inv by (simp add: content_def front_ok_def)
  ultimately show ?thesis
    by (rule content_step [OF inv]) (use cases in \<open>auto simp: pbs_def ebs_def ucs_def ris_def nil_result_def ri_ok_def\<close>)
qed

context deployed
begin

lemma drain_round_content:
  assumes rnd: "drain_round (casWithRetry env shut) order n cm p s = Some (Returned (prs, go), cm', p', s')"
    and set: "dp_setup D S p" and n: "n < 2 ^ 63" and env: "\<forall>a i. friend D (env a i)"
    and fits: "\<forall>uc \<in> ran (cm_ready cm). uc_putError uc = None \<longrightarrow> uc_fits uc"
    and at: "queue_at (dp_objs D s) (dp_manifest D) (q_items q xs)"
  shows "ran (cm_ready cm') \<subseteq> ran (cm_ready cm) \<and> kept (range (dp_location D)) (dp_objs D s) (dp_objs D s') \<and>
    (\<exists>zs. queue_at (dp_objs D s') (dp_manifest D) (q_items q (xs @ zs)) \<and>
      (\<forall>pr \<in> set prs. pr_err pr = None \<longrightarrow>
        pr_uc pr \<in> ran (cm_ready cm) \<and> uc_putError (pr_uc pr) = None \<and> set (group_items [pr_uc pr]) \<subseteq> set zs))"
proof -
  let ?path = "dp_manifest D" and ?objs = "dp_objs D" and ?P = "range (dp_location D)"
  obtain nx rd grp failed where col: "collect n (cm_next cm) (cm_ready cm) [] [] = (nx, rd, grp, failed)" by (metis prod_cases4)
  have cout: "(\<forall>uc \<in> ran rd. uc \<in> ran (cm_ready cm))"
    "list_all (\<lambda>uc. uc \<in> ran (cm_ready cm) \<and> uc_putError uc = None) grp" "list_all upload_failure failed" "length grp \<le> n"
    using collect_outcome [OF col, of "\<lambda>uc. uc \<in> ran (cm_ready cm)"] by auto
  have fail: "pr \<in> set failed \<Longrightarrow> pr_err pr \<noteq> None" for pr using cout(3) by (auto simp: list_all_iff upload_failure_def)
  show ?thesis
  proof (cases "grp = []")
    case True
    then have "prs = failed" "s' = s" "ran (cm_ready cm') \<subseteq> ran (cm_ready cm)"
      using rnd col cout(1) by (auto simp: drain_round_def Let_def commit_group_def split: if_splits)
    moreover have "\<forall>pr \<in> set failed. pr_err pr \<noteq> None" using fail by blast
    ultimately show ?thesis using at by (auto intro!: exI [of _ "[]"])
  next
    case False
    obtain casErr p1 s1 where grp: "commit_group (casWithRetry env shut) grp p s = Some (Returned casErr, p1, s1)"
      using rnd col False by (auto simp: drain_round_def Let_def split: option.splits run.splits)
    then obtain c p2 where cas: "casWithRetry env shut (group_items grp) p s = Some (Returned (c, casErr), p2, s1)"
      using False by (auto simp: commit_group_def Let_def split: option.splits run.splits)
    have mc: "manifest_clients S ?objs ?path env"
      using env by unfold_locales (auto simp: friend_def queue_clients_def)
    have fits': "list_all item_fits (group_items grp)"
      by (rule group_items_fits) (use cout(2) fits in \<open>auto simp: list_all_iff\<close>)
    have len: "length (group_items grp) < 2 ^ 63" using cout(4) n by (simp add: group_items_def)
    have me: "me_store (p_enqueuer p) = S" "me_manifestPath (p_enqueuer p) = ?path" using set by (auto simp: setup_of_def)
    from manifest_clients.casWithRetry_grows [OF mc cas me fits' len at] obtain zs where
      zs: "queue_at (?objs s1) ?path (q_items q (xs @ zs @ (if casErr = None then group_items grp else [])))" by blast
    have "?path \<notin> ?P" using manifest_apart by (metis imageE)
    then have kept: "kept ?P (?objs s) (?objs s1)"
      using cas_loop_kept [OF cas [unfolded casWithRetry_def Let_def] me(1)] me(2) env by (simp add: friend_def)
    have s': "s' = s1" "ran (cm_ready cm') \<subseteq> ran (cm_ready cm)"
      and prs: "\<forall>pr \<in> set prs. pr_err pr = None \<longrightarrow> casErr = None \<and> pr_uc pr \<in> set grp"
      using rnd col grp False cout(1) by (auto simp: drain_round_def Let_def enterHalted_def dest: fail split: if_splits)
    have mem: "set (group_items [uc]) \<subseteq> set (group_items grp)" if "uc \<in> set grp" for uc
      using that by (auto simp: group_items_def)
    let ?zs = "zs @ (if casErr = None then group_items grp else [])"
    have "pr_uc pr \<in> ran (cm_ready cm) \<and> uc_putError (pr_uc pr) = None \<and> set (group_items [pr_uc pr]) \<subseteq> set ?zs"
      if "pr \<in> set prs" "pr_err pr = None" for pr
    proof -
      have "pr_uc pr \<in> set grp" "casErr = None" using that prs by auto
      then show ?thesis using mem [of "pr_uc pr"] cout(2) by (auto simp: list_all_iff)
    qed
    then show ?thesis using s' kept zs by (metis append_assoc)
  qed
qed

end

context deployed
begin

lemma committer_drain_content:
  assumes inv: "content D M st" and dr: "committer_drain env shut order st = Some st'"
    and set: "dp_setup D S (pl_prod st)" and env: "\<forall>a i. friend D (env a i)"
  shows "content D M st'"
proof -
  let ?o = "dp_objs D (pl_store st)" and ?n = "batch_size (pl_prod st)"
  obtain w where idle: "pl_draining st = Some w" "pl_cmOut st = []"
    using dr by (auto simp: committer_drain_def split: option.splits list.splits)
  obtain r cm p s where
    rnd: "drain_round (casWithRetry env shut) order ?n (pl_cm st) (pl_prod st) (pl_store st) = Some (r, cm, p, s)"
    using dr idle by (auto simp: committer_drain_def split: option.splits)
  show ?thesis
  proof (cases r)
    case Panicked
    then have "st' = crash st" using dr idle rnd by (simp add: committer_drain_def)
    then show ?thesis using crash_content [OF inv] by simp
  next
    case (Returned x)
    then obtain prs go where r: "r = Returned (prs, go)" by (cases x) simp
    note rnd = rnd [unfolded r]
    have st': "pl_store st' = s \<and> ran (cm_ready (pl_cm st')) = ran (cm_ready cm) \<and> pl_cmOut st' = map resolve_item prs \<and>
        p_watchers (pl_prod st') = p_watchers p \<and> pl_rot st' = pl_rot st \<and> pl_appendCh st' = pl_appendCh st \<and>
        pl_rotOut st' = pl_rotOut st \<and> pl_encs st' = pl_encs st \<and> pl_upls st' = pl_upls st \<and> pl_comp st' = pl_comp st \<and>
        pl_res st' = pl_res st"
      using dr idle rnd by (auto simp: committer_drain_def Let_def split: if_splits)
    have "?n < 2 ^ 63" using group_bound set by (auto simp: batch_size_def Let_def setup_of_def)
    moreover have uc: "\<forall>uc \<in> ran (cm_ready (pl_cm st)). uc_ok D M st uc" using inv by (simp add: content_def ucs_def)
    then have "\<forall>uc \<in> ran (cm_ready (pl_cm st)). uc_putError uc = None \<longrightarrow> uc_fits uc"
      by (auto simp: uc_ok_def uc_fits_def)
    ultimately have rc: "ran (cm_ready cm) \<subseteq> ran (cm_ready (pl_cm st)) \<and> kept (range (dp_location D)) ?o (dp_objs D s) \<and>
      (\<exists>zs. queue_at (dp_objs D s) (dp_manifest D) (q_items (dp_queue D) (xs @ zs)) \<and>
        (\<forall>pr \<in> set prs. pr_err pr = None \<longrightarrow>
          pr_uc pr \<in> ran (cm_ready (pl_cm st)) \<and> uc_putError (pr_uc pr) = None \<and> set (group_items [pr_uc pr]) \<subseteq> set zs))"
      if "queue_at ?o (dp_manifest D) (q_items (dp_queue D) xs)" for xs
      using drain_round_content [OF rnd set _ env _ that] by simp
    obtain xs where xs: "queue_at ?o (dp_manifest D) (q_items (dp_queue D) xs)"
      using inv by (auto simp: content_def manifest_intact_def)
    have kept: "kept (dp_location D ` {n. settled st n}) ?o (dp_objs D s)"
      by (rule kept_subset [of "range (dp_location D)"]) (use rc [OF xs] in auto)
    have same: "settled st' n = settled st n" for n using st' by (simp add: settled_def pending_ordinals_def)
    have keep: "persists D st st'" unfolding persists_def same using kept rc st' by metis
    have ri: "ri_ok D M st' (resolve_item pr)" if "pr \<in> set prs" for pr
      unfolding ri_ok_def
    proof
      assume "ri_err (resolve_item pr) = None"
      then have "pr_err pr = None" by (simp add: resolve_item_def Let_def)
      with rc [OF xs] that obtain zs where zs: "queue_at (dp_objs D s) (dp_manifest D) (q_items (dp_queue D) (xs @ zs))"
        and in_ready: "pr_uc pr \<in> ran (cm_ready (pl_cm st))" "uc_putError (pr_uc pr) = None"
        and item: "set (group_items [pr_uc pr]) \<subseteq> set zs" by blast
      let ?ws = "eb_watchers (uc_eb (pr_uc pr))" and ?k = "ordinal_of (pr_uc pr)"
      have ok: "settled st ?k" "stored D M ?o ?ws ?k" "group_items [pr_uc pr] = [batch_item D M ?ws ?k]"
        using uc in_ready by (auto simp: uc_ok_def)
      have "batch_item D M ?ws ?k \<in> set (xs @ zs)" using item ok(3) by simp
      then have "listed D M (dp_objs D s) ?ws ?k" unfolding listed_def using zs by blast
      then have "durable D M (dp_objs D (pl_store st')) ?ws ?k"
        using stored_persists [OF keep ok(1,2)] st' by (simp add: durable_def)
      then show "\<exists>n. settled st' n \<and> durable D M (dp_objs D (pl_store st')) (ri_watchers (resolve_item pr)) n"
        using ok(1) same by (auto simp: resolve_item_def Let_def)
    qed
    have front: "front_ok M st'" using st' inv by (simp add: content_def front_ok_def)
    show ?thesis
    proof (rule content_step [OF inv keep front])
      show "\<forall>uc \<in> ucs st'. uc \<in> ucs st \<or> uc_ok D M st' uc" using st' rc [OF xs] by (auto simp: ucs_def)
      show "\<forall>ri \<in> ris st'. ri \<in> ris st \<or> ri_ok D M st' ri" using st' ri by (auto simp: ris_def)
    qed (use st' drain_round_core [OF rnd] in \<open>simp_all add: pbs_def ebs_def nil_result_def same_core_def\<close>)
  qed
qed

end

lemma resolver_take_content:
  assumes inv: "content D M st" and "resolver_take st = Some st'"
  shows "content D M st'"
proof -
  obtain ri ris where st: "pl_res st = None" "pl_cmOut st = ri # ris" and st': "st' = st\<lparr>pl_res := Some ri, pl_cmOut := ris\<rparr>"
    using assms(2) by (auto simp: resolver_take_def split: option.splits list.splits)
  have "persists D st st'" by (rule persists_quiet) (simp_all add: st' pending_ordinals_def)
  then show ?thesis
    by (rule content_step [OF inv]) (use inv st in \<open>auto simp: st' pbs_def ebs_def ucs_def ris_def nil_result_def content_def front_ok_def\<close>)
qed

lemma resolver_run_content:
  assumes inv: "content D M st" and pinv: "pipeline_inv st" and run: "resolver_run st = Some st'"
  shows "content D M st'"
proof -
  obtain ri where ri: "pl_res st = Some ri" using run by (auto simp: resolver_run_def split: option.splits)
  then have ri_ok: "ri_ok D M st ri" using inv by (simp add: content_def ris_def)
  have "producer_ok (pl_prod st)" using pinv by (simp add: pipeline_inv_def)
  from resolver_body_effect [OF this, of ri] obtain p' where body: "resolver_body ri (pl_prod st) = Ok p'"
    and ws: "p_watchers p' = (\<lambda>w. if w \<in> set (ri_watchers ri) then resolved (ri_err ri) (p_watchers (pl_prod st) w)
      else p_watchers (pl_prod st) w)" by blast
  have st': "st' = st\<lparr>pl_res := None, pl_prod := p'\<rparr>" using run ri body by (simp add: resolver_run_def)
  have keep: "persists D st st'" by (rule persists_quiet) (simp_all add: st' pending_ordinals_def)
  have same: "settled st' = settled st" by (rule ext) (simp add: st' settled_def pending_ordinals_def)
  show ?thesis
  proof (rule content_step [OF inv keep])
    show "\<forall>w. nil_result st' w \<longrightarrow> nil_result st w \<or> delivered D M st' w"
    proof (intro allI impI)
      fix w assume nil: "nil_result st' w"
      show "nil_result st w \<or> delivered D M st' w"
      proof (cases "nil_result st w")
        case False
        then have "w \<in> set (ri_watchers ri)" "ri_err ri = None"
          using nil unfolding nil_result_def st' by (auto simp: ws resolved_def watcher_Result_def split: if_splits)
        then show ?thesis using ri_ok unfolding ri_ok_def delivered_def same by (auto simp: st')
      qed simp
    qed
  qed (use inv in \<open>auto simp: st' pbs_def ebs_def ucs_def ris_def content_def front_ok_def\<close>)
qed

section \<open>Runs\<close>

fun all_states ::
  "('s pipeline \<Rightarrow> bool) \<Rightarrow> zstd_lib \<Rightarrow> (u64 set \<Rightarrow> u64 list) \<Rightarrow> 's action list \<Rightarrow> 's pipeline \<Rightarrow> bool" where
  "all_states P z order [] st \<longleftrightarrow> P st"
| "all_states P z order (a # as) st \<longleftrightarrow> P st \<and>
     (case exec z order a st of None \<Rightarrow> True | Some st' \<Rightarrow> all_states P z order as st')"

lemma all_states_first: "all_states P z order as st \<Longrightarrow> P st"
  by (cases as) simp_all

lemma all_states_append:
  "exec_all z order as st = Some st' \<Longrightarrow> all_states P z order (as @ bs) st \<Longrightarrow> all_states P z order bs st'"
  by (induction as arbitrary: st) (auto split: option.splits)

context deployed
begin

lemma exec_content:
  assumes inv: "content D M st" and "knows M st" and pinv: "pipeline_inv st" and ord: "rt_ordinal (pl_rot st) \<noteq> - 1"
    and set: "dp_setup D S (pl_prod st)" and ex: "exec (dp_zstd D) order a st = Some st'" and fr: "friendly D a"
    and fits: "rotOut_fits D st'"
  shows "content D M st'"
proof -
  have run: "exec_action (dp_zstd D) order a st = Some st'" using ex by (simp add: exec_def split: if_splits)
  show ?thesis
  proof (cases a)
    case (UploadA env shut j depth)
    then show ?thesis using uploader_run_content [OF inv pinv set, of env shut j depth st'] run fr by simp
  next
    case (DrainA env shut)
    then show ?thesis using committer_drain_content [OF inv _ set, of env shut order st'] run fr by simp
  next
    case (RotatorA cs now)
    then show ?thesis using rotator_step_content [OF inv pinv ord _ fits] run by simp
  next
    case (EncodeA i now depth)
    then show ?thesis using encoder_run_content [OF inv _ set] run by simp
  next
    case (EnvA f)
    then show ?thesis using env_content [OF inv] run fr by auto
  qed (use run in \<open>auto simp: Close_append_def Close_abort_def split: if_splits
      intro: AppendContext_content [OF inv assms(2)] encoder_take_content [OF inv] encoder_fail_content [OF inv]
        uploader_take_content [OF inv] uploader_done_content [OF inv] committer_receive_content [OF inv]
        resolver_take_content [OF inv] resolver_run_content [OF inv pinv] close_content [OF inv]\<close>)
qed

lemma exec_all_content:
  assumes "content D M st" and "sound S (dp_objs D) order (length acts) st" and "dp_setup D S (pl_prod st)"
    and "exec_all (dp_zstd D) order acts st = Some st'" and "list_all (friendly D) acts"
    and "all_states (knows M) (dp_zstd D) order acts st" and "all_states (rotOut_fits D) (dp_zstd D) order acts st"
  shows "content D M st'"
  using assms
proof (induction acts arbitrary: st)
  case (Cons a acts)
  obtain st1 where ex: "exec (dp_zstd D) order a st = Some st1" and rest: "exec_all (dp_zstd D) order acts st1 = Some st'"
    using Cons.prems(4) by (auto split: option.splits)
  have pinv: "pipeline_inv st" and ord: "rt_ordinal (pl_rot st) \<noteq> - 1"
    using Cons.prems(2) run_ok_ordinal [of S "dp_objs D" order "length acts" st] by (simp_all add: sound_def)
  have fits: "rotOut_fits D st1" and next1: "all_states (rotOut_fits D) (dp_zstd D) order acts st1"
      "all_states (knows M) (dp_zstd D) order acts st1" and "knows M st"
    using Cons.prems(6,7) ex all_states_first by auto
  have "content D M st1"
    by (rule exec_content [OF Cons.prems(1) \<open>knows M st\<close> pinv ord Cons.prems(3) ex _ fits]) (use Cons.prems(5) in simp)
  moreover have "sound S (dp_objs D) order (length acts) st1" using exec_sound [OF _ ex] Cons.prems(2) by simp
  moreover have "dp_setup D S (pl_prod st1)" using exec_grows [OF ex] Cons.prems(3) by (simp add: grows_def)
  ultimately show ?case using Cons.IH [OF _ _ _ rest] next1 Cons.prems(5) by simp
qed simp

lemma start_content:
  assumes "dp_config D = apply_defaults config" and "queue_at (dp_objs D s) (dp_manifest D) (dp_queue D)"
  shows "content D M (start S config (dp_runID D) s) \<and> dp_setup D S (pl_prod (start S config (dp_runID D) s))"
proof
  have "manifest_intact D (start S config (dp_runID D) s)"
    unfolding manifest_intact_def by (rule exI [of _ "[]"]) (use assms(2) in \<open>simp add: start_def Let_def\<close>)
  then show "content D M (start S config (dp_runID D) s)"
    by (auto simp: content_def front_ok_def pbs_def ebs_def ucs_def ris_def nil_result_def start_def Let_def rotator_start_def
        new_accumulator_def committer_start_def watcher_Result_def newDurabilityWatcher_def holds_def)
  show "dp_setup D S (pl_prod (start S config (dp_runID D) s))"
    using assms(1) by (simp add: start_def Let_def setup_of_def newManifestEnqueuer_def)
qed

end

text \<open>Every run has a function \<open>M\<close> that knows all its messages.\<close>

lemma budget_release_nextWatcher:
  "AppendContext_giveup i st = Some st' \<Longrightarrow> pl_nextWatcher st' = pl_nextWatcher st \<and> set (pl_sending st') \<subseteq> set (pl_sending st)"
  by (auto simp: AppendContext_giveup_def remove_at_def crash_def split: if_splits res.splits dest: in_set_takeD in_set_dropD)

lemma exec_sending:
  assumes "exec z order a st = Some st'"
  shows "pl_nextWatcher st \<le> pl_nextWatcher st' \<and>
    (\<forall>m \<in> set (pl_sending st'). m \<in> set (pl_sending st) \<or> am_watcher m = pl_nextWatcher st)"
proof -
  have run: "exec_action z order a st = Some st'" using assms by (simp add: exec_def split: if_splits)
  show ?thesis
  proof (cases a)
    case (RotatorA cs now)
    then have "rotator_step cs now st = Some st'" using run by simp
    then have "pl_nextWatcher st' = pl_nextWatcher st \<and> pl_sending st' = pl_sending st" unfolding rotator_step_def
      by (cases "rotator_receives cs now st") (auto simp: crash_def split: if_splits res.splits prod.splits)
    then show ?thesis by simp
  next
    case (DrainA env shut)
    then have "committer_drain env shut order st = Some st'" using run by simp
    then show ?thesis unfolding committer_drain_def crash_def Let_def
      by (auto split: option.splits list.splits run.splits if_splits)
  next
    case (ReserveA es md now)
    then show ?thesis using run
      by (auto simp: AppendContext_reserve_def Let_def split: if_splits prod.splits attempt_outcome.splits)
  next
    case (GiveupA i)
    then show ?thesis using run budget_release_nextWatcher by fastforce
  qed (use run in \<open>auto simp: AppendContext_send_def remove_at_def crash_def
    encoder_take_def encoder_run_def encoder_fail_def uploader_take_def uploader_run_def uploader_done_def
    committer_receive_def resolver_take_def resolver_run_def Close_append_def Close_abort_def Let_def
    split: if_splits option.splits list.splits res.splits sum.splits encoder_state.splits uploader_state.splits
    dest: in_set_takeD in_set_dropD\<close>)
qed

lemma sending_watchers:
  assumes "pipeline_inv st"
  shows "m \<in> set (pl_sending st) \<Longrightarrow> am_watcher m < pl_nextWatcher st"
    and "distinct (map am_watcher (pl_sending st))"
proof -
  have c: "count (mset (map am_watcher (pl_sending st))) w \<le> (if w < pl_nextWatcher st then 1 else 0)" for w
  proof -
    have "count (mset (map am_watcher (pl_sending st)) + accepted st) w \<le>
        (if w < pl_nextWatcher st \<and> \<not> w_done (p_watchers (pl_prod st) w) then 1 else 0)"
      using assms unfolding pipeline_inv_def watcher_inv_def by blast
    then show ?thesis by (simp split: if_splits)
  qed
  show "distinct (map am_watcher (pl_sending st))"
    using count_mset_distinct [of "map am_watcher (pl_sending st)" "accepted st"
        "\<lambda>w. w < pl_nextWatcher st \<and> \<not> w_done (p_watchers (pl_prod st) w)"] assms
    unfolding pipeline_inv_def watcher_inv_def by blast
  assume "m \<in> set (pl_sending st)"
  then have "am_watcher m \<in># mset (map am_watcher (pl_sending st))" by simp
  then have "0 < count (mset (map am_watcher (pl_sending st))) (am_watcher m)" by (simp only: count_greater_zero_iff)
  with c [of "am_watcher m"] show "am_watcher m < pl_nextWatcher st" by (simp split: if_splits del: count_greater_zero_iff)
qed

lemma knows_exists:
  assumes "sound store objs order (length acts) st" and "knows M st"
  shows "\<exists>M'. all_states (knows M') z order acts st \<and> (\<forall>w < pl_nextWatcher st. M' w = M w)"
  using assms
proof (induction acts arbitrary: st M)
  case (Cons a acts)
  have pinv: "pipeline_inv st" using Cons.prems(1) by (simp add: sound_def)
  show ?case
  proof (cases "exec z order a st")
    case (Some st1)
    note s1 = exec_sound [OF _ Some, of store objs "length acts"] and snd = exec_sending [OF Some]
    have s1: "sound store objs order (length acts) st1" using s1 Cons.prems(1) by simp
    then have pinv1: "pipeline_inv st1" by (simp add: sound_def)
    let ?w = "pl_nextWatcher st"
    define M1 where "M1 = (if \<exists>m \<in> set (pl_sending st1). am_watcher m = ?w
      then M(?w := SOME m. m \<in> set (pl_sending st1) \<and> am_watcher m = ?w) else M)"
    have old: "M1 w = M w" if "w < ?w" for w using that by (simp add: M1_def)
    have "knows M1 st1"
      unfolding knows_def
    proof
      fix m assume m: "m \<in> set (pl_sending st1)"
      show "M1 (am_watcher m) = m"
      proof (cases "am_watcher m = ?w")
        case True
        have "\<exists>m. m \<in> set (pl_sending st1) \<and> am_watcher m = ?w" using m True by blast
        from someI_ex [OF this] have "M1 ?w \<in> set (pl_sending st1)" "am_watcher (M1 ?w) = ?w"
          using m True by (auto simp: M1_def)
        then show ?thesis using m True sending_watchers(2) [OF pinv1] by (metis distinct_map inj_onD)
      next
        case False
        then have "m \<in> set (pl_sending st)" using snd m by blast
        then show ?thesis using old [OF sending_watchers(1) [OF pinv]] Cons.prems(2) by (auto simp: knows_def)
      qed
    qed
    from Cons.IH [OF s1 this] obtain M' where M': "all_states (knows M') z order acts st1" "\<forall>w < pl_nextWatcher st1. M' w = M1 w"
      by blast
    have agree: "M' w = M w" if "w < ?w" for w using M'(2) old [OF that] that snd by simp
    then have "knows M' st" using Cons.prems(2) sending_watchers(1) [OF pinv] by (auto simp: knows_def)
    then show ?thesis using M'(1) agree Some by auto
  qed (use Cons.prems(2) in auto)
qed auto

lemma metadata_slice:
  assumes "i < length msgs" and "length (concat (map am_entries msgs)) \<le> MaxUint32"
  shows "let md = message_metadata 0 msgs ! i in Payload md = am_metadata (msgs ! i) \<and>
    IngestionTimeMs md = am_ingestionTimeMs (msgs ! i) \<and>
    take (length (am_entries (msgs ! i))) (drop (unat (StartIndex md)) (concat (map am_entries msgs))) = am_entries (msgs ! i)"
proof -
  let ?n = "length (concat (take i (map am_entries msgs)))"
  have "?n < 2 ^ 32" using assms(2) concat_take_length [of i "map am_entries msgs"] by (simp add: MaxUint32_def)
  then have "unat (of_nat ?n :: u32) = ?n" by (simp add: unat_of_nat_lt)
  then show ?thesis
    using assms(1) concat_slice [of i "map am_entries msgs"] by (simp add: message_metadata_nth take_map Let_def)
qed

text \<open>A consumer that follows the manifest finds the message.\<close>

definition retrievable :: "'s deployment \<Rightarrow> objects \<Rightarrow> appendMessage \<Rightarrow> bool" where
  "retrievable D o1 m \<longleftrightarrow>
     (\<exists>xs item payload v recs md. queue_at o1 (dp_manifest D) (q_items (dp_queue D) xs) \<and> item \<in> set xs \<and>
        o1 (ei_Location item) = Some (payload, v) \<and> DecodeBatch (dp_zstd D) payload = Ok recs \<and> md \<in> set (ei_Metadata item) \<and>
        Payload md = am_metadata m \<and> IngestionTimeMs md = am_ingestionTimeMs m \<and>
        take (length (am_entries m)) (drop (unat (StartIndex md)) recs) = am_entries m)"

lemma durable_retrievable:
  assumes "zstd_roundtrip (dp_zstd D)" and "durable D M o1 ws n" and "w \<in> set ws"
  shows "retrievable D o1 (M w)"
proof -
  let ?msgs = "map M ws"
  obtain payload v xs where enc: "EncodeBatch (dp_zstd D) (concat (map am_entries ?msgs)) (cfg_BatchCompression (dp_config D)) = Ok payload"
      "length (concat (map am_entries ?msgs)) \<le> MaxUint32"
    and obj: "o1 (dp_location D n) = Some (payload, v)"
    and at: "queue_at o1 (dp_manifest D) (q_items (dp_queue D) xs)" "batch_item D M ws n \<in> set xs"
    using assms(2) unfolding durable_def stored_def listed_def encoded_def batch_entries_def by blast
  obtain i where i: "i < length ?msgs" "?msgs ! i = M w" using assms(3) by (metis in_set_conv_nth length_map nth_map)
  note dec = DecodeBatch_encoded [OF assms(1) enc]
  have "message_metadata 0 ?msgs ! i \<in> set (ei_Metadata (batch_item D M ws n))" using i(1) by (simp add: batch_item_def)
  moreover have "o1 (ei_Location (batch_item D M ws n)) = Some (payload, v)" using obj by (simp add: batch_item_def)
  ultimately show ?thesis
    using at dec metadata_slice [OF i(1) enc(2), unfolded i(2)] unfolding retrievable_def Let_def by blast
qed

section \<open>The durability guarantee\<close>

text \<open>The repository's in-memory store, from a bucket that is still empty.\<close>

definition fresh_deployment :: "zstd_lib \<Rightarrow> ProducerConfig \<Rightarrow> string \<Rightarrow> InMemory deployment" where
  "fresh_deployment z config runID = \<lparr>dp_zstd = z, dp_objs = InMemory_objects, dp_config = apply_defaults config,
     dp_runID = runID, dp_queue = q_empty\<rparr>"

lemma apply_defaults_paths:
  "cfg_DataPathPrefix (apply_defaults config) = cfg_DataPathPrefix config"
  "cfg_ManifestPath (apply_defaults config) = cfg_ManifestPath config"
  "cfg_ManifestAppendBatchSize (apply_defaults config) = cfg_ManifestAppendBatchSize config"
  by (simp_all add: apply_defaults_def Let_def)

lemma deployed_InMemory:
  assumes "\<forall>r name. cfg_ManifestPath config \<noteq> cfg_DataPathPrefix config @ ''/'' @ r @ ''/'' @ name"
    and "cfg_ManifestAppendBatchSize config < 2 ^ 63"
  shows "deployed InMemory_store (fresh_deployment z config runID)"
proof unfold_locales
  fix n show "dp_location (fresh_deployment z config runID) n \<noteq> dp_manifest (fresh_deployment z config runID)"
    using assms(1) [rule_format, of runID "hex16 n"]
    by (simp add: fresh_deployment_def location_of_def apply_defaults_paths)
qed (use assms(2) mem.cas_store_axioms in
  \<open>auto simp: fresh_deployment_def apply_defaults_paths cas_store_def\<close>)

interpretation mem_default: deployed InMemory_store "fresh_deployment z DefaultProducerConfig runID" for z runID
proof (rule deployed_InMemory)
  have "CHR ''/'' \<notin> set ''manifest''" by simp
  then show "\<forall>r name. cfg_ManifestPath DefaultProducerConfig \<noteq>
      cfg_DataPathPrefix DefaultProducerConfig @ ''/'' @ r @ ''/'' @ name"
    by (auto simp: config_defaults Cons_eq_append_conv)
qed (simp add: config_defaults)

lemma all_states_mono: "(\<And>st. P st \<Longrightarrow> Q st) \<Longrightarrow> all_states P z order as st \<Longrightarrow> all_states Q z order as st"
  by (induction as arbitrary: st) (auto split: option.splits)

lemma idle_friend: "friend D (\<lambda>s. s)"
proof -
  have "\<exists>zs. queue_at o1 p (q_items q zs)" if "queue_at o1 p q" for o1 p q
    by (rule exI [of _ "[]"]) (use that in \<open>simp add: q_items_def\<close>)
  then show ?thesis by (simp add: friend_def queue_clients_def)
qed

lemma nil_result_is_durable_lib:
  assumes "deployed S D" and "order_ok order" and "dp_config D = apply_defaults config"
    and "queue_at (dp_objs D s) (dp_manifest D) (dp_queue D)" and "zstd_roundtrip (dp_zstd D)"
    and "length acts + length acts' < 2 ^ 64 - 1"
    and "exec_all (dp_zstd D) order acts (start S config (dp_runID D) s) = Some st0" and "m \<in> set (pl_sending st0)"
    and "exec_all (dp_zstd D) order acts' st0 = Some st" and "nil_result st (am_watcher m)"
    and "list_all (friendly D) (acts @ acts')"
    and "all_states (rotOut_fits D) (dp_zstd D) order (acts @ acts') (start S config (dp_runID D) s)"
  shows "retrievable D (dp_objs D (pl_store st)) m"
proof -
  let ?st = "start S config (dp_runID D) s" and ?acts = "acts @ acts'"
  have cas: "cas_store S (dp_objs D)" using assms(1) by (simp add: deployed_def)
  have run: "exec_all (dp_zstd D) order ?acts ?st = Some st" using assms(7,9) by (auto simp: exec_all_append)
  have snd: "sound S (dp_objs D) order (length ?acts) ?st" using start_sound [OF assms(2) cas] assms(6) by simp
  have "knows M ?st" for M by (simp add: knows_def start_def Let_def)
  from knows_exists [OF snd this] obtain M where kn: "all_states (knows M) (dp_zstd D) order ?acts ?st" by blast
  then have M: "M (am_watcher m) = m"
    using all_states_first [OF all_states_append [OF assms(7) kn]] assms(8) by (simp add: knows_def)
  note c0 = deployed.start_content [OF assms(1,3,4), of M]
  have "content D M st"
    by (rule deployed.exec_all_content [OF assms(1) conjunct1 [OF c0] snd conjunct2 [OF c0] run assms(11) kn assms(12)])
  then have "delivered D M st (am_watcher m)" using assms(10) by (simp add: content_def)
  then show ?thesis using durable_retrievable [OF assms(5)] M by (metis delivered_def)
qed

text \<open>
  C1. Durability: if a call's watcher reports nil, the call's entries are in the bucket and every
  consumer of the manifest finds them.  The manifest is the one the producer found, extended by
  further entries; one of these names an object whose bytes decode to records that contain exactly the
  call's entries from the position its metadata gives, and that metadata carries the call's own
  payload and ingestion time.  It holds whatever the interleaving, the failures of the store, the
  retries and the other producers' appends, at the moment of the result and ever after.
\<close>

theorem nil_result_is_durable:
  assumes "deployed S D" and "order_ok order" and "dp_config D = apply_defaults config"
    and "queue_at (dp_objs D s) (dp_manifest D) (dp_queue D)" and "zstd_roundtrip (dp_zstd D)"
    and "length acts + length acts' < 2 ^ 64 - 1"
    and "exec_all (dp_zstd D) order acts (start S config (dp_runID D) s) = Some st0" and "m \<in> set (pl_sending st0)"
    and "exec_all (dp_zstd D) order acts' st0 = Some st" and "nil_result st (am_watcher m)"
    and "list_all (friendly D) (acts @ acts')"
    and "all_states (rotOut_fits D) (dp_zstd D) order (acts @ acts') (start S config (dp_runID D) s)"
  shows "retrievable D (dp_objs D (pl_store st)) m"
  by (rule nil_result_is_durable_lib [OF assms])


text \<open>The run of the sample message: accepted, flushed, delivered.\<close>

definition sample_fits :: "InMemory pipeline \<Rightarrow> bool" where
  "sample_fits st \<longleftrightarrow> (case pl_rotOut st of None \<Rightarrow> True | Some pb \<Rightarrow> pb_ordinal pb = 0 \<and> pb_entries pb = [[1, 2]] \<and>
     pb_metadata pb = [\<lparr>StartIndex = 0, IngestionTimeMs = 5, Payload = [9]\<rparr>])"

lemma sample_fits_run:
  "all_states sample_fits stored_zstd sorted_list_of_set (sample_append @ RotatorA CaseFlush 12 # sample_delivery) sample_start"
  by code_simp

abbreviation sample_message :: appendMessage where
  "sample_message \<equiv> \<lparr>am_entries = [[1, 2]], am_metadata = [9], am_ingestionTimeMs = 5, am_watcher = 0, am_byteCost = 3\<rparr>"

abbreviation sample_deployment :: "InMemory deployment" where
  "sample_deployment \<equiv> fresh_deployment stored_zstd DefaultProducerConfig ''run''"

lemma sample_fits_rotOut: "sample_fits st \<Longrightarrow> rotOut_fits sample_deployment st"
  by (auto simp: sample_fits_def rotOut_fits_def item_fits_def entry_fits_def entry_checked_def item_entry_def MaxUint32_def
      entry_body_def metadata_bytes_def location_of_def fresh_deployment_def apply_defaults_paths config_defaults
      split: option.splits)

theorem nil_result_is_durable_witness:
  "\<exists>st. exec_all stored_zstd sorted_list_of_set (sample_append @ RotatorA CaseFlush 12 # sample_delivery)
      (start InMemory_store DefaultProducerConfig ''run'' NewInMemory) = Some st \<and> nil_result st 0 \<and>
    retrievable sample_deployment (InMemory_objects (pl_store st)) sample_message"
proof -
  let ?ex = "exec_all stored_zstd sorted_list_of_set" and ?rest = "SendA 0 # RotatorA CaseFlush 12 # sample_delivery"
  obtain st0 where first: "exec stored_zstd sorted_list_of_set (ReserveA [[1, 2]] [9] 5) sample_start = Some st0"
    and snd: "pl_sending st0 = [sample_message]" by (rule sample_reserve)
  have acts: "sample_append @ RotatorA CaseFlush 12 # sample_delivery = [ReserveA [[1, 2]] [9] 5] @ ?rest"
    by (simp add: sample_append_def)
  from sample_run obtain st where run: "?ex (sample_append @ RotatorA CaseFlush 12 # sample_delivery) sample_start = Some st"
    and "watcher_Result (p_watchers (pl_prod st) 0) = (True, None)" by (auto simp del: exec_all.simps)
  then have nil: "nil_result st 0" by (simp add: nil_result_def)
  have "?ex ?rest st0 = Some st" using run first unfolding acts by simp
  moreover have "list_all (friendly sample_deployment) ([ReserveA [[1, 2]] [9] 5] @ ?rest)"
    by (simp add: sample_delivery_def idle_friend)
  moreover have "all_states (rotOut_fits sample_deployment) stored_zstd sorted_list_of_set ([ReserveA [[1, 2]] [9] 5] @ ?rest) sample_start"
    by (rule all_states_mono [OF sample_fits_rotOut sample_fits_run [unfolded acts]])
  moreover have "queue_at (InMemory_objects NewInMemory) (cfg_ManifestPath (apply_defaults DefaultProducerConfig)) q_empty"
    by (simp add: queue_at_def queue_fits_def q_empty_def NewInMemory_def InMemory_objects_def)
  ultimately have "retrievable sample_deployment (InMemory_objects (pl_store st)) sample_message"
    using nil_result_is_durable [OF mem_default.deployed_axioms [of stored_zstd "''run''"] sorted_order_ok, of DefaultProducerConfig NewInMemory
        "[ReserveA [[1, 2]] [9] 5]" ?rest st0 sample_message st] first snd nil stored_zstd_roundtrip
    by (simp add: fresh_deployment_def sample_start_def sample_delivery_def)
  then show ?thesis using run nil unfolding sample_start_def by blast
qed

end
