(* ===== verification/Calls.thy ===== *)
theory Calls
  imports Durability
begin

text \<open>
  The client calls of \<^verbatim>\<open>buffer/producer.go\<close> from entry to return: \<^verbatim>\<open>AppendContext\<close>,
  \<^verbatim>\<open>Append\<close>, \<^verbatim>\<open>AwaitDurable\<close>, \<^verbatim>\<open>Flush\<close> and \<^verbatim>\<open>Close\<close>.  A call blocks several times;
  the actions of every other goroutine and caller between its own are arguments, as is the case that
  each of its \<^verbatim>\<open>select\<close> statements takes.  A call that cannot go that way (a case that is not ready,
  a schedule that cannot happen) is \<open>None\<close>.
\<close>

section \<open>Append\<close>

text \<open>
  How an \<^verbatim>\<open>AppendContext\<close> that passed its checks ends: in the wait of \<^verbatim>\<open>reserveBytes\<close>, by its
  context or by the shutdown signal, or in its \<^verbatim>\<open>select\<close>, by sending, by its context, or because
  the rotator has exited.
\<close>

datatype append_fate = CanceledWaiting gerror | ShutdownWaiting | Sends | CanceledSending gerror | RotatorExited

fun index_of :: "('a \<Rightarrow> bool) \<Rightarrow> 'a list \<Rightarrow> nat option" where
  "index_of P [] = None"
| "index_of P (x # xs) = (if P x then Some 0 else map_option Suc (index_of P xs))"

definition AppendContext_select ::
  "zstd_lib \<Rightarrow> (u64 set \<Rightarrow> u64 list) \<Rightarrow> append_fate \<Rightarrow> nat \<Rightarrow> 's pipeline \<Rightarrow> (nat res \<times> 's pipeline) option" where
  "AppendContext_select z order fate w st =
     Option.bind (index_of (\<lambda>m. am_watcher m = w) (pl_sending st)) (\<lambda>i.
       case fate of
         Sends \<Rightarrow> map_option (\<lambda>st'. (if pl_panicked st' then Panic else Ok w, st')) (exec z order (SendA i) st)
       | CanceledSending err \<Rightarrow> map_option (Pair (Err err)) (exec z order (GiveupA i) st)
       | RotatorExited \<Rightarrow>
           if rotatorDone st then map_option (Pair (Err ErrShutdown)) (exec z order (GiveupA i) st) else None
       | _ \<Rightarrow> None)"

definition AppendContext ::
  "zstd_lib \<Rightarrow> (u64 set \<Rightarrow> u64 list) \<Rightarrow> 's action list \<Rightarrow> u64 \<Rightarrow> 's action list \<Rightarrow> append_fate \<Rightarrow>
     bytes list \<Rightarrow> bytes \<Rightarrow> 's pipeline \<Rightarrow> (nat res \<times> 's pipeline) option" where
  "AppendContext z order waits now blocks fate entries metadata st =
     (case AppendContext_check entries (pl_prod st) of
        Some err \<Rightarrow> Some (Err err, st)
      | None \<Rightarrow> Option.bind (exec_all z order waits st) (\<lambda>st.
          let waiting = \<not> can_reserve (appendByteCost entries metadata) (p_budget (pl_prod st)) in
          case fate of
            CanceledWaiting err \<Rightarrow> if waiting then Some (Err err, st) else None
          | ShutdownWaiting \<Rightarrow> if waiting \<and> pl_shutdown st then Some (Err ErrShutdown, st) else None
          | _ \<Rightarrow> if waiting then None
                 else Option.bind (exec z order (ReserveA entries metadata now) st) (\<lambda>st'.
                   Option.bind (exec_all z order blocks st') (AppendContext_select z order fate (pl_nextWatcher st)))))"

text \<open>\<^verbatim>\<open>Append\<close> passes the background context, which is never done.\<close>

definition Append ::
  "zstd_lib \<Rightarrow> (u64 set \<Rightarrow> u64 list) \<Rightarrow> 's action list \<Rightarrow> u64 \<Rightarrow> 's action list \<Rightarrow> append_fate \<Rightarrow>
     bytes list \<Rightarrow> bytes \<Rightarrow> 's pipeline \<Rightarrow> (nat res \<times> 's pipeline) option" where
  "Append z order waits now blocks fate entries metadata st =
     (case fate of CanceledWaiting _ \<Rightarrow> None | CanceledSending _ \<Rightarrow> None
      | _ \<Rightarrow> AppendContext z order waits now blocks fate entries metadata st)"

section \<open>AwaitDurable, Flush and Close\<close>

text \<open>A context that fired is the error it is done with.\<close>

definition AwaitDurable_call ::
  "zstd_lib \<Rightarrow> (u64 set \<Rightarrow> u64 list) \<Rightarrow> 's action list \<Rightarrow> gerror option \<Rightarrow> nat \<Rightarrow> 's pipeline \<Rightarrow>
     (gerror option \<times> 's pipeline) option" where
  "AwaitDurable_call z order waits ctx w st =
     Option.bind (exec_all z order waits st) (\<lambda>st.
       case ctx of
         Some err \<Rightarrow> Some (Some err, st)
       | None \<Rightarrow> let dw = p_watchers (pl_prod st) w in
           if w_closed dw then Some (w_result dw, st) else None)"

text \<open>
  \<open>FlushRefused\<close>: before the rotator took the request, the context fired (\<open>Some\<close>) or the rotator had
  exited (\<open>None\<close>).  \<open>FlushAnswered now waits r\<close>: it took it, and the call returns \<open>r\<close>;
  \<open>FlushCanceled\<close>: it took it, and the context fired.
\<close>

datatype 's flush_fate = FlushRefused "gerror option" | FlushAnswered int "'s action list" "gerror option"
  | FlushCanceled int "'s action list" gerror

definition Flush_request ::
  "zstd_lib \<Rightarrow> (u64 set \<Rightarrow> u64 list) \<Rightarrow> int \<Rightarrow> 's action list \<Rightarrow> 's pipeline \<Rightarrow> 's pipeline option" where
  "Flush_request z order now waits st =
     Option.bind (exec z order (RotatorA CaseFlush now) st) (exec_all z order waits)"

definition Flush ::
  "zstd_lib \<Rightarrow> (u64 set \<Rightarrow> u64 list) \<Rightarrow> 's action list \<Rightarrow> 's flush_fate \<Rightarrow> 's pipeline \<Rightarrow>
     (gerror option \<times> 's pipeline) option" where
  "Flush z order blocks fate st =
     Option.bind (exec_all z order blocks st) (\<lambda>st.
       case fate of
         FlushRefused (Some err) \<Rightarrow> Some (Some err, st)
       | FlushRefused None \<Rightarrow> if rotatorDone st then Some (Some ErrShutdown, st) else None
       | FlushCanceled now waits err \<Rightarrow> map_option (Pair (Some err)) (Flush_request z order now waits st)
       | FlushAnswered now waits r \<Rightarrow>
           Option.bind (Flush_request z order now waits st) (\<lambda>st'.
             if Flush_returns (pl_nextAck st) st' r then Some (r, st') else None))"

text \<open>
  \<^verbatim>\<open>Close\<close>: the flush, the close of \<^verbatim>\<open>appendCh\<close>, and the wait for the goroutines, which a context
  that fired cuts short.  A later call waits in \<^verbatim>\<open>closeOnce\<close> for the first to return, which it has
  when the goroutines are gone or the abort was signalled, and returns nil.
\<close>

definition Close ::
  "zstd_lib \<Rightarrow> (u64 set \<Rightarrow> u64 list) \<Rightarrow> 's action list \<Rightarrow> 's flush_fate \<Rightarrow> 's action list \<Rightarrow> gerror option \<Rightarrow>
     's pipeline \<Rightarrow> (gerror option \<times> 's pipeline) option" where
  "Close z order blocks fate waits ctx st =
     (if pl_closed st
      then Option.bind (exec_all z order waits st) (\<lambda>st.
        if resolverDone st \<or> pl_shutdown st then Some (None, st) else None)
      else Option.bind (Flush z order blocks fate st) (\<lambda>(flushErr, st).
        Option.bind (exec z order CloseA st) (\<lambda>st.
        Option.bind (exec_all z order waits st) (\<lambda>st.
          case ctx of
            Some err \<Rightarrow> map_option (Pair (Some err)) (exec z order AbortA st)
          | None \<Rightarrow> if resolverDone st then Some (flushErr, st) else None))))"

section \<open>Calls as runs\<close>

lemma index_of_Some: "index_of P xs = Some i \<Longrightarrow> i < length xs \<and> P (xs ! i)"
  by (induction xs arbitrary: i) (auto split: if_splits)

text \<open>A successful \<^verbatim>\<open>Append\<close> is a run in which its message was at its \<^verbatim>\<open>select\<close>.\<close>

lemma Append_run:
  assumes "Append z order waits now blocks fate entries metadata st = Some (Ok w, st')"
  obtains st2 i where "exec_all z order (waits @ [ReserveA entries metadata now] @ blocks @ [SendA i]) st = Some st'"
    "exec_all z order (waits @ [ReserveA entries metadata now]) st = Some st2"
    "\<lparr>am_entries = entries, am_metadata = metadata, am_ingestionTimeMs = now, am_watcher = w,
      am_byteCost = appendByteCost entries metadata\<rparr> \<in> set (pl_sending st2)" "fate = Sends"
proof -
  have ctx: "AppendContext z order waits now blocks fate entries metadata st = Some (Ok w, st')"
    using assms by (simp add: Append_def split: append_fate.splits)
  obtain st1 where chk: "AppendContext_check entries (pl_prod st) = None" and st1: "exec_all z order waits st = Some st1"
    using ctx by (auto simp: AppendContext_def split: option.splits bind_splits)
  have fate: "fate = Sends"
    using ctx chk st1 by (auto simp: AppendContext_def AppendContext_select_def Let_def bind_eq_Some_conv
        split: append_fate.splits if_splits)
  then obtain st2 st3 i where can: "can_reserve (appendByteCost entries metadata) (p_budget (pl_prod st1))"
    and st2: "exec z order (ReserveA entries metadata now) st1 = Some st2" and st3: "exec_all z order blocks st2 = Some st3"
    and st': "exec z order (SendA i) st3 = Some st'" and w: "w = pl_nextWatcher st1"
    using ctx chk st1 by (auto simp: AppendContext_def AppendContext_select_def Let_def bind_eq_Some_conv split: if_splits)
  have "\<lparr>am_entries = entries, am_metadata = metadata, am_ingestionTimeMs = now, am_watcher = w,
      am_byteCost = appendByteCost entries metadata\<rparr> \<in> set (pl_sending st2)"
    using st2 can w by (auto simp: exec_def AppendContext_reserve_def reserve_attempt_def Let_def split: if_splits)
  then show ?thesis using that [of i st2] st1 st2 st3 st' fate by (simp add: exec_all_append)
qed

end
