(* ===== verification/ExporterConfig.thy ===== *)
theory ExporterConfig
  imports Config
begin

text \<open>
  Configuration of the collector exporter (\<^verbatim>\<open>exporter/opendataexporter\<close>): \<^verbatim>\<open>config.go\<close>, the
  queue metadata of \<^verbatim>\<open>metadata.go\<close> and the defaults of \<^verbatim>\<open>factory.go\<close>.  The type \<open>'q\<close> is the
  collector's queue configuration, whose \<^verbatim>\<open>Validate\<close> and default value are arguments.
\<close>

section \<open>Formatting\<close>

text \<open>
  \<^verbatim>\<open>strings.ToLower\<close> on ASCII; other bytes stay.  No letter of the two compression names is the
  lower case of a character outside ASCII, so the comparisons are those of the full function.
\<close>

definition lower_char :: "char \<Rightarrow> char" where
  "lower_char c = (let n = of_char c :: nat in if 65 \<le> n \<and> n \<le> 90 then char_of (n + 32) else c)"

definition ToLower :: "string \<Rightarrow> string" where
  "ToLower s = map lower_char s"

text \<open>\<^verbatim>\<open>%q\<close> on ASCII text, with the escapes of \<^verbatim>\<open>strconv.Quote\<close>; bytes beyond ASCII are kept.\<close>

definition quote_char :: "char \<Rightarrow> string" where
  "quote_char c =
     (let n = of_char c :: nat; esc = (\<lambda>e. [CHR 0x5C, e]) in
      if n = 34 \<or> n = 92 then esc c
      else if n = 7 then esc CHR ''a'' else if n = 8 then esc CHR ''b'' else if n = 12 then esc CHR ''f''
      else if n = 10 then esc CHR ''n'' else if n = 13 then esc CHR ''r'' else if n = 9 then esc CHR ''t''
      else if n = 11 then esc CHR ''v''
      else if n < 32 \<or> n = 127 then [CHR 0x5C, CHR ''x'', hex_digit (n div 16), hex_digit (n mod 16)]
      else [c])"

definition quote :: "string \<Rightarrow> string" where
  "quote s = [CHR 0x22] @ concat (map quote_char s) @ [CHR 0x22]"

text \<open>\<^verbatim>\<open>time.Duration.String\<close>: fractions without trailing zeros.\<close>

fun dec_digits :: "nat \<Rightarrow> int \<Rightarrow> string" where
  "dec_digits 0 v = []"
| "dec_digits (Suc k) v = dec_digits k (v div 10) @ [digit (nat (v mod 10))]"

definition fmtFrac :: "nat \<Rightarrow> int \<Rightarrow> string" where
  "fmtFrac prec v =
     (let ds = rev (dropWhile (\<lambda>c. c = CHR ''0'') (rev (dec_digits prec v))) in if ds = [] then [] else CHR ''.'' # ds)"

definition Duration_String :: "int \<Rightarrow> string" where
  "Duration_String d =
     (let u = \<bar>d\<bar>;
          dec = (\<lambda>prec. show_int (u div 10 ^ prec) @ fmtFrac prec u);
          secs = u div 10 ^ 9; mins = secs div 60; hours = mins div 60;
          body = (if u < 10 ^ 3 then dec 0 @ ''ns''
                  else if u < 10 ^ 6 then dec 3 @ [CHR 0xC2, CHR 0xB5, CHR ''s'']
                  else if u < 10 ^ 9 then dec 6 @ ''ms''
                  else (if hours > 0 then show_int hours @ ''h'' else []) @
                       (if mins > 0 then show_int (mins mod 60) @ ''m'' else []) @
                       show_int (secs mod 60) @ fmtFrac 9 u @ ''s'')
      in if d = 0 then ''0s'' else if d < 0 then CHR ''-'' # body else body)"

section \<open>Queue metadata\<close>

definition MetadataVersion :: byte where "MetadataVersion = 1"
definition SignalTypeMetrics :: byte where "SignalTypeMetrics = 1"
definition SignalTypeLogs :: byte where "SignalTypeLogs = 2"
definition PayloadEncodingOTLP :: byte where "PayloadEncodingOTLP = 1"

definition EncodeMetadata :: "byte \<Rightarrow> byte \<Rightarrow> bytes" where
  "EncodeMetadata signalType encoding = [MetadataVersion, signalType, encoding, 0]"

section \<open>Configuration\<close>

definition objectStoreTypeS3 :: string where "objectStoreTypeS3 = ''s3''"
definition compressionNone :: string where "compressionNone = ''none''"
definition compressionZstd :: string where "compressionZstd = ''zstd''"
definition defaultFlushSizeMiB :: int where "defaultFlushSizeMiB = 1024 * 1024"

record ObjectStoreConfig =
  osc_Type :: string
  osc_Bucket :: string
  osc_Region :: string
  osc_Endpoint :: string

record 'q Config =
  xc_ObjectStore :: ObjectStoreConfig
  xc_DataPathPrefix :: string
  xc_ManifestPath :: string
  xc_FlushInterval :: int
  xc_FlushSizeBytes :: int
  xc_Compression :: string
  xc_UploadConcurrency :: int
  xc_EncodeConcurrency :: int
  xc_MaxInFlightBatches :: int
  xc_MaxInFlightBytes :: int
  xc_ManifestAppendBatchSize :: int
  xc_SendingQueue :: "'q option"
  xc_Timeout :: int

definition at_least_one :: "string \<Rightarrow> int \<Rightarrow> gerror" where
  "at_least_one knob n = OtherErr (knob @ '' must be at least 1 (got '' @ show_int n @ '')'')"

text \<open>\<open>None\<close> is the pointer \<^verbatim>\<open>nil\<close>.\<close>

definition Validate :: "('q \<Rightarrow> gerror option) \<Rightarrow> 'q Config option \<Rightarrow> gerror option" where
  "Validate queue_Validate cp =
     (case cp of None \<Rightarrow> Some (OtherErr ''config must not be nil'')
      | Some c \<Rightarrow>
       let store = xc_ObjectStore c in
       if osc_Type store = '''' then Some (OtherErr ''object_store.type is required'')
       else if osc_Type store \<noteq> objectStoreTypeS3
         then Some (OtherErr (''unsupported object_store.type '' @ quote (osc_Type store)))
       else if osc_Bucket store = '''' then Some (OtherErr ''object_store.bucket is required'')
       else if osc_Region store = '''' then Some (OtherErr ''object_store.region is required'')
       else if xc_DataPathPrefix c = '''' then Some (OtherErr ''data_path_prefix is required'')
       else if xc_ManifestPath c = '''' then Some (OtherErr ''manifest_path is required'')
       else if xc_FlushInterval c \<le> 0 then Some (OtherErr ''flush_interval must be greater than zero'')
       else if xc_FlushSizeBytes c \<le> 0 then Some (OtherErr ''flush_size_bytes must be greater than zero'')
       else if xc_UploadConcurrency c < 1 then Some (at_least_one ''upload_concurrency'' (xc_UploadConcurrency c))
       else if xc_EncodeConcurrency c < 1 then Some (at_least_one ''encode_concurrency'' (xc_EncodeConcurrency c))
       else if xc_MaxInFlightBatches c < 1 then Some (at_least_one ''max_inflight_batches'' (xc_MaxInFlightBatches c))
       else if xc_MaxInFlightBytes c < 1 then Some (at_least_one ''max_inflight_bytes'' (xc_MaxInFlightBytes c))
       else if xc_ManifestAppendBatchSize c < 1
         then Some (at_least_one ''manifest_append_batch_size'' (xc_ManifestAppendBatchSize c))
       else case Option.bind (xc_SendingQueue c) queue_Validate of
           Some err \<Rightarrow> Some (Prefixf ''sending_queue'' err)
         | None \<Rightarrow>
           if xc_Timeout c < 0
           then Some (OtherErr (''timeout must be >= 0 (got '' @ Duration_String (xc_Timeout c) @
                  ''); 0 inherits exporterhelper default''))
           else if ToLower (xc_Compression c) = compressionNone \<or> ToLower (xc_Compression c) = compressionZstd then None
           else Some (OtherErr (''unsupported compression '' @ quote (xc_Compression c))))"

definition compressionTypeFromString :: "string \<Rightarrow> CompressionType res" where
  "compressionTypeFromString v =
     (if ToLower v = compressionNone then Ok CompressionNone
      else if ToLower v = compressionZstd then Ok CompressionZstd
      else Err (OtherErr (''unsupported compression '' @ quote v)))"

section \<open>Factory defaults\<close>

definition defaultMetricsDataPathPrefix :: string where "defaultMetricsDataPathPrefix = ''ingest/otel/metrics/data''"
definition defaultMetricsManifestPath :: string where "defaultMetricsManifestPath = ''ingest/otel/metrics/manifest''"

definition createDefaultConfig :: "'q \<Rightarrow> 'q Config" where
  "createDefaultConfig NewDefaultQueueConfig =
     \<lparr>xc_ObjectStore = \<lparr>osc_Type = objectStoreTypeS3, osc_Bucket = '''', osc_Region = '''', osc_Endpoint = ''''\<rparr>,
      xc_DataPathPrefix = defaultMetricsDataPathPrefix, xc_ManifestPath = defaultMetricsManifestPath,
      xc_FlushInterval = 10 * Second, xc_FlushSizeBytes = defaultFlushSizeMiB, xc_Compression = compressionZstd,
      xc_UploadConcurrency = DefaultUploadConcurrency, xc_EncodeConcurrency = DefaultEncodeConcurrency,
      xc_MaxInFlightBatches = DefaultMaxInFlightBatches, xc_MaxInFlightBytes = DefaultMaxInFlightBytes,
      xc_ManifestAppendBatchSize = DefaultManifestAppendBatchSize,
      xc_SendingQueue = Some NewDefaultQueueConfig, xc_Timeout = 0\<rparr>"

end
