(* ===== verification/Telemetry.thy ===== *)
theory Telemetry
  imports ExporterConfig Complex_Main
begin

text \<open>
  The exporter's telemetry (\<^verbatim>\<open>exporter/opendataexporter/telemetry.go\<close>): the instruments it creates on a
  meter and the calls its hooks make on them and on the logger.  A meter is an argument; the type
  \<open>'i\<close> is that of its instruments.  A hook is the list of calls it makes, in order.  Durations are
  recorded by the code in seconds as floating-point numbers and here as the duration itself.
\<close>

section \<open>Instruments\<close>

datatype instrument_kind = Int64Counter | Int64UpDownCounter | Int64Histogram | Int64Gauge | Float64Histogram
  | Float64ObservableGauge

record instrument_options =
  io_unit :: string
  io_description :: string
  io_buckets :: "rat list"

type_synonym 'i meter = "instrument_kind \<Rightarrow> string \<Rightarrow> instrument_options \<Rightarrow> 'i res"

definition latencySecondsBuckets :: "rat list" where
  "latencySecondsBuckets = [1 / 1000, 5 / 1000, 1 / 100, 25 / 1000, 5 / 100, 1 / 10, 1 / 4, 1 / 2, 1, 5 / 2, 5, 10]"

definition smallIntegerCountBuckets :: "rat list" where
  "smallIntegerCountBuckets = [1, 2, 4, 8, 16, 32, 64, 128]"

abbreviation described :: "string \<Rightarrow> instrument_options" where
  "described d \<equiv> \<lparr>io_unit = '''', io_description = d, io_buckets = []\<rparr>"

abbreviation in_seconds :: "string \<Rightarrow> instrument_options" where
  "in_seconds d \<equiv> \<lparr>io_unit = ''s'', io_description = d, io_buckets = latencySecondsBuckets\<rparr>"

abbreviation small_counts :: "string \<Rightarrow> instrument_options" where
  "small_counts d \<equiv> \<lparr>io_unit = '''', io_description = d, io_buckets = smallIntegerCountBuckets\<rparr>"

text \<open>The fields of \<^verbatim>\<open>exporterTelemetry\<close>, in three groups that its constructor fills in turn.\<close>

record 'i request_instruments =
  requestsTotal :: 'i
  requestFailuresTotal :: 'i
  bytesMarshaledTotal :: 'i
  metricsReceivedTotal :: 'i
  dataPointsReceivedTotal :: 'i
  logRecordsReceivedTotal :: 'i
  marshalDuration :: 'i
  enqueueWaitDuration :: 'i
  durableWaitDuration :: 'i
  pendingInputs :: 'i

record 'i flush_instruments =
  flushesTotal :: 'i
  flushDuration :: 'i
  batchInputs :: 'i
  batchEntries :: 'i
  batchUncompressedBytes :: 'i
  batchAge :: 'i
  storePutDuration :: 'i
  storePayloadBytes :: 'i
  manifestEnqueueDuration :: 'i
  manifestConflictsTotal :: 'i
  manifestConflictsPerWrite :: 'i

record 'i pipeline_instruments =
  appendChBlockDuration :: 'i
  encodeWorkersBusy :: 'i
  uploadWorkersBusy :: 'i
  encodeDuration :: 'i
  uploadDuration :: 'i
  manifestAppendBatchSize :: 'i
  manifestAppendDuration :: 'i
  manifestAppendCasRetries :: 'i
  headOfLineBlockDuration :: 'i
  batchOutcomeTotal :: 'i
  haltedGauge :: 'i
  inflightBytesGauge :: 'i
  inflightBatchesGauge :: 'i
  queueDepthGauge :: 'i

text \<open>\<open>t_producer\<close> is the pointer read by the asynchronous gauge: which producer, if any.\<close>

record 'i exporterTelemetry =
  t_requests :: "'i request_instruments"
  t_flushes :: "'i flush_instruments"
  t_pipeline :: "'i pipeline_instruments"
  oldestUnflushedAge :: 'i
  t_producer :: "nat option"
  slowRequestThreshold :: int
  slowFlushThreshold :: int

record 'i componentTelemetrySettings =
  ts_meterProvider :: "'i meter option"

definition setProducer :: "nat option \<Rightarrow> 'i exporterTelemetry \<Rightarrow> 'i exporterTelemetry" where
  "setProducer p t = t\<lparr>t_producer := p\<rparr>"

section \<open>Construction\<close>

definition new_request_instruments :: "'i meter \<Rightarrow> 'i request_instruments res" where
  "new_request_instruments meter =
     obind (meter Int64Counter ''opendataexporter.requests_total''
       (described ''Number of export requests received by the OpenData exporter.'')) (\<lambda>requests.
     obind (meter Int64Counter ''opendataexporter.request_failures_total''
       (described ''Number of export requests that failed before becoming durable.'')) (\<lambda>failures.
     obind (meter Int64Counter ''opendataexporter.bytes_marshaled_total''
       (described ''Total OTLP payload bytes marshaled by the OpenData exporter.'')) (\<lambda>marshaled.
     obind (meter Int64Counter ''opendataexporter.metrics_received_total''
       (described ''Total metric descriptors received by the OpenData exporter.'')) (\<lambda>metrics.
     obind (meter Int64Counter ''opendataexporter.data_points_received_total''
       (described ''Total metric data points received by the OpenData exporter.'')) (\<lambda>points.
     obind (meter Int64Counter ''opendataexporter.log_records_received_total''
       (described ''Total log records received by the OpenData exporter.'')) (\<lambda>logs.
     obind (meter Float64Histogram ''opendataexporter.marshal_duration_seconds''
       (in_seconds ''Time spent marshaling OTLP metrics payloads.'')) (\<lambda>marshal.
     obind (meter Float64Histogram ''opendataexporter.enqueue_wait_duration_seconds''
       (in_seconds ''Time spent waiting to hand a payload to the buffer.'')) (\<lambda>enqueue.
     obind (meter Float64Histogram ''opendataexporter.durable_wait_duration_seconds''
       (in_seconds ''Time from request receipt until the payload is durably flushed.'')) (\<lambda>durable.
     obind (meter Int64UpDownCounter ''opendataexporter.pending_inputs''
       (described ''Number of accepted inputs not yet durably flushed.'')) (\<lambda>pending.
     Ok \<lparr>requestsTotal = requests, requestFailuresTotal = failures, bytesMarshaledTotal = marshaled,
         metricsReceivedTotal = metrics, dataPointsReceivedTotal = points, logRecordsReceivedTotal = logs,
         marshalDuration = marshal, enqueueWaitDuration = enqueue, durableWaitDuration = durable,
         pendingInputs = pending\<rparr>))))))))))"

definition new_flush_instruments :: "'i meter \<Rightarrow> 'i flush_instruments res" where
  "new_flush_instruments meter =
     obind (meter Int64Counter ''opendataexporter.flushes_total''
       (described ''Number of buffer flush attempts.'')) (\<lambda>flushes.
     obind (meter Float64Histogram ''opendataexporter.flush_duration_seconds''
       (in_seconds ''Time spent writing a batch to storage and enqueueing it in the manifest.'')) (\<lambda>duration.
     obind (meter Int64Histogram ''opendataexporter.batch_inputs''
       (described ''Number of accepted inputs contained in a flushed batch.'')) (\<lambda>inputs.
     obind (meter Int64Histogram ''opendataexporter.batch_entries''
       (described ''Number of encoded entries contained in a flushed batch.'')) (\<lambda>entries.
     obind (meter Int64Histogram ''opendataexporter.batch_uncompressed_bytes''
       (described ''Uncompressed bytes contained in a flushed batch before batch encoding.'')) (\<lambda>bytes.
     obind (meter Float64Histogram ''opendataexporter.batch_age_seconds''
       (in_seconds ''Age of a batch when it is flushed.'')) (\<lambda>age.
     obind (meter Float64Histogram ''opendataexporter.store_put_duration_seconds''
       (in_seconds ''Time spent writing batch objects to object storage.'')) (\<lambda>put.
     obind (meter Int64Histogram ''opendataexporter.store_payload_bytes''
       (described ''Compressed batch payload size written to object storage.'')) (\<lambda>payload.
     obind (meter Float64Histogram ''opendataexporter.manifest_enqueue_duration_seconds''
       (in_seconds ''Time spent appending a flushed batch to the queue manifest.'')) (\<lambda>enqueue.
     obind (meter Int64Counter ''opendataexporter.manifest_conflicts_total''
       (described ''Number of optimistic concurrency conflicts while updating the queue manifest.'')) (\<lambda>conflicts.
     obind (meter Int64Histogram ''opendataexporter.manifest_conflicts_per_write''
       (small_counts ''Number of optimistic concurrency conflicts encountered by each manifest write.'')) (\<lambda>per_write.
     Ok \<lparr>flushesTotal = flushes, flushDuration = duration, batchInputs = inputs, batchEntries = entries,
         batchUncompressedBytes = bytes, batchAge = age, storePutDuration = put, storePayloadBytes = payload,
         manifestEnqueueDuration = enqueue, manifestConflictsTotal = conflicts,
         manifestConflictsPerWrite = per_write\<rparr>)))))))))))"

definition new_pipeline_instruments :: "'i meter \<Rightarrow> 'i pipeline_instruments res" where
  "new_pipeline_instruments meter =
     obind (meter Float64Histogram ''buffer.producer.appendch_block_seconds''
       (in_seconds ''Time Append/AppendContext spent blocked on the appendCh send (zero in the common no-backpressure case).''))
       (\<lambda>block.
     obind (meter Int64Gauge ''buffer.producer.encode_workers_busy''
       (described ''Encoder workers currently encoding.'')) (\<lambda>encBusy.
     obind (meter Int64Gauge ''buffer.producer.upload_workers_busy''
       (described ''Uploader workers currently uploading.'')) (\<lambda>uplBusy.
     obind (meter Float64Histogram ''buffer.producer.encode_duration_seconds''
       (in_seconds ''Per-batch encode wall time.'')) (\<lambda>encode.
     obind (meter Float64Histogram ''buffer.producer.upload_duration_seconds''
       (in_seconds ''Per-batch object-PUT wall time (one sample per attempt).'')) (\<lambda>upload.
     obind (meter Int64Histogram ''buffer.producer.manifest_append_batch_size''
       (small_counts ''Ordinals coalesced into a single CAS round trip.'')) (\<lambda>size.
     obind (meter Float64Histogram ''buffer.producer.manifest_append_duration_seconds''
       (in_seconds ''Per-CAS manifest write wall time.'')) (\<lambda>append.
     obind (meter Int64Histogram ''buffer.producer.manifest_append_cas_retries''
       (small_counts ''CAS conflict count per manifest append (0 on first-attempt success).'')) (\<lambda>retries.
     obind (meter Float64Histogram ''buffer.producer.head_of_line_block_seconds''
       (in_seconds ''Time the manifest committer waited for the next-expected ordinal while later ordinals were already ready.''))
       (\<lambda>hol.
     obind (meter Int64Counter ''buffer.producer.batch_outcome''
       (described ''Per-batch terminal outcome count (one series per outcome attribute).'')) (\<lambda>outcome.
     obind (meter Int64Gauge ''buffer.producer.halted''
       (described ''1 when the producer has entered the halted state, 0 otherwise.'')) (\<lambda>halted.
     obind (meter Int64Gauge ''buffer.producer.inflight_bytes''
       (described ''Total encoded-payload bytes in-flight.'')) (\<lambda>bytes.
     obind (meter Int64Gauge ''buffer.producer.inflight_batches''
       (described ''Batches currently reserved against MaxInFlightBatches.'')) (\<lambda>batches.
     obind (meter Int64Gauge ''buffer.producer.queue_depth''
       (described ''Per-stage queue / inflight count (one series per stage attribute).'')) (\<lambda>depth.
     Ok \<lparr>appendChBlockDuration = block, encodeWorkersBusy = encBusy, uploadWorkersBusy = uplBusy,
         encodeDuration = encode, uploadDuration = upload, manifestAppendBatchSize = size,
         manifestAppendDuration = append, manifestAppendCasRetries = retries, headOfLineBlockDuration = hol,
         batchOutcomeTotal = outcome, haltedGauge = halted, inflightBytesGauge = bytes,
         inflightBatchesGauge = batches, queueDepthGauge = depth\<rparr>))))))))))))))"

definition slow_threshold :: "'q Config \<Rightarrow> int" where
  "slow_threshold cfg =
     (let threshold = 2 * xc_FlushInterval cfg in if threshold < 5 * Second then 5 * Second else threshold)"

text \<open>\<open>noop\<close> is the library's meter that does nothing, used when no provider is configured.\<close>

definition newExporterTelemetry ::
  "'i meter \<Rightarrow> 'i componentTelemetrySettings \<Rightarrow> 'q Config \<Rightarrow> 'i exporterTelemetry res" where
  "newExporterTelemetry noop settings cfg =
     (let meter = (case ts_meterProvider settings of None \<Rightarrow> noop | Some m \<Rightarrow> m) in
      obind (new_request_instruments meter) (\<lambda>rq.
      obind (new_flush_instruments meter) (\<lambda>fl.
      obind (new_pipeline_instruments meter) (\<lambda>pl.
      let threshold = slow_threshold cfg in
      obind (meter Float64ObservableGauge ''buffer.producer.oldest_unflushed_batch_age_seconds''
        \<lparr>io_unit = ''s'', io_description =
           ''Wall-clock age of the oldest record sitting in the producer's current batch accumulator. Drops to zero on rotation. Read this gauge to detect the 'rotator wedged on appendCh while records pile up' regime.'',
         io_buckets = []\<rparr>) (\<lambda>age.
      Ok \<lparr>t_requests = rq, t_flushes = fl, t_pipeline = pl, oldestUnflushedAge = age, t_producer = None,
          slowRequestThreshold = threshold, slowFlushThreshold = threshold\<rparr>)))))"

section \<open>Calls\<close>

datatype measurement = Int64 int | Seconds int

datatype log_level = LevelInfo | LevelWarn | LevelError

text \<open>\<open>FAny\<close> stands for a value that the logger renders by reflection.\<close>

datatype log_field = FString string | FInt int | FDuration int | FError gerror | FAny

type_synonym attributes = "(string \<times> string) list"

datatype 'i tcall =
    Add 'i int attributes
  | Record 'i measurement attributes
  | Log log_level string "(string \<times> log_field) list"

fun FlushReason_string :: "FlushReason \<Rightarrow> string" where
  "FlushReason_string FlushReasonSize = ''size''"
| "FlushReason_string FlushReasonTime = ''time''"
| "FlushReason_string FlushReasonManual = ''manual''"
| "FlushReason_string FlushReasonShutdown = ''shutdown''"

fun PipelineStage_string :: "PipelineStage \<Rightarrow> string" where
  "PipelineStage_string StageAppend = ''append''"
| "PipelineStage_string StageRotate = ''rotate''"
| "PipelineStage_string StageEncode = ''encode''"
| "PipelineStage_string StageUpload = ''upload''"
| "PipelineStage_string StageCommit = ''commit''"
| "PipelineStage_string StageResolve = ''resolve''"

fun BatchOutcome_string :: "BatchOutcome \<Rightarrow> string" where
  "BatchOutcome_string OutcomeCommitted = ''committed''"
| "BatchOutcome_string OutcomeEncodeFailed = ''encode_failed''"
| "BatchOutcome_string OutcomeUploadFailed = ''upload_failed''"
| "BatchOutcome_string OutcomeManifestFailed = ''manifest_failed''"
| "BatchOutcome_string OutcomeAbandoned = ''abandoned''"

definition resultAttr :: "gerror option \<Rightarrow> string \<times> string" where
  "resultAttr err = (''result'', if err \<noteq> None then ''error'' else ''success'')"

section \<open>Request recording\<close>

definition recordRequestStartMetrics :: "'i exporterTelemetry \<Rightarrow> int \<Rightarrow> int \<Rightarrow> 'i tcall list" where
  "recordRequestStartMetrics t metricCount dataPointCount =
     [Add (requestsTotal (t_requests t)) 1 [], Add (metricsReceivedTotal (t_requests t)) metricCount [],
      Add (dataPointsReceivedTotal (t_requests t)) dataPointCount []]"

definition recordRequestStartLogs :: "'i exporterTelemetry \<Rightarrow> int \<Rightarrow> 'i tcall list" where
  "recordRequestStartLogs t logRecordCount =
     [Add (requestsTotal (t_requests t)) 1 [], Add (logRecordsReceivedTotal (t_requests t)) logRecordCount []]"

definition recordMarshal :: "'i exporterTelemetry \<Rightarrow> int \<Rightarrow> int \<Rightarrow> 'i tcall list" where
  "recordMarshal t sizeBytes duration =
     [Add (bytesMarshaledTotal (t_requests t)) sizeBytes [], Record (marshalDuration (t_requests t)) (Seconds duration) []]"

definition recordEnqueueWait :: "'i exporterTelemetry \<Rightarrow> int \<Rightarrow> 'i tcall list" where
  "recordEnqueueWait t duration = [Record (enqueueWaitDuration (t_requests t)) (Seconds duration) []]"

definition recordDurableWaitMetrics ::
  "'i exporterTelemetry \<Rightarrow> int \<Rightarrow> gerror option \<Rightarrow> int \<Rightarrow> int \<Rightarrow> int \<Rightarrow> 'i tcall list" where
  "recordDurableWaitMetrics t duration err metricCount dataPointCount sizeBytes =
     Record (durableWaitDuration (t_requests t)) (Seconds duration) [resultAttr err] #
     (if err \<noteq> None then []
      else if duration \<ge> slowRequestThreshold t
      then [Log LevelWarn ''OpenData exporter request completed slowly''
              [(''signal'', FString ''metrics''), (''duration'', FDuration duration), (''metrics'', FInt metricCount),
               (''data_points'', FInt dataPointCount), (''payload_bytes'', FInt sizeBytes)]]
      else [])"

definition recordDurableWaitLogs ::
  "'i exporterTelemetry \<Rightarrow> int \<Rightarrow> gerror option \<Rightarrow> int \<Rightarrow> int \<Rightarrow> 'i tcall list" where
  "recordDurableWaitLogs t duration err logRecordCount sizeBytes =
     Record (durableWaitDuration (t_requests t)) (Seconds duration) [resultAttr err] #
     (if err \<noteq> None then []
      else if duration \<ge> slowRequestThreshold t
      then [Log LevelWarn ''OpenData exporter request completed slowly''
              [(''signal'', FString ''logs''), (''duration'', FDuration duration), (''log_records'', FInt logRecordCount),
               (''payload_bytes'', FInt sizeBytes)]]
      else [])"

definition recordFailure :: "'i exporterTelemetry \<Rightarrow> string \<Rightarrow> gerror \<Rightarrow> 'i tcall list" where
  "recordFailure t stage err =
     [Add (requestFailuresTotal (t_requests t)) 1 [(''stage'', stage)],
      Log LevelError ''OpenData exporter request failed'' [(''stage'', FString stage), (''error'', FError err)]]"

section \<open>Observer hooks\<close>

definition flush_fields :: "FlushReason \<Rightarrow> FlushStats \<Rightarrow> int \<Rightarrow> (string \<times> log_field) list" where
  "flush_fields reason stats duration =
     [(''reason'', FString (FlushReason_string reason)), (''inputs'', FInt (fs_Inputs stats)),
      (''entries'', FInt (fs_Entries stats)), (''uncompressed_bytes'', FInt (fs_UncompressedBytes stats)),
      (''age'', FDuration (fs_Age stats)), (''duration'', FDuration duration)]"

definition hook_OnAccepted :: "'i exporterTelemetry \<Rightarrow> 'i tcall list" where
  "hook_OnAccepted t = [Add (pendingInputs (t_requests t)) 1 []]"

definition hook_OnFlush ::
  "'i exporterTelemetry \<Rightarrow> FlushReason \<Rightarrow> FlushStats \<Rightarrow> int \<Rightarrow> gerror option \<Rightarrow> 'i tcall list" where
  "hook_OnFlush t reason stats duration err =
     (let attrs = [(''reason'', FlushReason_string reason), resultAttr err]; fl = t_flushes t in
      [Add (pendingInputs (t_requests t)) (- fs_Inputs stats) [], Add (flushesTotal fl) 1 attrs,
       Record (flushDuration fl) (Seconds duration) attrs, Record (batchInputs fl) (Int64 (fs_Inputs stats)) attrs,
       Record (batchEntries fl) (Int64 (fs_Entries stats)) attrs,
       Record (batchUncompressedBytes fl) (Int64 (fs_UncompressedBytes stats)) attrs,
       Record (batchAge fl) (Seconds (fs_Age stats)) attrs] @
      (case err of
         Some e \<Rightarrow> [Log LevelError ''OpenData exporter flush failed'' (flush_fields reason stats duration @ [(''error'', FError e)])]
       | None \<Rightarrow> if duration \<ge> slowFlushThreshold t
                 then [Log LevelWarn ''OpenData exporter flush completed slowly'' (flush_fields reason stats duration)] else []))"

definition hook_OnStorePut :: "'i exporterTelemetry \<Rightarrow> int \<Rightarrow> int \<Rightarrow> gerror option \<Rightarrow> 'i tcall list" where
  "hook_OnStorePut t sizeBytes duration err =
     [Record (storePutDuration (t_flushes t)) (Seconds duration) [resultAttr err],
      Record (storePayloadBytes (t_flushes t)) (Int64 sizeBytes) [resultAttr err]]"

definition hook_OnManifestEnqueue ::
  "'i exporterTelemetry \<Rightarrow> int \<Rightarrow> int \<Rightarrow> int \<Rightarrow> gerror option \<Rightarrow> 'i tcall list" where
  "hook_OnManifestEnqueue t entries duration conflicts err =
     (let fields = [(''entries'', FInt entries), (''conflicts'', FInt conflicts), (''duration'', FDuration duration)] in
      [Record (manifestEnqueueDuration (t_flushes t)) (Seconds duration) [resultAttr err],
       Record (manifestConflictsPerWrite (t_flushes t)) (Int64 conflicts) [resultAttr err]] @
      (if conflicts > 0 then [Add (manifestConflictsTotal (t_flushes t)) conflicts []] else []) @
      (if conflicts \<ge> 3
       then [Log LevelWarn ''OpenData exporter manifest update encountered repeated conflicts'' fields] else []) @
      (case err of None \<Rightarrow> []
       | Some e \<Rightarrow> [Log LevelError ''OpenData exporter manifest update failed'' (fields @ [(''error'', FError e)])]))"

definition hook_OnAppendChBlock :: "'i exporterTelemetry \<Rightarrow> int \<Rightarrow> 'i tcall list" where
  "hook_OnAppendChBlock t d = [Record (appendChBlockDuration (t_pipeline t)) (Seconds d) []]"

definition hook_OnWorkersBusy :: "'i exporterTelemetry \<Rightarrow> PipelineStage \<Rightarrow> int \<Rightarrow> 'i tcall list" where
  "hook_OnWorkersBusy t stage busy =
     (case stage of
        StageEncode \<Rightarrow> [Record (encodeWorkersBusy (t_pipeline t)) (Int64 busy) []]
      | StageUpload \<Rightarrow> [Record (uploadWorkersBusy (t_pipeline t)) (Int64 busy) []]
      | _ \<Rightarrow> [])"

definition hook_OnEncodeDuration :: "'i exporterTelemetry \<Rightarrow> int \<Rightarrow> gerror option \<Rightarrow> 'i tcall list" where
  "hook_OnEncodeDuration t d err = [Record (encodeDuration (t_pipeline t)) (Seconds d) [resultAttr err]]"

definition hook_OnUploadDuration :: "'i exporterTelemetry \<Rightarrow> int \<Rightarrow> int \<Rightarrow> gerror option \<Rightarrow> 'i tcall list" where
  "hook_OnUploadDuration t d sizeBytes err = [Record (uploadDuration (t_pipeline t)) (Seconds d) [resultAttr err]]"

definition hook_OnManifestAppendBatchSize :: "'i exporterTelemetry \<Rightarrow> int \<Rightarrow> 'i tcall list" where
  "hook_OnManifestAppendBatchSize t n = [Record (manifestAppendBatchSize (t_pipeline t)) (Int64 n) []]"

definition hook_OnManifestAppendDuration :: "'i exporterTelemetry \<Rightarrow> int \<Rightarrow> int \<Rightarrow> gerror option \<Rightarrow> 'i tcall list" where
  "hook_OnManifestAppendDuration t d conflicts err =
     [Record (manifestAppendDuration (t_pipeline t)) (Seconds d) [resultAttr err],
      Record (manifestAppendCasRetries (t_pipeline t)) (Int64 conflicts) [resultAttr err]]"

definition hook_OnHeadOfLineBlock :: "'i exporterTelemetry \<Rightarrow> int \<Rightarrow> 'i tcall list" where
  "hook_OnHeadOfLineBlock t d = [Record (headOfLineBlockDuration (t_pipeline t)) (Seconds d) []]"

definition hook_OnBatchOutcome :: "'i exporterTelemetry \<Rightarrow> BatchOutcome \<Rightarrow> 'i tcall list" where
  "hook_OnBatchOutcome t outcome =
     [Add (batchOutcomeTotal (t_pipeline t)) 1 [(''outcome'', BatchOutcome_string outcome)]]"

definition hook_OnHalted :: "'i exporterTelemetry \<Rightarrow> bool \<Rightarrow> 'i tcall list" where
  "hook_OnHalted t halted = [Record (haltedGauge (t_pipeline t)) (Int64 (if halted then 1 else 0)) []]"

definition hook_OnInflightBytes :: "'i exporterTelemetry \<Rightarrow> int \<Rightarrow> 'i tcall list" where
  "hook_OnInflightBytes t bytes = [Record (inflightBytesGauge (t_pipeline t)) (Int64 bytes) []]"

definition hook_OnInflightBatches :: "'i exporterTelemetry \<Rightarrow> int \<Rightarrow> 'i tcall list" where
  "hook_OnInflightBatches t batches = [Record (inflightBatchesGauge (t_pipeline t)) (Int64 batches) []]"

definition hook_OnQueueDepth :: "'i exporterTelemetry \<Rightarrow> PipelineStage \<Rightarrow> int \<Rightarrow> 'i tcall list" where
  "hook_OnQueueDepth t stage depth =
     [Record (queueDepthGauge (t_pipeline t)) (Int64 depth) [(''stage'', PipelineStage_string stage)]]"

text \<open>
  The hooks as the producer's observer: one call of the interface, with the duration it was given, if
  it has one.
\<close>

fun observer_calls :: "'i exporterTelemetry \<Rightarrow> int \<Rightarrow> Observer \<Rightarrow> 'i tcall list" where
  "observer_calls t d OnAccepted = hook_OnAccepted t"
| "observer_calls t d (OnFlush reason stats err) = hook_OnFlush t reason stats d err"
| "observer_calls t d (OnStorePut sizeBytes err) = hook_OnStorePut t sizeBytes d err"
| "observer_calls t d (OnManifestEnqueue entries conflicts err) = hook_OnManifestEnqueue t entries d conflicts err"
| "observer_calls t d OnAppendChBlock = hook_OnAppendChBlock t d"
| "observer_calls t d (OnWorkersBusy stage busy) = hook_OnWorkersBusy t stage busy"
| "observer_calls t d (OnEncodeDuration err) = hook_OnEncodeDuration t d err"
| "observer_calls t d (OnUploadDuration sizeBytes err) = hook_OnUploadDuration t d sizeBytes err"
| "observer_calls t d (OnManifestAppendBatchSize n) = hook_OnManifestAppendBatchSize t n"
| "observer_calls t d (OnManifestAppendDuration conflicts err) = hook_OnManifestAppendDuration t d conflicts err"
| "observer_calls t d OnHeadOfLineBlock = hook_OnHeadOfLineBlock t d"
| "observer_calls t d (OnBatchOutcome outcome) = hook_OnBatchOutcome t outcome"
| "observer_calls t d (OnHalted halted) = hook_OnHalted t halted"
| "observer_calls t d (OnInflightBytes bytes) = hook_OnInflightBytes t bytes"
| "observer_calls t d (OnInflightBatches batches) = hook_OnInflightBatches t batches"
| "observer_calls t d (OnQueueDepth stage depth) = hook_OnQueueDepth t stage depth"

section \<open>Well-typed use of the instruments\<close>

text \<open>
  What the instruments accept: a counter only grows, an up-down counter takes any increment, integer
  and floating-point instruments take measurements of their kind.
\<close>

fun well_typed :: "('i \<Rightarrow> instrument_kind) \<Rightarrow> 'i tcall \<Rightarrow> bool" where
  "well_typed kind (Add i n attrs) \<longleftrightarrow> kind i = Int64Counter \<and> 0 \<le> n \<or> kind i = Int64UpDownCounter"
| "well_typed kind (Record i (Int64 n) attrs) \<longleftrightarrow> kind i = Int64Histogram \<or> kind i = Int64Gauge"
| "well_typed kind (Record i (Seconds d) attrs) \<longleftrightarrow> kind i = Float64Histogram"
| "well_typed kind (Log level msg fs) \<longleftrightarrow> True"

text \<open>A meter returns instruments of the kind it is asked for, and different ones for different names.\<close>

definition meter_ok :: "('i \<Rightarrow> instrument_kind) \<Rightarrow> ('i \<Rightarrow> string) \<Rightarrow> 'i meter \<Rightarrow> bool" where
  "meter_ok kind name meter \<longleftrightarrow> (\<forall>k n opts i. meter k n opts = Ok i \<longrightarrow> kind i = k \<and> name i = n)"

definition request_kinds :: "('i \<Rightarrow> instrument_kind) \<Rightarrow> 'i request_instruments \<Rightarrow> bool" where
  "request_kinds kind rq \<longleftrightarrow> kind (requestsTotal rq) = Int64Counter \<and> kind (requestFailuresTotal rq) = Int64Counter \<and>
     kind (bytesMarshaledTotal rq) = Int64Counter \<and> kind (metricsReceivedTotal rq) = Int64Counter \<and>
     kind (dataPointsReceivedTotal rq) = Int64Counter \<and> kind (logRecordsReceivedTotal rq) = Int64Counter \<and>
     kind (marshalDuration rq) = Float64Histogram \<and> kind (enqueueWaitDuration rq) = Float64Histogram \<and>
     kind (durableWaitDuration rq) = Float64Histogram \<and> kind (pendingInputs rq) = Int64UpDownCounter"

definition flush_kinds :: "('i \<Rightarrow> instrument_kind) \<Rightarrow> 'i flush_instruments \<Rightarrow> bool" where
  "flush_kinds kind fl \<longleftrightarrow> kind (flushesTotal fl) = Int64Counter \<and> kind (flushDuration fl) = Float64Histogram \<and>
     kind (batchInputs fl) = Int64Histogram \<and> kind (batchEntries fl) = Int64Histogram \<and>
     kind (batchUncompressedBytes fl) = Int64Histogram \<and> kind (batchAge fl) = Float64Histogram \<and>
     kind (storePutDuration fl) = Float64Histogram \<and> kind (storePayloadBytes fl) = Int64Histogram \<and>
     kind (manifestEnqueueDuration fl) = Float64Histogram \<and> kind (manifestConflictsTotal fl) = Int64Counter \<and>
     kind (manifestConflictsPerWrite fl) = Int64Histogram"

definition pipeline_kinds :: "('i \<Rightarrow> instrument_kind) \<Rightarrow> 'i pipeline_instruments \<Rightarrow> bool" where
  "pipeline_kinds kind pl \<longleftrightarrow> kind (appendChBlockDuration pl) = Float64Histogram \<and>
     kind (encodeWorkersBusy pl) = Int64Gauge \<and> kind (uploadWorkersBusy pl) = Int64Gauge \<and>
     kind (encodeDuration pl) = Float64Histogram \<and> kind (uploadDuration pl) = Float64Histogram \<and>
     kind (manifestAppendBatchSize pl) = Int64Histogram \<and> kind (manifestAppendDuration pl) = Float64Histogram \<and>
     kind (manifestAppendCasRetries pl) = Int64Histogram \<and> kind (headOfLineBlockDuration pl) = Float64Histogram \<and>
     kind (batchOutcomeTotal pl) = Int64Counter \<and> kind (haltedGauge pl) = Int64Gauge \<and>
     kind (inflightBytesGauge pl) = Int64Gauge \<and> kind (inflightBatchesGauge pl) = Int64Gauge \<and>
     kind (queueDepthGauge pl) = Int64Gauge"

lemma meter_ok_kind: "meter_ok kind name meter \<Longrightarrow> meter k n opts = Ok i \<Longrightarrow> kind i = k"
  unfolding meter_ok_def by blast

lemma obind_OkE: "obind x f = Ok b \<Longrightarrow> (\<And>a. x = Ok a \<Longrightarrow> f a = Ok b \<Longrightarrow> P) \<Longrightarrow> P"
  by (auto simp: obind_Ok_conv)

lemma new_request_kinds:
  assumes "meter_ok kind name meter" and "new_request_instruments meter = Ok x"
  shows "request_kinds kind x"
  using assms(2) unfolding new_request_instruments_def
  by (elim obind_OkE) (clarsimp simp: request_kinds_def dest!: meter_ok_kind [OF assms(1)])

lemma new_flush_kinds:
  assumes "meter_ok kind name meter" and "new_flush_instruments meter = Ok x"
  shows "flush_kinds kind x"
  using assms(2) unfolding new_flush_instruments_def
  by (elim obind_OkE) (clarsimp simp: flush_kinds_def dest!: meter_ok_kind [OF assms(1)])

lemma new_pipeline_kinds:
  assumes "meter_ok kind name meter" and "new_pipeline_instruments meter = Ok x"
  shows "pipeline_kinds kind x"
  using assms(2) unfolding new_pipeline_instruments_def
  by (elim obind_OkE) (clarsimp simp: pipeline_kinds_def dest!: meter_ok_kind [OF assms(1)])

lemma newExporterTelemetry_kinds:
  assumes "newExporterTelemetry noop settings cfg = Ok t" and "ts_meterProvider settings = Some meter"
    and "meter_ok kind name meter"
  shows "request_kinds kind (t_requests t) \<and> flush_kinds kind (t_flushes t) \<and> pipeline_kinds kind (t_pipeline t)"
  using assms new_request_kinds new_flush_kinds new_pipeline_kinds
  by (auto simp: newExporterTelemetry_def Let_def elim!: obind_OkE)

lemma meter_ok_name: "meter_ok kind name meter \<Longrightarrow> meter k n opts = Ok i \<Longrightarrow> name i = n"
  unfolding meter_ok_def by blast

text \<open>The counters of the request path are different instruments.\<close>

definition separate :: "'i request_instruments \<Rightarrow> bool" where
  "separate rq \<longleftrightarrow> distinct [requestsTotal rq, requestFailuresTotal rq, bytesMarshaledTotal rq, metricsReceivedTotal rq,
     dataPointsReceivedTotal rq, logRecordsReceivedTotal rq, pendingInputs rq]"

lemma new_request_separate:
  assumes "meter_ok kind name meter" and "new_request_instruments meter = Ok x"
  shows "separate x"
  using assms(2) unfolding new_request_instruments_def separate_def
  by (elim obind_OkE) (drule_tac meter_ok_name [OF assms(1)], force dest!: meter_ok_name [OF assms(1)])

lemma newExporterTelemetry_separate:
  assumes "newExporterTelemetry noop settings cfg = Ok t" and "ts_meterProvider settings = Some meter"
    and "meter_ok kind name meter"
  shows "separate (t_requests t)"
  using assms new_request_separate by (auto simp: newExporterTelemetry_def Let_def elim!: obind_OkE)

text \<open>What a sequence of calls adds to a counter.\<close>

fun call_added :: "'i \<Rightarrow> 'i tcall \<Rightarrow> int" where
  "call_added i (Add j n attrs) = (if j = i then n else 0)"
| "call_added i (Record j m attrs) = 0"
| "call_added i (Log level msg fs) = 0"

definition added :: "'i \<Rightarrow> 'i tcall list \<Rightarrow> int" where
  "added i calls = sum_list (map (call_added i) calls)"

lemma added_simps [simp]:
  "added i [] = 0" "added i (c # cs) = call_added i c + added i cs" "added i (cs @ ds) = added i cs + added i ds"
  by (simp_all add: added_def)

section \<open>Properties\<close>

lemmas hook_defs = hook_OnAccepted_def hook_OnFlush_def hook_OnStorePut_def hook_OnManifestEnqueue_def
  hook_OnAppendChBlock_def hook_OnWorkersBusy_def hook_OnEncodeDuration_def hook_OnUploadDuration_def
  hook_OnManifestAppendBatchSize_def hook_OnManifestAppendDuration_def hook_OnHeadOfLineBlock_def
  hook_OnBatchOutcome_def hook_OnHalted_def hook_OnInflightBytes_def hook_OnInflightBatches_def hook_OnQueueDepth_def

lemmas record_defs = recordRequestStartMetrics_def recordRequestStartLogs_def recordMarshal_def recordEnqueueWait_def
  recordDurableWaitMetrics_def recordDurableWaitLogs_def recordFailure_def

lemma hooks_well_typed:
  assumes "request_kinds kind (t_requests t)" "flush_kinds kind (t_flushes t)" "pipeline_kinds kind (t_pipeline t)"
  shows "list_all (well_typed kind) (observer_calls t d ev)"
  using assms unfolding request_kinds_def flush_kinds_def pipeline_kinds_def
  by (cases ev) (simp_all add: hook_defs Let_def split: option.splits PipelineStage.splits)


text \<open>A meter whose instruments are their kinds and names.\<close>

definition naming_meter :: "(instrument_kind \<times> string) meter" where
  "naming_meter k n opts = Ok (k, n)"

lemma naming_meter_ok: "meter_ok fst snd naming_meter"
  by (simp add: meter_ok_def naming_meter_def)


end
