(* ===== verification/Exporter.thy ===== *)
theory Exporter
  imports Calls Telemetry
begin

text \<open>
  The collector exporter (\<^verbatim>\<open>exporter/opendataexporter/exporter.go\<close>, \<^verbatim>\<open>factory.go\<close>): it turns
  collector requests into appends to a producer and waits for their durability.  References to
  producers are numbers; a gateway is an exporter with the producers it has created and the calls made
  on its telemetry.  The SDK for S3, the collector's data model with its marshalers and the clock are
  arguments.
\<close>

section \<open>Construction\<close>

definition errExporterNotStarted :: gerror where
  "errExporterNotStarted = OtherErr ''opendata exporter not started''"

record ('s, 'i, 'q) openDataExporter =
  x_config :: "'q Config"
  x_signalType :: byte
  x_metadata :: bytes
  x_storeFactory :: "ObjectStoreConfig \<Rightarrow> 's ObjectStore res"
  x_telemetry :: "'i exporterTelemetry"
  x_metricsMarshaler :: bool
  x_logsMarshaler :: bool
  x_producer :: "nat option"

text \<open>The AWS library: loading a configuration for a region, and a client with an optional endpoint.\<close>

record ('a, 's) aws_lib =
  LoadDefaultConfig :: "string \<Rightarrow> 'a res"
  NewFromConfig :: "'a \<Rightarrow> string option \<Rightarrow> 's s3_client"

definition newObjectStore :: "('a, 's) aws_lib \<Rightarrow> ObjectStoreConfig \<Rightarrow> 's ObjectStore res" where
  "newObjectStore aws cfg =
     (if osc_Type cfg \<noteq> objectStoreTypeS3
      then Err (OtherErr (''unsupported object_store.type '' @ quote (osc_Type cfg)))
      else case LoadDefaultConfig aws (osc_Region cfg) of
          Err err \<Rightarrow> Err (Prefixf ''load aws config'' err)
        | Panic \<Rightarrow> Panic
        | Ok awsCfg \<Rightarrow>
            let client = NewFromConfig aws awsCfg (if osc_Endpoint cfg \<noteq> '''' then Some (osc_Endpoint cfg) else None)
            in Ok (S3_store client (osc_Bucket cfg)))"

definition newOpenDataExporterForSignalWithTelemetry ::
  "('a, 's) aws_lib \<Rightarrow> 'i meter \<Rightarrow> 'q Config \<Rightarrow> byte \<Rightarrow> 'i componentTelemetrySettings \<Rightarrow>
     ('s, 'i, 'q) openDataExporter res" where
  "newOpenDataExporterForSignalWithTelemetry aws noop cfg signalType telemetrySettings =
     (if signalType \<noteq> SignalTypeMetrics \<and> signalType \<noteq> SignalTypeLogs
      then Err (OtherErr (''unsupported signal type '' @ show_nat (unat signalType)))
      else obind (newExporterTelemetry noop telemetrySettings cfg) (\<lambda>telemetry.
        Ok \<lparr>x_config = cfg, x_signalType = signalType, x_metadata = EncodeMetadata signalType PayloadEncodingOTLP,
            x_storeFactory = newObjectStore aws, x_telemetry = telemetry,
            x_metricsMarshaler = (signalType = SignalTypeMetrics), x_logsMarshaler = (signalType = SignalTypeLogs),
            x_producer = None\<rparr>))"

definition newOpenDataExporterForSignal ::
  "('a, 's) aws_lib \<Rightarrow> 'i meter \<Rightarrow> 'q Config \<Rightarrow> byte \<Rightarrow> ('s, 'i, 'q) openDataExporter res" where
  "newOpenDataExporterForSignal aws noop cfg signalType =
     (case newOpenDataExporterForSignalWithTelemetry aws noop cfg signalType \<lparr>ts_meterProvider = None\<rparr> of
        Ok e \<Rightarrow> Ok e | _ \<Rightarrow> Panic)"

definition newOpenDataExporter ::
  "('a, 's) aws_lib \<Rightarrow> 'i meter \<Rightarrow> 'q Config \<Rightarrow> ('s, 'i, 'q) openDataExporter res" where
  "newOpenDataExporter aws noop cfg = newOpenDataExporterForSignal aws noop cfg SignalTypeMetrics"

definition signalLabel :: "byte \<Rightarrow> string" where
  "signalLabel signalType =
     (if signalType = SignalTypeMetrics then ''metrics''
      else if signalType = SignalTypeLogs then ''logs''
      else ''unknown('' @ show_nat (unat signalType) @ '')'')"

section \<open>Start and Shutdown\<close>

record ('s, 'i, 'q) gateway =
  gw_exporter :: "('s, 'i, 'q) openDataExporter"
  gw_producers :: "'s pipeline list"
  gw_calls :: "'i tcall list"

definition gateway_record :: "'i tcall list \<Rightarrow> ('s, 'i, 'q) gateway \<Rightarrow> ('s, 'i, 'q) gateway" where
  "gateway_record calls gw = gw\<lparr>gw_calls := gw_calls gw @ calls\<rparr>"

text \<open>The telemetry is attached as the observer.\<close>

definition exporter_producerConfig :: "'q Config \<Rightarrow> CompressionType \<Rightarrow> ProducerConfig" where
  "exporter_producerConfig config compression =
     DefaultProducerConfig\<lparr>cfg_DataPathPrefix := xc_DataPathPrefix config, cfg_ManifestPath := xc_ManifestPath config,
       cfg_FlushInterval := xc_FlushInterval config, cfg_FlushSizeBytes := xc_FlushSizeBytes config,
       cfg_UploadConcurrency := xc_UploadConcurrency config, cfg_EncodeConcurrency := xc_EncodeConcurrency config,
       cfg_MaxInFlightBatches := xc_MaxInFlightBatches config, cfg_MaxInFlightBytes := xc_MaxInFlightBytes config,
       cfg_ManifestAppendBatchSize := xc_ManifestAppendBatchSize config,
       cfg_BatchCompression := compression, cfg_Observer := True\<rparr>"

text \<open>Every error is returned before the exporter changes.  \<open>s\<close> is the bucket as the producer finds it.\<close>

definition Start ::
  "('q \<Rightarrow> gerror option) \<Rightarrow> string \<Rightarrow> 's \<Rightarrow> ('s, 'i, 'q) gateway \<Rightarrow> ('s, 'i, 'q) gateway res" where
  "Start queue_Validate runID s gw =
     (let e = gw_exporter gw; config = x_config e in
      case Validate queue_Validate (Some config) of
        Some err \<Rightarrow> Err err
      | None \<Rightarrow>
        if x_producer e \<noteq> None then Ok gw
        else obind (x_storeFactory e (xc_ObjectStore config)) (\<lambda>store.
          obind (compressionTypeFromString (xc_Compression config)) (\<lambda>compression.
          let r = length (gw_producers gw);
              p = start store (exporter_producerConfig config compression) runID s
          in Ok (gateway_record
               [Log LevelInfo ''Starting OpenData exporter''
                  [(''signal'', FString (signalLabel (x_signalType e))), (''config'', FAny)]]
               (gw\<lparr>gw_exporter := e\<lparr>x_producer := Some r, x_telemetry := setProducer (Some r) (x_telemetry e)\<rparr>,
                   gw_producers := gw_producers gw @ [p]\<rparr>)))))"

text \<open>What the asynchronous age gauge observes at a collection: nothing while it points at no producer.\<close>

definition age_callback :: "int \<Rightarrow> ('s, 'i, 'q) gateway \<Rightarrow> measurement list" where
  "age_callback now gw =
     (case t_producer (x_telemetry (gw_exporter gw)) of
        None \<Rightarrow> []
      | Some r \<Rightarrow> [Seconds (OldestUnflushedBatchAge now (pl_prod (gw_producers gw ! r)))])"

definition Shutdown ::
  "zstd_lib \<Rightarrow> (u64 set \<Rightarrow> u64 list) \<Rightarrow> 's action list \<Rightarrow> 's flush_fate \<Rightarrow> 's action list \<Rightarrow> gerror option \<Rightarrow>
     ('s, 'i, 'q) gateway \<Rightarrow> (gerror option \<times> ('s, 'i, 'q) gateway) option" where
  "Shutdown z order blocks fate waits ctx gw =
     (let e = gw_exporter gw in
      case x_producer e of
        None \<Rightarrow> Some (None, gw)
      | Some r \<Rightarrow>
          let gw = gw\<lparr>gw_exporter := e\<lparr>x_producer := None, x_telemetry := setProducer None (x_telemetry e)\<rparr>\<rparr>
          in map_option (\<lambda>(err, p). (err, gw\<lparr>gw_producers := (gw_producers gw)[r := p]\<rparr>))
               (Close z order blocks fate waits ctx (gw_producers gw ! r)))"

section \<open>Requests\<close>

text \<open>The collector's data: metrics and logs, their sizes, their protobuf encoding, and the attributes of a resource.\<close>

record 'm pmetric_lib =
  MetricCount :: "'m \<Rightarrow> int"
  DataPointCount :: "'m \<Rightarrow> int"
  MarshalMetrics :: "'m \<Rightarrow> bytes res"

record 'l plog_lib =
  ResourceLogs_Len :: "'l \<Rightarrow> nat"
  Attributes_PutInt :: "nat \<Rightarrow> string \<Rightarrow> int \<Rightarrow> 'l \<Rightarrow> 'l"
  LogRecordCount :: "'l \<Rightarrow> int"
  MarshalLogs :: "'l \<Rightarrow> bytes res"

text \<open>The instants a call reads from the clock.\<close>

record clock =
  ck_start :: int
  ck_stamp :: int
  ck_marshalStart :: int
  ck_marshaled :: int
  ck_enqueueStart :: int
  ck_enqueued :: int
  ck_finished :: int

text \<open>What the others do while a call blocks, and how its waits end.\<close>

record 's schedule =
  sch_waits :: "'s action list"
  sch_now :: u64
  sch_blocks :: "'s action list"
  sch_fate :: append_fate
  sch_awaits :: "'s action list"
  sch_ctx :: "gerror option"

definition set_producer :: "nat \<Rightarrow> 's pipeline \<Rightarrow> ('s, 'i, 'q) gateway \<Rightarrow> ('s, 'i, 'q) gateway" where
  "set_producer r p gw = gw\<lparr>gw_producers := (gw_producers gw)[r := p]\<rparr>"

definition appendAndAwait ::
  "zstd_lib \<Rightarrow> (u64 set \<Rightarrow> u64 list) \<Rightarrow> clock \<Rightarrow> 's schedule \<Rightarrow> bytes \<Rightarrow> ('s, 'i, 'q) gateway \<Rightarrow>
     (unit res \<times> ('s, 'i, 'q) gateway) option" where
  "appendAndAwait z order ck sch payload gw =
     (let e = gw_exporter gw; t = x_telemetry e in
      case x_producer e of
        None \<Rightarrow> Some (Err errExporterNotStarted, gateway_record (recordFailure t ''start'' errExporterNotStarted) gw)
      | Some r \<Rightarrow>
        Option.bind (Append z order (sch_waits sch) (sch_now sch) (sch_blocks sch) (sch_fate sch) [payload]
            (x_metadata e) (gw_producers gw ! r)) (\<lambda>(handle, p).
          let gw = set_producer r p gw;
              gw' = gateway_record (recordEnqueueWait t (ck_enqueued ck - ck_enqueueStart ck)) gw in
          case handle of
            Panic \<Rightarrow> Some (Panic, gw)
          | Err err \<Rightarrow> Some (Err err, gateway_record (recordFailure t ''enqueue'' err) gw')
          | Ok w \<Rightarrow>
              map_option (\<lambda>(res, p).
                let gw' = set_producer r p gw' in
                case res of
                  None \<Rightarrow> (Ok (), gw')
                | Some err \<Rightarrow> (Err err, gateway_record (recordFailure t ''durable_wait'' err) gw'))
              (AwaitDurable_call z order (sch_awaits sch) (sch_ctx sch) w p)))"

fun err_of :: "unit res \<Rightarrow> gerror option" where
  "err_of (Err e) = Some e"
| "err_of _ = None"

definition ConsumeMetrics ::
  "'m pmetric_lib \<Rightarrow> zstd_lib \<Rightarrow> (u64 set \<Rightarrow> u64 list) \<Rightarrow> clock \<Rightarrow> 's schedule \<Rightarrow> 'm \<Rightarrow> ('s, 'i, 'q) gateway \<Rightarrow>
     (unit res \<times> ('s, 'i, 'q) gateway) option" where
  "ConsumeMetrics pm z order ck sch md gw =
     (let e = gw_exporter gw; t = x_telemetry e in
      if x_signalType e \<noteq> SignalTypeMetrics
      then Some (Err (OtherErr (''ConsumeMetrics called on '' @ signalLabel (x_signalType e) @ '' exporter'')), gw)
      else
        let metricCount = MetricCount pm md; dataPointCount = DataPointCount pm md;
            gw = gateway_record (recordRequestStartMetrics t metricCount dataPointCount) gw in
        case MarshalMetrics pm md of
          Err err \<Rightarrow> Some (Err err, gateway_record (recordFailure t ''marshal'' err) gw)
        | Panic \<Rightarrow> Some (Panic, gw)
        | Ok buf \<Rightarrow>
            let bufLen = int (length buf);
                gw = gateway_record (recordMarshal t bufLen (ck_marshaled ck - ck_marshalStart ck)) gw in
            map_option (\<lambda>(err, gw). if err = Panic then (Panic, gw)
                else (err, gateway_record (recordDurableWaitMetrics t (ck_finished ck - ck_start ck) (err_of err)
                             metricCount dataPointCount bufLen) gw))
              (appendAndAwait z order ck sch buf gw))"

definition gatewayReceivedAtAttrKey :: string where
  "gatewayReceivedAtAttrKey = ''_odb_gateway_received_at''"

text \<open>Stamping attributes does not change the number of resources that the loop runs over.\<close>

definition stampGatewayReceivedAt :: "'l plog_lib \<Rightarrow> 'l \<Rightarrow> int \<Rightarrow> 'l" where
  "stampGatewayReceivedAt pl ld stampUnixNano =
     fold (\<lambda>i. Attributes_PutInt pl i gatewayReceivedAtAttrKey stampUnixNano) [0..<ResourceLogs_Len pl ld] ld"

definition ConsumeLogs ::
  "'l plog_lib \<Rightarrow> zstd_lib \<Rightarrow> (u64 set \<Rightarrow> u64 list) \<Rightarrow> clock \<Rightarrow> 's schedule \<Rightarrow> 'l \<Rightarrow> ('s, 'i, 'q) gateway \<Rightarrow>
     (unit res \<times> ('s, 'i, 'q) gateway) option" where
  "ConsumeLogs pl z order ck sch ld gw =
     (let e = gw_exporter gw; t = x_telemetry e in
      if x_signalType e \<noteq> SignalTypeLogs
      then Some (Err (OtherErr (''ConsumeLogs called on '' @ signalLabel (x_signalType e) @ '' exporter'')), gw)
      else
        let ld = stampGatewayReceivedAt pl ld (ck_stamp ck); logRecordCount = LogRecordCount pl ld;
            gw = gateway_record (recordRequestStartLogs t logRecordCount) gw in
        case MarshalLogs pl ld of
          Err err \<Rightarrow> Some (Err err, gateway_record (recordFailure t ''marshal'' err) gw)
        | Panic \<Rightarrow> Some (Panic, gw)
        | Ok buf \<Rightarrow>
            let bufLen = int (length buf);
                gw = gateway_record (recordMarshal t bufLen (ck_marshaled ck - ck_marshalStart ck)) gw in
            map_option (\<lambda>(err, gw). if err = Panic then (Panic, gw)
                else (err, gateway_record (recordDurableWaitLogs t (ck_finished ck - ck_start ck) (err_of err)
                             logRecordCount bufLen) gw))
              (appendAndAwait z order ck sch buf gw))"

section \<open>Factory\<close>

definition Capabilities_MutatesData :: bool where
  "Capabilities_MutatesData = True"

datatype 'q helper_option = WithStart | WithShutdown | WithCapabilities bool | WithQueue "'q option" | WithTimeout int

definition timeoutOptions :: "'q Config \<Rightarrow> 'q helper_option list" where
  "timeoutOptions c = (if xc_Timeout c > 0 then [WithTimeout (xc_Timeout c)] else [])"

text \<open>\<open>NewMetrics\<close> is the collector's helper that wraps the exporter.\<close>

definition createMetricsExporter ::
  "('a, 's) aws_lib \<Rightarrow> 'i meter \<Rightarrow> (('s, 'i, 'q) openDataExporter \<Rightarrow> 'q helper_option list \<Rightarrow> 'x res) \<Rightarrow>
     'i componentTelemetrySettings \<Rightarrow> 'q Config \<Rightarrow> 'x res" where
  "createMetricsExporter aws noop NewMetrics settings c =
     obind (newOpenDataExporterForSignalWithTelemetry aws noop c SignalTypeMetrics settings) (\<lambda>inner.
       let opts = [WithStart, WithShutdown, WithCapabilities Capabilities_MutatesData, WithQueue (xc_SendingQueue c)]
       in NewMetrics inner (opts @ timeoutOptions c))"

section \<open>Validation\<close>

lemma Validate_accepts:
  "Validate queue_Validate (Some c) = None \<longleftrightarrow>
     osc_Type (xc_ObjectStore c) = objectStoreTypeS3 \<and> osc_Bucket (xc_ObjectStore c) \<noteq> '''' \<and>
     osc_Region (xc_ObjectStore c) \<noteq> '''' \<and> xc_DataPathPrefix c \<noteq> '''' \<and> xc_ManifestPath c \<noteq> '''' \<and>
     0 < xc_FlushInterval c \<and> 0 < xc_FlushSizeBytes c \<and> 1 \<le> xc_UploadConcurrency c \<and> 1 \<le> xc_EncodeConcurrency c \<and>
     1 \<le> xc_MaxInFlightBatches c \<and> 1 \<le> xc_MaxInFlightBytes c \<and> 1 \<le> xc_ManifestAppendBatchSize c \<and>
     Option.bind (xc_SendingQueue c) queue_Validate = None \<and> 0 \<le> xc_Timeout c \<and>
     (ToLower (xc_Compression c) = compressionNone \<or> ToLower (xc_Compression c) = compressionZstd)"
  unfolding Validate_def Let_def at_least_one_def
  by (simp add: objectStoreTypeS3_def not_le not_less split: option.splits)

lemma validated_compression:
  "Validate queue_Validate (Some c) = None \<Longrightarrow>
     \<exists>compression. compressionTypeFromString (xc_Compression c) = Ok compression \<and>
       (compression = CompressionNone \<or> compression = CompressionZstd)"
  by (auto simp: Validate_accepts compressionTypeFromString_def)

lemma exporter_producerConfig_sizes [simp]:
  "cfg_EncodeConcurrency (exporter_producerConfig c z) = xc_EncodeConcurrency c"
  "cfg_UploadConcurrency (exporter_producerConfig c z) = xc_UploadConcurrency c"
  "cfg_MaxInFlightBatches (exporter_producerConfig c z) = xc_MaxInFlightBatches c"
  "cfg_MaxInFlightBytes (exporter_producerConfig c z) = xc_MaxInFlightBytes c"
  by (simp_all add: exporter_producerConfig_def)

lemma exporter_producerConfig_ok:
  "Validate queue_Validate (Some c) = None \<Longrightarrow> config_ok (exporter_producerConfig c compression)"
  by (simp add: Validate_accepts config_ok_def exporter_producerConfig_def config_defaults Millisecond_def)


text \<open>The default configuration with a bucket and a region, and an AWS library over the counting client.\<close>

definition sample_config :: "unit Config" where
  "sample_config = (createDefaultConfig ())\<lparr>xc_ObjectStore :=
     \<lparr>osc_Type = objectStoreTypeS3, osc_Bucket = ''b'', osc_Region = ''r'', osc_Endpoint = ''''\<rparr>\<rparr>"

definition sample_aws :: "(unit, InMemory) aws_lib" where
  "sample_aws = \<lparr>LoadDefaultConfig = (\<lambda>_. Ok ()), NewFromConfig = (\<lambda>_ _. counter_client)\<rparr>"

lemma sample_config_valid: "Validate (\<lambda>_. None) (Some sample_config) = None"
  by (simp add: Validate_accepts sample_config_def createDefaultConfig_def objectStoreTypeS3_def config_defaults Second_def
      Millisecond_def defaultFlushSizeMiB_def defaultMetricsDataPathPrefix_def defaultMetricsManifestPath_def
      compressionNone_def compressionZstd_def ToLower_def lower_char_def)

lemma sample_exporter:
  obtains e where "newOpenDataExporterForSignalWithTelemetry sample_aws naming_meter sample_config SignalTypeMetrics
      \<lparr>ts_meterProvider = Some naming_meter\<rparr> = Ok e"
    "x_config e = sample_config" "x_producer e = None" "x_storeFactory e = newObjectStore sample_aws"
    "x_signalType e = SignalTypeMetrics" "x_metadata e = [1, 1, 1, 0]" "separate (t_requests (x_telemetry e))"
proof -
  have "\<exists>t. newExporterTelemetry naming_meter \<lparr>ts_meterProvider = Some naming_meter\<rparr> sample_config = Ok t"
    by (simp add: newExporterTelemetry_def new_request_instruments_def new_flush_instruments_def
        new_pipeline_instruments_def naming_meter_def Let_def)
  then obtain t where t: "newExporterTelemetry naming_meter \<lparr>ts_meterProvider = Some naming_meter\<rparr> sample_config = Ok t" by blast
  have "separate (t_requests t)" by (rule newExporterTelemetry_separate [OF t _ naming_meter_ok]) simp
  then show ?thesis
    using that t by (simp add: newOpenDataExporterForSignalWithTelemetry_def EncodeMetadata_def MetadataVersion_def
        SignalTypeMetrics_def PayloadEncodingOTLP_def)
qed

lemma sample_newObjectStore:
  "newObjectStore sample_aws (xc_ObjectStore sample_config) = Ok (S3_store counter_client ''b'')"
  by (simp add: newObjectStore_def sample_aws_def sample_config_def)


section \<open>Accounting of requests\<close>

lemma gateway_record_simps [simp]:
  "gw_calls (gateway_record calls gw) = gw_calls gw @ calls" "gw_exporter (gateway_record calls gw) = gw_exporter gw"
  "gw_producers (gateway_record calls gw) = gw_producers gw"
  by (simp_all add: gateway_record_def)

lemma set_producer_simps [simp]:
  "gw_calls (set_producer r p gw) = gw_calls gw" "gw_exporter (set_producer r p gw) = gw_exporter gw"
  "gw_producers (set_producer r p gw) = (gw_producers gw)[r := p]"
  by (simp_all add: set_producer_def)

lemma added_record [simp]:
  "added i (recordDurableWaitMetrics t d err m n b) = 0" "added i (recordDurableWaitLogs t d err m b) = 0"
  "added i (recordEnqueueWait t d) = 0"
  by (simp_all add: record_defs)

lemma gw_calls_split:
  "gw_calls gw' = gw_calls gw2 @ d \<Longrightarrow> gw_calls gw2 = gw_calls (gateway_record b (gateway_record a gw)) @ c \<Longrightarrow>
     gw_calls gw' = gw_calls gw @ (a @ b @ c @ d)"
  by simp

text \<open>A call adds to the failure counter if and only if it fails, and to no other counter of the path.\<close>

lemma appendAndAwait_calls:
  assumes "appendAndAwait z order ck sch buf gw = Some (r, gw')" and "r \<noteq> Panic"
    and "separate (t_requests (x_telemetry (gw_exporter gw)))"
  shows "\<exists>calls. gw_calls gw' = gw_calls gw @ calls \<and>
    (\<forall>i. added i calls = (if i = requestFailuresTotal (t_requests (x_telemetry (gw_exporter gw))) \<and> r \<noteq> Ok () then 1 else 0))"
proof (cases "x_producer (gw_exporter gw)")
  case None
  then show ?thesis using assms(1) by (auto simp: appendAndAwait_def Let_def recordFailure_def)
next
  case (Some i)
  obtain handle p where app: "Append z order (sch_waits sch) (sch_now sch) (sch_blocks sch) (sch_fate sch) [buf]
      (x_metadata (gw_exporter gw)) (gw_producers gw ! i) = Some (handle, p)"
    using assms(1) Some by (auto simp: appendAndAwait_def Let_def bind_eq_Some_conv)
  show ?thesis
  proof (cases handle)
    case (Ok w)
    then show ?thesis using assms(1) Some app
      by (auto simp: appendAndAwait_def Let_def recordFailure_def recordEnqueueWait_def split: option.splits)
  qed (use assms(1,2) Some app in \<open>auto simp: appendAndAwait_def Let_def recordFailure_def recordEnqueueWait_def\<close>)
qed

text \<open>
  C17. Every metrics request is counted once and every failed one once more: a call of
  \<^verbatim>\<open>ConsumeMetrics\<close> on a metrics exporter that returns adds one to the request counter, the sizes of
  the request to the received counters, the payload size to the marshaled bytes, and one to the failure
  counter exactly when it returns an error, whichever stage failed.
\<close>

theorem ConsumeMetrics_accounting:
  assumes "ConsumeMetrics pm z order ck sch md gw = Some (r, gw')" and "r \<noteq> Panic"
    and "x_signalType (gw_exporter gw) = SignalTypeMetrics" and "separate (t_requests (x_telemetry (gw_exporter gw)))"
  shows "\<exists>calls rq. gw_calls gw' = gw_calls gw @ calls \<and> rq = t_requests (x_telemetry (gw_exporter gw)) \<and>
    added (requestsTotal rq) calls = 1 \<and> added (requestFailuresTotal rq) calls = (if r = Ok () then 0 else 1) \<and>
    added (metricsReceivedTotal rq) calls = MetricCount pm md \<and> added (dataPointsReceivedTotal rq) calls = DataPointCount pm md \<and>
    added (bytesMarshaledTotal rq) calls = (case MarshalMetrics pm md of Ok buf \<Rightarrow> int (length buf) | _ \<Rightarrow> 0) \<and>
    added (logRecordsReceivedTotal rq) calls = 0"
proof (cases "MarshalMetrics pm md")
  case (Err err)
  then show ?thesis using assms by (auto simp: ConsumeMetrics_def Let_def record_defs separate_def)
next
  case (Ok buf)
  let ?t = "x_telemetry (gw_exporter gw)"
  let ?gw = "gateway_record (recordMarshal ?t (int (length buf)) (ck_marshaled ck - ck_marshalStart ck))
    (gateway_record (recordRequestStartMetrics ?t (MetricCount pm md) (DataPointCount pm md)) gw)"
  obtain gw2 where app: "appendAndAwait z order ck sch buf ?gw = Some (r, gw2)"
    and calls': "gw_calls gw' = gw_calls gw2 @ recordDurableWaitMetrics ?t (ck_finished ck - ck_start ck) (err_of r)
      (MetricCount pm md) (DataPointCount pm md) (int (length buf))"
    using assms(1-3) Ok by (auto simp: ConsumeMetrics_def Let_def split: if_splits)
  have "separate (t_requests (x_telemetry (gw_exporter ?gw)))" using assms(4) by simp
  from appendAndAwait_calls [OF app assms(2) this] obtain calls where app': "gw_calls gw2 = gw_calls ?gw @ calls"
    and add: "\<And>i. added i calls = (if i = requestFailuresTotal (t_requests ?t) \<and> r \<noteq> Ok () then 1 else 0)"
    unfolding gateway_record_simps by blast
  note calls = gw_calls_split [OF calls' app']
  show ?thesis
    by (intro exI conjI, rule calls, rule refl)
      (use assms(4) Ok in \<open>auto simp: recordRequestStartMetrics_def recordMarshal_def separate_def add\<close>)
qed (use assms in \<open>simp add: ConsumeMetrics_def Let_def\<close>)

text \<open>A collector library for the samples: a request is its payload.\<close>

definition sample_pmetric :: "bytes pmetric_lib" where
  "sample_pmetric = \<lparr>MetricCount = (\<lambda>_. 1), DataPointCount = (\<lambda>md. int (length md)), MarshalMetrics = Ok\<rparr>"

abbreviation zero_clock :: clock where
  "zero_clock \<equiv> \<lparr>ck_start = 0, ck_stamp = 0, ck_marshalStart = 0, ck_marshaled = 0, ck_enqueueStart = 0, ck_enqueued = 0,
     ck_finished = 0\<rparr>"

abbreviation sample_schedule :: "'s schedule" where
  "sample_schedule \<equiv> \<lparr>sch_waits = [], sch_now = 5, sch_blocks = [], sch_fate = Sends,
     sch_awaits = RotatorA CaseFlush 12 # sample_delivery, sch_ctx = None\<rparr>"

theorem ConsumeMetrics_accounting_witness:
  "\<exists>e gw'. newOpenDataExporterForSignalWithTelemetry sample_aws naming_meter sample_config SignalTypeMetrics
      \<lparr>ts_meterProvider = Some naming_meter\<rparr> = Ok e \<and>
    ConsumeMetrics sample_pmetric stored_zstd sorted_list_of_set zero_clock sample_schedule [1, 2]
      \<lparr>gw_exporter = e, gw_producers = [], gw_calls = []\<rparr> = Some (Err errExporterNotStarted, gw') \<and>
    added (requestFailuresTotal (t_requests (x_telemetry e))) (gw_calls gw') = 1"
proof -
  obtain e where e: "newOpenDataExporterForSignalWithTelemetry sample_aws naming_meter sample_config SignalTypeMetrics
      \<lparr>ts_meterProvider = Some naming_meter\<rparr> = Ok e" "x_producer e = None" "x_signalType e = SignalTypeMetrics"
    "separate (t_requests (x_telemetry e))" by (rule sample_exporter)
  obtain gw' where run: "ConsumeMetrics sample_pmetric stored_zstd sorted_list_of_set zero_clock sample_schedule [1, 2]
      \<lparr>gw_exporter = e, gw_producers = [], gw_calls = []\<rparr> = Some (Err errExporterNotStarted, gw')"
    using e by (simp add: ConsumeMetrics_def sample_pmetric_def appendAndAwait_def Let_def)
  from ConsumeMetrics_accounting [OF run] e run show ?thesis by auto
qed

section \<open>Requests as runs\<close>

text \<open>
  The actions of a request that was appended: \<open>i\<close> is the position of its message among the callers at
  their \<^verbatim>\<open>select\<close>.
\<close>

definition request_actions :: "'s schedule \<Rightarrow> bytes \<Rightarrow> bytes \<Rightarrow> nat \<Rightarrow> 's action list" where
  "request_actions sch payload metadata i =
     (sch_waits sch @ [ReserveA [payload] metadata (sch_now sch)]) @ sch_blocks sch @ [SendA i] @ sch_awaits sch"

lemma exec_all_join:
  "exec_all z order as st = Some st1 \<Longrightarrow> exec_all z order bs st1 = Some st2 \<Longrightarrow> exec_all z order (as @ bs) st = Some st2"
  by (auto simp: exec_all_append)

lemma AwaitDurable_call_nil:
  assumes "AwaitDurable_call z order waits ctx w st = Some (None, st')" and "pipeline_inv st'"
  shows "exec_all z order waits st = Some st' \<and> nil_result st' w"
proof -
  have "watcher_ok (p_watchers (pl_prod st') w)" using assms(2) by (simp add: pipeline_inv_def producer_ok_def)
  then show ?thesis using assms(1)
    by (auto simp: AwaitDurable_call_def Let_def bind_eq_Some_conv nil_result_def watcher_Result_def watcher_ok_def
        split: option.splits if_splits)
qed

lemma appendAndAwait_run:
  assumes "appendAndAwait z order ck sch buf gw = Some (Ok (), gw')" and "x_producer (gw_exporter gw) = Some r"
    and "r < length (gw_producers gw)"
  obtains i st1 w where "exec_all z order (request_actions sch buf (x_metadata (gw_exporter gw)) i) (gw_producers gw ! r) =
      Some (gw_producers gw' ! r)"
    "exec_all z order (sch_waits sch @ [ReserveA [buf] (x_metadata (gw_exporter gw)) (sch_now sch)]) (gw_producers gw ! r) = Some st1"
    "\<lparr>am_entries = [buf], am_metadata = x_metadata (gw_exporter gw), am_ingestionTimeMs = sch_now sch, am_watcher = w,
      am_byteCost = appendByteCost [buf] (x_metadata (gw_exporter gw))\<rparr> \<in> set (pl_sending st1)"
    "pipeline_inv (gw_producers gw' ! r) \<Longrightarrow> nil_result (gw_producers gw' ! r) w"
proof -
  let ?md = "x_metadata (gw_exporter gw)" and ?p = "gw_producers gw ! r"
  obtain handle p where call: "Append z order (sch_waits sch) (sch_now sch) (sch_blocks sch) (sch_fate sch) [buf] ?md ?p =
      Some (handle, p)" using assms(1,2) by (auto simp: appendAndAwait_def Let_def bind_eq_Some_conv)
  obtain w where w: "handle = Ok w" using assms(1,2) call
    by (cases handle) (simp_all add: appendAndAwait_def Let_def)
  obtain p' where app: "Append z order (sch_waits sch) (sch_now sch) (sch_blocks sch) (sch_fate sch) [buf] ?md ?p = Some (Ok w, p)"
    and aw: "AwaitDurable_call z order (sch_awaits sch) (sch_ctx sch) w p = Some (None, p')"
    and gw': "gw_producers gw' ! r = p'"
    using assms call w by (auto simp: appendAndAwait_def Let_def split: option.splits)
  obtain st1 i where run: "exec_all z order (sch_waits sch @ [ReserveA [buf] ?md (sch_now sch)] @ sch_blocks sch @ [SendA i]) ?p = Some p"
    and st1: "exec_all z order (sch_waits sch @ [ReserveA [buf] ?md (sch_now sch)]) ?p = Some st1"
    and m: "\<lparr>am_entries = [buf], am_metadata = ?md, am_ingestionTimeMs = sch_now sch, am_watcher = w,
      am_byteCost = appendByteCost [buf] ?md\<rparr> \<in> set (pl_sending st1)" by (rule Append_run [OF app])
  have "exec_all z order (sch_awaits sch) p = Some p'" using aw
    by (auto simp: AwaitDurable_call_def Let_def bind_eq_Some_conv split: option.splits if_splits)
  then have "exec_all z order (request_actions sch buf ?md i) ?p = Some p'"
    using exec_all_join [OF run] by (simp add: request_actions_def)
  then show ?thesis using that [of i st1 w] st1 m AwaitDurable_call_nil [OF aw] gw' by blast
qed

lemma ConsumeMetrics_ok:
  assumes "ConsumeMetrics pm z order ck sch md gw = Some (Ok (), gw')"
  obtains buf gw1 gw2 where "MarshalMetrics pm md = Ok buf" "appendAndAwait z order ck sch buf gw1 = Some (Ok (), gw2)"
    "gw_exporter gw1 = gw_exporter gw" "gw_producers gw1 = gw_producers gw" "gw_producers gw' = gw_producers gw2"
  using assms by (auto simp: ConsumeMetrics_def Let_def split: if_splits res.splits)

lemma ConsumeLogs_ok:
  assumes "ConsumeLogs pl z order ck sch ld gw = Some (Ok (), gw')"
  obtains buf gw1 gw2 where "MarshalLogs pl (stampGatewayReceivedAt pl ld (ck_stamp ck)) = Ok buf"
    "appendAndAwait z order ck sch buf gw1 = Some (Ok (), gw2)"
    "gw_exporter gw1 = gw_exporter gw" "gw_producers gw1 = gw_producers gw" "gw_producers gw' = gw_producers gw2"
  using assms by (auto simp: ConsumeLogs_def Let_def split: if_splits res.splits)

text \<open>What \<^verbatim>\<open>Start\<close> leaves behind.\<close>

lemma Start_producer:
  assumes "newOpenDataExporterForSignalWithTelemetry aws noop cfg signalType settings = Ok e"
    and "Start queue_Validate runID s \<lparr>gw_exporter = e, gw_producers = [], gw_calls = []\<rparr> = Ok gw"
    and "newObjectStore aws (xc_ObjectStore cfg) = Ok S" and "compressionTypeFromString (xc_Compression cfg) = Ok compression"
  shows "gw_producers gw = [start S (exporter_producerConfig cfg compression) runID s]"
    "x_producer (gw_exporter gw) = Some 0" "x_metadata (gw_exporter gw) = EncodeMetadata signalType PayloadEncodingOTLP"
    "apply_defaults (exporter_producerConfig cfg compression) = exporter_producerConfig cfg compression"
proof -
  have e: "x_config e = cfg" "x_storeFactory e = newObjectStore aws" "x_producer e = None"
    "x_metadata e = EncodeMetadata signalType PayloadEncodingOTLP"
    using assms(1) by (auto simp: newOpenDataExporterForSignalWithTelemetry_def split: if_splits elim!: obind_OkE)
  have "Validate queue_Validate (Some cfg) = None" using assms(2) e by (simp add: Start_def Let_def split: option.splits)
  then show "apply_defaults (exporter_producerConfig cfg compression) = exporter_producerConfig cfg compression"
    by (rule apply_defaults_id [OF exporter_producerConfig_ok])
  show "gw_producers gw = [start S (exporter_producerConfig cfg compression) runID s]" "x_producer (gw_exporter gw) = Some 0"
    "x_metadata (gw_exporter gw) = EncodeMetadata signalType PayloadEncodingOTLP"
    using assms(2-4) e by (auto simp: Start_def Let_def split: option.splits)
qed

text \<open>
  A request that reports success on a started exporter: the payload is in the bucket.  Shared by both
  signals.
\<close>

lemma appended_request_durable:
  assumes "deployed S D" and "order_ok order" and "zstd_roundtrip (dp_zstd D)" and "dp_config D = apply_defaults (dp_config D)"
    and "queue_at (dp_objs D s) (dp_manifest D) (dp_queue D)"
    and "exec_all (dp_zstd D) order acts (start S (dp_config D) (dp_runID D) s) = Some st"
    and app: "appendAndAwait (dp_zstd D) order ck sch buf gw = Some (Ok (), gw')"
    and gw: "x_producer (gw_exporter gw) = Some 0" "gw_producers gw = [st]"
    and "list_all (friendly D) (acts @ sch_waits sch @ sch_blocks sch @ sch_awaits sch)"
    and "length acts + length (request_actions sch buf (x_metadata (gw_exporter gw)) 0) < 2 ^ 64 - 1"
    and "\<forall>i. all_states (rotOut_fits D) (dp_zstd D) order (acts @ request_actions sch buf (x_metadata (gw_exporter gw)) i)
      (start S (dp_config D) (dp_runID D) s)"
  shows "\<exists>m. am_entries m = [buf] \<and> am_metadata m = x_metadata (gw_exporter gw) \<and> am_ingestionTimeMs m = sch_now sch \<and>
    retrievable D (dp_objs D (pl_store (gw_producers gw' ! 0))) m"
proof -
  let ?md = "x_metadata (gw_exporter gw)" and ?z = "dp_zstd D" and ?st' = "gw_producers gw' ! 0"
  let ?start = "start S (dp_config D) (dp_runID D) s" and ?first = "sch_waits sch @ [ReserveA [buf] ?md (sch_now sch)]"
  have "0 < length (gw_producers gw)" using gw(2) by simp
  from appendAndAwait_run [OF app gw(1) this] obtain i st1 w where
      run: "exec_all ?z order (request_actions sch buf ?md i) st = Some ?st'" and st1: "exec_all ?z order ?first st = Some st1"
    and m: "\<lparr>am_entries = [buf], am_metadata = ?md, am_ingestionTimeMs = sch_now sch, am_watcher = w,
      am_byteCost = appendByteCost [buf] ?md\<rparr> \<in> set (pl_sending st1)" (is "?m \<in> _")
    and nil: "pipeline_inv ?st' \<Longrightarrow> nil_result ?st' w" using gw(2) by auto
  let ?rest = "sch_blocks sch @ [SendA i] @ sch_awaits sch"
  have split: "acts @ request_actions sch buf ?md i = (acts @ ?first) @ ?rest" by (simp add: request_actions_def)
  have run1: "exec_all ?z order (acts @ ?first) ?start = Some st1" by (rule exec_all_join [OF assms(6) st1])
  have run2: "exec_all ?z order ?rest st1 = Some ?st'"
    using iffD1 [OF exec_all_append run [unfolded request_actions_def]] st1 by (metis option.inject)
  have len: "length (acts @ ?first) + length ?rest < 2 ^ 64 - 1" using assms(11) by (simp add: request_actions_def)
  have "cas_store S (dp_objs D)" using assms(1) by (simp add: deployed_def)
  moreover have "exec_all ?z order ((acts @ ?first) @ ?rest) ?start = Some ?st'" by (rule exec_all_join [OF run1 run2])
  ultimately have "sound S (dp_objs D) order 0 ?st'" using run_sound [OF assms(2)] len by (metis add_0_right length_append)
  then have "nil_result ?st' (am_watcher ?m)" using nil by (simp add: sound_def)
  moreover have "list_all (friendly D) ((acts @ ?first) @ ?rest)" using assms(10) by simp
  moreover have "all_states (rotOut_fits D) ?z order ((acts @ ?first) @ ?rest) ?start" using assms(12) split by metis
  ultimately have "retrievable D (dp_objs D (pl_store ?st')) ?m"
    using nil_result_is_durable_lib [OF assms(1,2,4,5,3) len run1 m run2] by blast
  then show ?thesis by (intro exI [of _ ?m]) simp
qed

end
