(* ===== verification/Gauges.thy ===== *)
theory Gauges
  imports Progress Telemetry
begin

text \<open>
  The pending-inputs instrument against the running producer.  Batches in flight are weighed by a
  function of their watchers and statistics; no goroutine between the rotator and the resolver
  changes the weight of what is in flight.
\<close>

section \<open>Weight in flight\<close>

type_synonym weight = "nat list \<Rightarrow> FlushStats \<Rightarrow> int"

definition pb_weight :: "weight \<Rightarrow> pendingBatch \<Rightarrow> int" where
  "pb_weight W pb = W (pb_watchers pb) (pb_stats pb)"

definition eb_weight :: "weight \<Rightarrow> encodedBatch \<Rightarrow> int" where
  "eb_weight W eb = W (eb_watchers eb) (eb_stats eb)"

definition ri_weight :: "weight \<Rightarrow> resolverItem \<Rightarrow> int" where
  "ri_weight W ri = W (ri_watchers ri) (ri_stats ri)"

abbreviation uc_weight :: "weight \<Rightarrow> uploadCompletion \<Rightarrow> int" where
  "uc_weight W uc \<equiv> eb_weight W (uc_eb uc)"

fun enc_weight :: "weight \<Rightarrow> encoder_state \<Rightarrow> int" where
  "enc_weight W EncIdle = 0"
| "enc_weight W (EncHas pb) = pb_weight W pb"
| "enc_weight W (EncFailed uc) = uc_weight W uc"
| "enc_weight W (EncOut eb) = eb_weight W eb"

fun upl_weight :: "weight \<Rightarrow> uploader_state \<Rightarrow> int" where
  "upl_weight W UplIdle = 0"
| "upl_weight W (UplHas eb) = eb_weight W eb"
| "upl_weight W (UplOut uc) = uc_weight W uc"

definition flight :: "weight \<Rightarrow> 's pipeline \<Rightarrow> int" where
  "flight W st = (case pl_rotOut st of None \<Rightarrow> 0 | Some pb \<Rightarrow> pb_weight W pb) + sum_list (map (enc_weight W) (pl_encs st)) +
     sum_list (map (upl_weight W) (pl_upls st)) + sum_list (map (uc_weight W) (pl_comp st)) +
     (\<Sum>uc \<in># pool (cm_ready (pl_cm st)). uc_weight W uc) + sum_list (map (ri_weight W) (pl_cmOut st)) +
     (case pl_res st of None \<Rightarrow> 0 | Some ri \<Rightarrow> ri_weight W ri)"

abbreviation pending :: "'s pipeline \<Rightarrow> int" where
  "pending st \<equiv> log_pending (p_log (pl_prod st))"

definition hands_on :: "'s pipeline \<Rightarrow> 's pipeline \<Rightarrow> bool" where
  "hands_on st st' \<longleftrightarrow> (\<forall>W. flight W st' = flight W st) \<and> pending st' = pending st \<and>
     pl_appendCh st' = pl_appendCh st \<and> rt_batch (pl_rot st') = rt_batch (pl_rot st) \<and> (pl_shutdown st \<longrightarrow> pl_shutdown st')"

lemma encoder_take_hands_on:
  assumes "encoder_take i st = Some st'"
  shows "hands_on st st'"
proof -
  obtain pb where i: "i < length (pl_encs st)" "pl_encs st ! i = EncIdle" and "pl_rotOut st = Some pb"
    and "st' = st\<lparr>pl_rotOut := None, pl_encs := (pl_encs st)[i := EncHas pb]\<rparr>"
    using assms by (auto simp: encoder_take_def split: if_splits option.splits encoder_state.splits)
  then show ?thesis using sum_update [OF i(1), of "enc_weight W" "EncHas pb" for W] by (simp add: hands_on_def flight_def)
qed

lemma encoder_body_weight:
  "encoder_body z now depth pb p = Ok (x, p') \<Longrightarrow>
     (case x of Inl uc \<Rightarrow> uc_weight W uc | Inr eb \<Rightarrow> eb_weight W eb) = pb_weight W pb"
  by (auto simp: encoder_body_def Let_def eb_weight_def pb_weight_def split: res.splits)

lemma encoder_run_hands_on:
  assumes "encoder_run z i now depth st = Some st'"
  shows "hands_on st st'"
proof -
  obtain pb where i: "i < length (pl_encs st)" "pl_encs st ! i = EncHas pb"
    using assms by (auto simp: encoder_run_def split: if_splits encoder_state.splits)
  obtain x p' where body: "encoder_body z now depth pb (pl_prod st) = Ok (x, p')"
    using encoder_body_cases [of z now depth pb "pl_prod st"] by blast
  then have st': "st' = st\<lparr>pl_prod := p', pl_encs := (pl_encs st)[i := (case x of Inl uc \<Rightarrow> EncFailed uc | Inr eb \<Rightarrow> EncOut eb)]\<rparr>"
    using assms i by (simp add: encoder_run_def split: sum.splits)
  have "enc_weight W (case x of Inl uc \<Rightarrow> EncFailed uc | Inr eb \<Rightarrow> EncOut eb) = pb_weight W pb" for W
    using encoder_body_weight [OF body, of W] by (simp split: sum.splits)
  then show ?thesis
    unfolding st' using sum_update [OF i(1), of "enc_weight W" "case x of Inl uc \<Rightarrow> EncFailed uc | Inr eb \<Rightarrow> EncOut eb" for W] i(2)
      encoder_body_core [OF body]
    by (simp add: hands_on_def flight_def same_core_def)
qed

lemma encoder_fail_hands_on:
  assumes "encoder_fail i st = Some st'"
  shows "hands_on st st'"
proof -
  obtain uc where i: "i < length (pl_encs st)" "pl_encs st ! i = EncFailed uc"
    and "st' = st\<lparr>pl_encs := (pl_encs st)[i := EncIdle], pl_comp := pl_comp st @ [uc]\<rparr>"
    using assms by (auto simp: encoder_fail_def split: if_splits encoder_state.splits)
  then show ?thesis using sum_update [OF i(1), of "enc_weight W" EncIdle for W] by (simp add: hands_on_def flight_def)
qed

lemma uploader_take_hands_on:
  assumes "uploader_take i j st = Some st'"
  shows "hands_on st st'"
proof -
  obtain eb where i: "i < length (pl_encs st)" "pl_encs st ! i = EncOut eb"
    and j: "j < length (pl_upls st)" "pl_upls st ! j = UplIdle"
    and "st' = st\<lparr>pl_encs := (pl_encs st)[i := EncIdle], pl_upls := (pl_upls st)[j := UplHas eb]\<rparr>"
    using assms by (auto simp: uploader_take_def split: if_splits encoder_state.splits uploader_state.splits)
  then show ?thesis
    using sum_update [OF i(1), of "enc_weight W" EncIdle for W] sum_update [OF j(1), of "upl_weight W" "UplHas eb" for W]
    by (simp add: hands_on_def flight_def)
qed

lemma uploader_run_hands_on:
  assumes "uploader_run env shut j depth st = Some st'"
  shows "hands_on st st'"
proof -
  obtain eb where j: "j < length (pl_upls st)" "pl_upls st ! j = UplHas eb"
    using assms by (auto simp: uploader_run_def split: if_splits uploader_state.splits)
  obtain uc p' s' where body: "uploader_body env shut depth eb (pl_prod st) (pl_store st) = Ok (uc, p', s')"
    using uploader_body_returns [of env shut depth eb "pl_prod st" "pl_store st"] by blast
  then have "st' = st\<lparr>pl_prod := p', pl_store := s', pl_upls := (pl_upls st)[j := UplOut uc]\<rparr>"
    using assms j by (simp add: uploader_run_def)
  moreover have "uc_eb uc = eb\<lparr>eb_payload := []\<rparr>" using body by (auto simp: uploader_body_def Let_def outcome_simps)
  then have "uc_weight W uc = eb_weight W eb" for W by (simp add: eb_weight_def)
  ultimately show ?thesis
    using sum_update [OF j(1), of "upl_weight W" "UplOut uc" for W] j(2) uploader_body_core [OF body]
    by (simp add: hands_on_def flight_def same_core_def)
qed

lemma uploader_done_hands_on:
  assumes "uploader_done j st = Some st'"
  shows "hands_on st st'"
proof -
  obtain uc where j: "j < length (pl_upls st)" "pl_upls st ! j = UplOut uc"
    and "st' = st\<lparr>pl_upls := (pl_upls st)[j := UplIdle], pl_comp := pl_comp st @ [uc]\<rparr>"
    using assms by (auto simp: uploader_done_def split: if_splits uploader_state.splits)
  then show ?thesis using sum_update [OF j(1), of "upl_weight W" UplIdle for W] by (simp add: hands_on_def flight_def)
qed

lemma resolve_item_weight [simp]: "ri_weight W (resolve_item pr) = uc_weight W (pr_uc pr)"
  by (simp add: ri_weight_def eb_weight_def resolve_item_def Let_def)

text \<open>The committer puts every completion it receives into its map; none is overwritten.\<close>

lemma received_pool:
  assumes "pipeline_inv st" and "\<not> cm_halted (pl_cm st)"
  shows "pool (cm_ready (fold put_ready (pl_comp st) (pl_cm st))) = mset (pl_comp st) + pool (cm_ready (pl_cm st))"
proof -
  let ?B = "{n. n < rt_ordinal (pl_rot st)}"
  obtain M where up: "upstream st = mset (map ordinal_of (pl_comp st)) + M" by (auto simp: upstream_def ac_simps)
  have ord: "ordinal_inv st" using assms(1) by (simp add: pipeline_inv_def)
  then have "distinct (map ordinal_of (pl_comp st))"
    using count_mset_distinct [of "map ordinal_of (pl_comp st)" M "\<lambda>n. n < rt_ordinal (pl_rot st)"] unfolding ordinal_inv_def up by blast
  moreover have "tracks (?B - set_mset (upstream st)) (cm_next (pl_cm st)) (cm_ready (pl_cm st))"
    using ord assms(2) by (simp add: ordinal_inv_def)
  moreover have "set (map ordinal_of (pl_comp st)) \<inter> (?B - set_mset (upstream st)) = {}" by (auto simp: up)
  ultimately show ?thesis using fold_put_ready_tracks by blast
qed

lemma committer_receive_hands_on:
  assumes "pipeline_inv st" and "committer_receive st = Some st'"
  shows "hands_on st st'"
proof -
  obtain uc ch where idle: "pl_cmOut st = []" "pl_draining st = None" and comp: "pl_comp st = uc # ch"
    using assms(2) by (auto simp: committer_receive_def split: if_splits list.splits)
  show ?thesis
  proof (cases "cm_halted (pl_cm st)")
    case True
    then have "st' = st\<lparr>pl_comp := ch, pl_cmOut := [resolve_item (resolution uc (Some ErrProducerHalted) OutcomeAbandoned)]\<rparr>"
      using assms(2) idle comp by (simp add: committer_receive_def)
    then show ?thesis using idle comp by (simp add: hands_on_def flight_def)
  next
    case False
    obtain cm' d where "st' = st\<lparr>pl_comp := [], pl_cm := cm', pl_draining := Some d\<rparr>"
      and "cm_ready cm' = cm_ready (fold put_ready (pl_comp st) (pl_cm st))"
      using assms(2) comp idle False by (auto simp: committer_receive_def Let_def split: if_splits)
    then show ?thesis
      using received_pool [OF assms(1) False] by (simp add: hands_on_def flight_def sum_mset_sum_list [symmetric])
  qed
qed

lemma committer_drain_hands_on:
  assumes inv: "pipeline_inv st" and "order_ok order" and dr: "committer_drain env shut order st = Some st'"
    and "cas_store (me_store (p_enqueuer (pl_prod st))) objs"
  shows "hands_on st st'"
proof -
  let ?D = "{n. n < rt_ordinal (pl_rot st)} - set_mset (upstream st)" and ?cm = "pl_cm st" and ?p = "pl_prod st"
  obtain w where idle: "pl_draining st = Some w" "pl_cmOut st = []"
    using dr by (auto simp: committer_drain_def split: option.splits list.splits)
  have "ordinal_inv st" using inv by (simp add: pipeline_inv_def)
  then have live: "\<not> cm_halted ?cm" and tr: "tracks ?D (cm_next ?cm) (cm_ready ?cm)" and key: "keyed (cm_ready ?cm)"
    using idle by (auto simp: ordinal_inv_def)
  obtain r cm p s where
    rnd: "drain_round (casWithRetry env shut) order (batch_size ?p) ?cm ?p (pl_store st) = Some (r, cm, p, s)"
    using dr idle by (auto simp: committer_drain_def split: option.splits)
  then obtain prs go where r: "r = Returned (prs, go)"
    using drain_round_not_Panicked [OF assms(4)] by (cases r) auto
  have nw: "no_wrap ?D" by (rule no_wrap_below [of _ "rt_ordinal (pl_rot st)"]) auto
  have pool: "mset (map pr_uc prs) + pool (cm_ready cm) = pool (cm_ready ?cm)"
    using drain_round_outcome [OF assms(2) nw batch_size_pos rnd [unfolded r] tr key live] by blast
  obtain cm1 p1 where st': "st' = st\<lparr>pl_cm := cm1, pl_prod := p1, pl_store := s, pl_cmOut := map resolve_item prs,
      pl_draining := (if go then Some w else None)\<rparr>" and cm1: "cm_ready cm1 = cm_ready cm" and p1: "same_core p p1"
    using dr idle rnd r by (cases st, cases go) (auto simp: committer_drain_def Let_def split: if_splits)
  have "same_core ?p p1" using same_core_trans [OF drain_round_core [OF rnd] p1] .
  moreover have "(\<Sum>uc \<in># pool (cm_ready cm). uc_weight W uc) + sum_list (map (\<lambda>pr. uc_weight W (pr_uc pr)) prs) =
      (\<Sum>uc \<in># pool (cm_ready ?cm). uc_weight W uc)" for W
    unfolding pool [symmetric] by (simp add: sum_mset_sum_list [symmetric] comp_def multiset.map_comp)
  ultimately show ?thesis using idle by (simp add: hands_on_def flight_def st' cm1 same_core_def comp_def)
qed

lemma resolver_take_hands_on: "resolver_take st = Some st' \<Longrightarrow> hands_on st st'"
  by (auto simp: resolver_take_def hands_on_def flight_def split: option.splits list.splits)

text \<open>The resolver reports the statistics of the batch it ends.\<close>

lemma resolver_body_pending:
  assumes "producer_ok p" and "resolver_body ri p = Ok p'" and "cfg_Observer (p_config p)"
  shows "log_pending (p_log p') = log_pending (p_log p) - fs_Inputs (ri_stats ri)"
proof -
  let ?p1 = "observe [OnFlush (ri_reason ri) (ri_stats ri) (ri_err ri), OnBatchOutcome (ri_outcome ri)] p"
  obtain p2 p3 where ws: "watchers_resolve (ri_watchers ri) (ri_err ri) ?p1 = Ok p2"
    and rel: "budget_release (ri_byteCost ri) 1 (send_ack (ri_flushAck ri) (ri_err ri) p2) = Ok p3"
    and p': "p' = emitInflightSnapshot p3"
    using assms(2) by (auto simp: resolver_body_def Let_def outcome_simps)
  have "p_log p2 = p_log ?p1" using ws by (auto simp: watchers_resolve_def outcome_simps)
  moreover have "p_log p3 = p_log p2" using rel by (auto simp: budget_release_def outcome_simps split: prod.splits)
  ultimately show ?thesis using assms(3) by (simp add: p' emitInflightSnapshot_eq log_pending_observe)
qed

lemma resolver_run_retires:
  assumes "pipeline_inv st" and "resolver_run st = Some st'" and "cfg_Observer (p_config (pl_prod st))"
  shows "\<exists>ri. (\<forall>W. flight W st' = flight W st - ri_weight W ri) \<and> pending st' = pending st - fs_Inputs (ri_stats ri) \<and>
    pl_appendCh st' = pl_appendCh st \<and> pl_rot st' = pl_rot st \<and> pl_shutdown st' = pl_shutdown st"
proof -
  have ok: "producer_ok (pl_prod st)" using assms(1) by (simp add: pipeline_inv_def)
  obtain ri p' where "pl_res st = Some ri" and body: "resolver_body ri (pl_prod st) = Ok p'"
    and "st' = st\<lparr>pl_res := None, pl_prod := p'\<rparr>"
    using assms(2) resolver_body_effect [OF ok] by (fastforce simp: resolver_run_def split: option.splits)
  then show ?thesis using resolver_body_pending [OF ok body assms(3)] by (intro exI [of _ ri]) (simp add: flight_def)
qed

section \<open>The instrument follows the accepted messages\<close>

definition waiting :: "'s pipeline \<Rightarrow> int" where
  "waiting st = int (length (pl_appendCh st)) + int (length (ba_watchers (rt_batch (pl_rot st))))"

definition inputs_weight :: weight where
  "inputs_weight ws stats = fs_Inputs stats"

definition watchers_weight :: weight where
  "watchers_weight ws stats = int (length ws)"

text \<open>By how much the statistics of a batch miss the number of its watchers.\<close>

definition miscount :: weight where
  "miscount ws stats = \<bar>fs_Inputs stats - int (length ws)\<bar>"

definition gauge_inv :: "'s pipeline \<Rightarrow> bool" where
  "gauge_inv st \<longleftrightarrow> cfg_Observer (p_config (pl_prod st)) \<and> flight miscount st = 0 \<and>
     waiting st + flight inputs_weight st \<le> pending st \<and>
     (\<not> pl_shutdown st \<longrightarrow> pending st = waiting st + flight inputs_weight st)"

lemma hands_on_gauge:
  "hands_on st st' \<Longrightarrow> gauge_inv st \<Longrightarrow> p_config (pl_prod st') = p_config (pl_prod st) \<Longrightarrow> gauge_inv st'"
  by (auto simp: hands_on_def gauge_inv_def waiting_def)

lemma sum_mset_le: "(\<And>x. f x \<le> g x) \<Longrightarrow> (\<Sum>x \<in># M. f x) \<le> (\<Sum>x \<in># M. g x :: int)"
  by (induction M) (simp_all add: add_mono)

lemma flight_mono: "(\<And>ws stats. V ws stats \<le> W ws stats) \<Longrightarrow> flight V st \<le> flight W st"
proof -
  assume le: "\<And>ws stats. V ws stats \<le> W ws stats"
  have "enc_weight V e \<le> enc_weight W e" "upl_weight V u \<le> upl_weight W u" for e u
    using le by (cases e; cases u; simp add: pb_weight_def eb_weight_def)+
  then show ?thesis
    using le unfolding flight_def
    by (intro add_mono sum_list_mono sum_mset_le) (auto simp: pb_weight_def eb_weight_def ri_weight_def split: option.splits)
qed

lemma flight_add: "flight (\<lambda>ws stats. V ws stats + W ws stats) st = flight V st + flight W st"
proof -
  let ?U = "\<lambda>ws stats. V ws stats + W ws stats"
  have eb: "eb_weight ?U = (\<lambda>eb. eb_weight V eb + eb_weight W eb)" by (simp add: eb_weight_def fun_eq_iff)
  have enc: "enc_weight ?U = (\<lambda>e. enc_weight V e + enc_weight W e)"
  proof
    fix e show "enc_weight ?U e = enc_weight V e + enc_weight W e" by (cases e) (simp_all add: pb_weight_def eb)
  qed
  have upl: "upl_weight ?U = (\<lambda>u. upl_weight V u + upl_weight W u)"
  proof
    fix u show "upl_weight ?U u = upl_weight V u + upl_weight W u" by (cases u) (simp_all add: eb)
  qed
  have "ri_weight ?U = (\<lambda>ri. ri_weight V ri + ri_weight W ri)" by (simp add: ri_weight_def fun_eq_iff)
  then show ?thesis
    unfolding flight_def eb enc upl
    by (simp add: sum_list_addf sum_mset.distrib pb_weight_def split: option.splits)
qed

lemma flight_zero: "flight (\<lambda>ws stats. 0) st = 0"
  using flight_add [of "\<lambda>ws stats. 0" "\<lambda>ws stats. 0" st] by simp

lemma counted_inputs:
  assumes "flight miscount st = 0"
  shows "flight inputs_weight st = flight watchers_weight st"
proof -
  have "flight inputs_weight st \<le> flight (\<lambda>ws stats. watchers_weight ws stats + miscount ws stats) st"
    "flight watchers_weight st \<le> flight (\<lambda>ws stats. inputs_weight ws stats + miscount ws stats) st"
    by (rule flight_mono, simp add: inputs_weight_def watchers_weight_def miscount_def)+
  then show ?thesis using assms by (simp add: flight_add)
qed

lemma AppendContext_gauge:
  assumes "gauge_inv st"
  shows "AppendContext_reserve es md now st = Some st' \<Longrightarrow> gauge_inv st'"
    and "AppendContext_send i st = Some st' \<Longrightarrow> \<not> pl_panicked st' \<Longrightarrow> gauge_inv st'"
    and "AppendContext_giveup i st = Some st' \<Longrightarrow> gauge_inv st'"
proof -
  assume "AppendContext_reserve es md now st = Some st'"
  then show "gauge_inv st'" using assms
    by (auto simp: AppendContext_reserve_def Let_def gauge_inv_def waiting_def flight_def emitInflightSnapshot_eq log_pending_observe
        split: if_splits prod.splits attempt_outcome.splits)
next
  assume "AppendContext_send i st = Some st'" "\<not> pl_panicked st'"
  then show "gauge_inv st'" using assms
    by (auto simp: AppendContext_send_def Let_def gauge_inv_def waiting_def flight_def log_pending_observe crash_def
        split: if_splits)
next
  assume "AppendContext_giveup i st = Some st'"
  then show "gauge_inv st'" using assms
    by (auto simp: AppendContext_giveup_def gauge_inv_def waiting_def flight_def emitInflightSnapshot_eq log_pending_observe
        budget_release_def outcome_simps crash_def split: if_splits res.splits prod.splits)
qed

lemma emit_gauge:
  assumes "emit try_acquire now reason ack rt p = Ok (out, rt', p')"
  shows "log_pending (p_log p') = log_pending (p_log p) \<and> p_config p' = p_config p \<and> (case out of
      NothingEmitted \<Rightarrow> rt' = rt
    | DroppedOnShutdown ws \<Rightarrow> ba_watchers (rt_batch rt') = [] \<and> \<not> batchesUsed (p_budget p) < maxBatches (p_budget p)
    | Emitted pb \<Rightarrow> ba_watchers (rt_batch rt') = [] \<and> pb_watchers pb = ba_watchers (rt_batch rt) \<and>
        fs_Inputs (pb_stats pb) = int (length (ba_metadata (rt_batch rt))))"
proof (cases "batch_isEmpty (rt_batch rt)")
  case True
  then show ?thesis using assms by (auto simp: emit_def)
next
  case False
  obtain e p1 where acq: "try_acquire p = (e, p1)" by fastforce
  then have p1: "p_log p1 = p_log p" "p_config p1 = p_config p" "e \<noteq> None \<Longrightarrow> \<not> batchesUsed (p_budget p) < maxBatches (p_budget p)"
    by (auto simp: try_acquire_def acquire_attempt_def split: prod.splits attempt_outcome.splits if_splits)
  show ?thesis
  proof (cases e)
    case None
    then show ?thesis using assms False acq p1
      by (auto simp: emit_def emit_pending_def Let_def budget_addReservation_def batch_reset_def batch_stats_def outcome_simps
          emitInflightSnapshot_eq log_pending_observe split: prod.splits)
  next
    case (Some err)
    then show ?thesis using assms False acq p1
      by (auto simp: emit_def emit_dropped_def Let_def budget_release_def watchers_resolve_def batch_reset_def outcome_simps
          emitInflightSnapshot_eq log_pending_observe split: prod.splits)
  qed
qed

lemma rotator_step_gauge:
  assumes inv: "pipeline_inv st" and g: "gauge_inv st" and step: "rotator_step cs now st = Some st'" and "\<not> pl_panicked st'"
  shows "gauge_inv st'"
proof -
  obtain ev ch where out: "pl_rotOut st = None" and recv: "rotator_receives cs now st = Some (ev, ch)"
    and go: "\<not> rotator_blocks now ev st"
    and step': "(case rotator_iter try_acquire now ev (pl_rot st) (pl_prod st) of
        Ok (out, rt, p) \<Rightarrow> Some (st\<lparr>pl_prod := p, pl_rot := rt, pl_appendCh := ch,
            pl_rotOut := (case out of Emitted pb \<Rightarrow> Some pb | _ \<Rightarrow> None), pl_rotExit := (cs = CaseClosed),
            pl_nextAck := (if cs = CaseFlush then pl_nextAck st + 1 else pl_nextAck st)\<rparr>)
      | _ \<Rightarrow> Some (crash st)) = Some st'"
    using step unfolding rotator_step_def by (cases "rotator_receives cs now st") (simp_all split: if_splits prod.splits)
  obtain em rt p where it: "rotator_iter try_acquire now ev (pl_rot st) (pl_prod st) = Ok (em, rt, p)"
    and st': "st' = st\<lparr>pl_prod := p, pl_rot := rt, pl_appendCh := ch,
            pl_rotOut := (case em of Emitted pb \<Rightarrow> Some pb | _ \<Rightarrow> None), pl_rotExit := (cs = CaseClosed),
            pl_nextAck := (if cs = CaseFlush then pl_nextAck st + 1 else pl_nextAck st)\<rparr>"
    using step' assms(4) by (cases "rotator_iter try_acquire now ev (pl_rot st) (pl_prod st)") (auto simp: crash_def)
  obtain req rt1 p1 where sel: "rotator_select now ev (pl_rot st) (pl_prod st) = (req, rt1, p1)" by (metis prod_cases3)
  obtain msgs where "holds msgs (rt_batch (pl_rot st))" using inv by (auto simp: pipeline_inv_def message_inv_def)
  then have h1: "holds (msgs @ received ev) (rt_batch rt1)" and l0: "length (ba_watchers (rt_batch (pl_rot st))) = length msgs"
    using rotator_select_holds [OF _ sel] by (auto simp: holds_def)
  have core: "log_pending (p_log p1) = pending st" "p_config p1 = p_config (pl_prod st)" "p_budget p1 = p_budget (pl_prod st)"
    using rotator_select_same_core [OF sel] by (simp_all add: same_core_def)
  have len: "waiting st = int (length ch) + int (length (ba_watchers (rt_batch rt1)))"
    "length (ba_metadata (rt_batch rt1)) = length (ba_watchers (rt_batch rt1))"
    using rotator_receives_split [OF recv, symmetric] h1 l0 by (simp_all add: waiting_def holds_def length_message_metadata)
  have fl: "flight W st' = flight W st + (case em of Emitted pb \<Rightarrow> pb_weight W pb | _ \<Rightarrow> 0)" for W
    using out by (cases em) (simp_all add: flight_def st')
  have fields: "waiting st' = int (length ch) + int (length (ba_watchers (rt_batch rt)))" "pl_prod st' = p"
    "pl_shutdown st' = pl_shutdown st" by (simp_all add: st' waiting_def)
  show ?thesis
  proof (cases req)
    case None
    then have "em = NothingEmitted" "rt = rt1" "p = p1" using it sel by (simp_all add: rotator_iter_def)
    then show ?thesis using g core len fl fields by (simp add: gauge_inv_def)
  next
    case (Some r)
    then have "emit try_acquire now (fst r) (snd r) rt1 p1 = Ok (em, rt, p)" using it sel by (cases r) (simp add: rotator_iter_def)
    note e = emit_gauge [OF this]
    have "pl_shutdown st" if "em = DroppedOnShutdown ws" for ws
      using that e go sel Some core(3) it by (auto simp: rotator_blocks_def rotator_iter_def emit_def split: if_splits prod.splits)
    then show ?thesis
      using g core len fl e fields
      by (cases em) (auto simp: gauge_inv_def pb_weight_def inputs_weight_def miscount_def)
  qed
qed

lemma resolver_run_gauge:
  assumes "pipeline_inv st" and "gauge_inv st" and "resolver_run st = Some st'" and "p_config (pl_prod st') = p_config (pl_prod st)"
  shows "gauge_inv st'"
proof -
  have obs: "cfg_Observer (p_config (pl_prod st))" using assms(2) by (simp add: gauge_inv_def)
  from resolver_run_retires [OF assms(1,3) obs] obtain ri where ri: "\<And>W. flight W st' = flight W st - ri_weight W ri"
    "pending st' = pending st - fs_Inputs (ri_stats ri)" "pl_appendCh st' = pl_appendCh st" "pl_rot st' = pl_rot st"
    "pl_shutdown st' = pl_shutdown st" by blast
  have "0 \<le> flight miscount st'" using flight_mono [of "\<lambda>_ _. 0" miscount st'] by (simp add: miscount_def flight_zero)
  moreover have "0 \<le> ri_weight miscount ri" by (simp add: ri_weight_def miscount_def)
  ultimately have "flight miscount st' = 0" using assms(2) ri(1) [of miscount] by (simp add: gauge_inv_def)
  then show ?thesis using assms(2,4) ri by (simp add: gauge_inv_def waiting_def ri_weight_def inputs_weight_def)
qed

lemma exec_gauge:
  assumes snd: "sound store objs order n st" and g: "gauge_inv st" and ex: "exec z order a st = Some st'" and "\<not> pl_panicked st'"
  shows "gauge_inv st'"
proof -
  have inv: "pipeline_inv st" and ord: "order_ok order" and cas: "cas_store (me_store (p_enqueuer (pl_prod st))) objs"
    using snd by (auto simp: sound_def run_ok_def)
  have run: "exec_action z order a st = Some st'" using ex by (simp add: exec_def split: if_splits)
  have cfg: "p_config (pl_prod st') = p_config (pl_prod st)" using exec_grows [OF ex] by (simp add: grows_def setup_of_def)
  note on = hands_on_gauge [OF _ g cfg]
  show ?thesis
  proof (cases a)
    case (RotatorA cs now)
    then show ?thesis using rotator_step_gauge [OF inv g _ assms(4)] run by simp
  next
    case ResolveA
    then show ?thesis using resolver_run_gauge [OF inv g _ cfg] run by simp
  next
    case (DrainA env shut)
    then show ?thesis using on committer_drain_hands_on [OF inv ord _ cas] run by simp
  next
    case ReceiveA
    then show ?thesis using on committer_receive_hands_on [OF inv] run by simp
  qed (use run assms(4) g in \<open>auto intro: AppendContext_gauge [OF g] on
      dest: encoder_take_hands_on encoder_run_hands_on encoder_fail_hands_on uploader_take_hands_on
        uploader_run_hands_on uploader_done_hands_on resolver_take_hands_on
      simp: Close_append_def Close_abort_def gauge_inv_def [of "_\<lparr>pl_closed := _\<rparr>"] gauge_inv_def [of "_\<lparr>pl_shutdown := _\<rparr>"]
        gauge_inv_def [of "_\<lparr>pl_store := _\<rparr>"] gauge_inv_def [of st] waiting_def flight_def split: if_splits\<close>)
qed

lemma exec_all_gauge:
  assumes "sound store objs order (length acts) st" and "gauge_inv st" and "exec_all z order acts st = Some st'" and "\<not> pl_panicked st'"
  shows "gauge_inv st'"
  using assms
proof (induction acts arbitrary: st)
  case (Cons a acts)
  obtain st1 where ex: "exec z order a st = Some st1" and rest: "exec_all z order acts st1 = Some st'"
    using Cons.prems(3) by (auto split: option.splits)
  have "\<not> pl_panicked st1" using rest Cons.prems(4) by (cases acts) (auto simp: exec_def split: option.splits if_splits)
  then have "gauge_inv st1" using exec_gauge [OF Cons.prems(1,2) ex] by simp
  moreover have "sound store objs order (length acts) st1" using exec_sound [OF _ ex] Cons.prems(1) by simp
  ultimately show ?case using Cons.IH rest Cons.prems(4) by blast
qed simp

lemma start_gauge: "cfg_Observer config \<Longrightarrow> gauge_inv (start store config runID s)"
  by (simp add: gauge_inv_def start_def Let_def flight_def waiting_def rotator_start_def new_accumulator_def
      committer_start_def apply_defaults_def sum_list_replicate)

text \<open>The weight of the watchers in flight is their number.\<close>

lemma flight_watchers: "flight watchers_weight st = int (size (load_watchers (in_flight st)))"
proof -
  have list: "int (size (load_watchers (mset (concat (map f xs))))) = sum_list (map g xs)"
    if "\<And>x. int (size (load_watchers (mset (f x)))) = g x" for f :: "'b \<Rightarrow> load list" and g xs
    using that by (induction xs) simp_all
  have one: "int (size (load_watchers (mset (map f xs)))) = sum_list (map g xs)"
    if "\<And>x. int (length (fst (f x))) = g x" for f :: "'b \<Rightarrow> load" and g xs
    using that by (induction xs) simp_all
  have pool: "int (size (load_watchers (image_mset uc_load M))) = (\<Sum>uc \<in># M. uc_weight watchers_weight uc)" for M
    by (induction M) (simp_all add: uc_load_def eb_load_def eb_weight_def watchers_weight_def)
  have "int (size (load_watchers (mset (enc_loads e)))) = enc_weight watchers_weight e" for e
    by (cases e) (simp_all add: pb_load_def uc_load_def eb_load_def pb_weight_def eb_weight_def watchers_weight_def)
  note enc = list [of enc_loads "enc_weight watchers_weight", OF this]
  have "int (size (load_watchers (mset (upl_loads u)))) = upl_weight watchers_weight u" for u
    by (cases u) (simp_all add: uc_load_def eb_load_def eb_weight_def watchers_weight_def)
  note upl = list [of upl_loads "upl_weight watchers_weight", OF this]
  have comp: "int (size (load_watchers (mset (map uc_load xs)))) = sum_list (map (uc_weight watchers_weight) xs)" for xs
    by (rule one) (simp add: uc_load_def eb_load_def eb_weight_def watchers_weight_def)
  have ri: "int (size (load_watchers (mset (map ri_load xs)))) = sum_list (map (ri_weight watchers_weight) xs)" for xs
    by (rule one) (simp add: ri_load_def ri_weight_def watchers_weight_def)
  show ?thesis
    unfolding flight_def in_flight_def load_simps size_union of_nat_add enc upl comp pool ri
    by (simp add: pb_load_def pb_weight_def watchers_weight_def split: option.splits)
qed

lemma size_accepted: "int (size (accepted st)) = waiting st + flight watchers_weight st"
  by (simp add: accepted_def waiting_watchers_def waiting_def flight_watchers)

text \<open>What the calls of an observer add to the instrument.\<close>

lemma observer_calls_pending:
  assumes "request_kinds kind (t_requests t)" "flush_kinds kind (t_flushes t)" "pipeline_kinds kind (t_pipeline t)"
  shows "added (pendingInputs (t_requests t)) (observer_calls t d ev) = event_pending ev"
proof -
  have "flushesTotal (t_flushes t) \<noteq> pendingInputs (t_requests t)" "manifestConflictsTotal (t_flushes t) \<noteq> pendingInputs (t_requests t)"
    "batchOutcomeTotal (t_pipeline t) \<noteq> pendingInputs (t_requests t)"
    using assms by (auto simp: request_kinds_def flush_kinds_def pipeline_kinds_def)
  then show ?thesis by (cases ev) (simp_all add: hook_defs Let_def split: option.splits PipelineStage.splits)
qed

definition observed :: "'i exporterTelemetry \<Rightarrow> int list \<Rightarrow> Observer list \<Rightarrow> 'i tcall list" where
  "observed t ds evs = concat (map2 (observer_calls t) ds evs)"

lemma observed_pending:
  assumes "request_kinds kind (t_requests t)" "flush_kinds kind (t_flushes t)" "pipeline_kinds kind (t_pipeline t)"
    and "length ds = length evs"
  shows "added (pendingInputs (t_requests t)) (observed t ds evs) = log_pending evs"
  using assms(4) by (induction ds evs rule: list_induct2) (simp_all add: observed_def observer_calls_pending [OF assms(1-3)])

section \<open>Properties\<close>


definition observed_start :: "InMemory pipeline" where
  "observed_start = start InMemory_store (DefaultProducerConfig\<lparr>cfg_Observer := True, cfg_MaxInFlightBatches := 1\<rparr>) ''run'' NewInMemory"

lemma observed_append:
  "map_option (\<lambda>st. (pl_panicked st, pl_shutdown st, length (p_log (pl_prod st))))
     (exec_all stored_zstd sorted_list_of_set sample_append observed_start) = Some (False, False, 5)"
  by code_simp


text \<open>
  A batch dropped by a forced shutdown is never reported as flushed: the run below ends with every
  goroutine gone and nothing accepted, and one input still counted as pending.
\<close>

definition forced_shutdown :: "InMemory action list" where
  "forced_shutdown = sample_append @ [RotatorA CaseFlush 12, EncTakeA 0] @ sample_append @
     [CloseA, AbortA, RotatorA CaseMessage 13, RotatorA CaseClosed 14] @ tl sample_delivery"

theorem pending_inputs_leak:
  "map_option (\<lambda>st. (resolverDone st, pl_appendCh st, ba_watchers (rt_batch (pl_rot st)), watcher_Result (p_watchers (pl_prod st) 1),
      log_pending (p_log (pl_prod st))))
     (exec_all stored_zstd sorted_list_of_set forced_shutdown observed_start) =
   Some (True, [], [], (True, Some ErrShutdown), 1)"
  by code_simp

end
