(* ===== verification/Bench.thy ===== *)
theory Bench
  imports Calls Complex_Main
begin

text \<open>
  The benchmark command (\<^verbatim>\<open>cmd/bench/main.go\<close>): its options, its workload, an iteration in either mode
  as a client of the producer, and the statistics it reports.  The random generator is an argument,
  as are the durations that are measured.  Writing the report files is not modelled.
\<close>

section \<open>Floating-point numbers\<close>

text \<open>
  The statistics are \<^verbatim>\<open>float64\<close>: numbers of which a result is rounded to the nearest one with a
  significand of 53 bits, ties to even.  Values in the subnormal range round to multiples of
  \<open>2 ^ -1074\<close>; no value here overflows.
\<close>

definition round_even :: "real \<Rightarrow> int" where
  "round_even y =
     (let f = \<lfloor>y\<rfloor>; d = y - of_int f in
      if d < 1 / 2 then f else if d > 1 / 2 then f + 1 else if even f then f else f + 1)"

function scale_up :: "int \<Rightarrow> real \<Rightarrow> nat" where
  "scale_up n x = (if n \<le> 0 \<or> 2 ^ 52 \<le> x then 0 else Suc (scale_up (n - 1) (2 * x)))"
  by auto
termination
  by (relation "measure (\<lambda>(n, x). nat n)") auto

function scale_down :: "int \<Rightarrow> real \<Rightarrow> nat" where
  "scale_down n x = (if n \<le> 0 \<or> x < 2 ^ 53 then 0 else Suc (scale_down (n - 1) (x / 2)))"
  by auto
termination
  by (relation "measure (\<lambda>(n, x). nat n)") auto

declare scale_up.simps [simp del] scale_down.simps [simp del]

definition float64_abs :: "real \<Rightarrow> real" where
  "float64_abs x =
     (if x = 0 then 0 else if x < 2 ^ 53 then let k = scale_up 1074 x in of_int (round_even (x * 2 ^ k)) / 2 ^ k
      else let k = scale_down 971 x in of_int (round_even (x / 2 ^ k)) * 2 ^ k)"

definition float64 :: "real \<Rightarrow> real" where
  "float64 x = (if x < 0 then - float64_abs (- x) else float64_abs x)"

section \<open>Options\<close>

record bench_args =
  a_mode :: string
  a_recordsPerBatch :: int
  a_batches :: int
  a_recordBytes :: int
  a_iterations :: int
  a_seed :: u64
  a_outputDir :: string
  a_unitID :: string
  a_changeSlug :: string
  a_notes :: string
  a_flushSizeBytes :: int
  a_encodeConcurrency :: int
  a_uploadConcurrency :: int
  a_manifestAppendBatchSize :: int
  a_variedParamKind :: string
  a_variedParamName :: string
  a_variedParamBaseline :: string
  a_variedParamCandidate :: string

text \<open>The defaults of the flags.\<close>

definition flag_defaults :: bench_args where
  "flag_defaults = \<lparr>a_mode = ''exporter'', a_recordsPerBatch = 1000, a_batches = 100, a_recordBytes = 320, a_iterations = 5,
     a_seed = 42, a_outputDir = '''', a_unitID = '''', a_changeSlug = ''baseline'', a_notes = '''', a_flushSizeBytes = 1,
     a_encodeConcurrency = 1, a_uploadConcurrency = 1, a_manifestAppendBatchSize = 1, a_variedParamKind = '''',
     a_variedParamName = '''', a_variedParamBaseline = '''', a_variedParamCandidate = ''''\<rparr>"

text \<open>What \<^verbatim>\<open>parseArgs\<close> does with the parsed flags; an error is the exit status.\<close>

definition parseArgs :: "bench_args \<Rightarrow> nat + bench_args" where
  "parseArgs a =
     (if a_outputDir a = '''' then Inl 2
      else if a_unitID a = ''''
      then if a_mode a = ''exporter'' then Inr (a\<lparr>a_unitID := ''1.1''\<rparr>)
           else if a_mode a = ''producer'' then Inr (a\<lparr>a_unitID := ''1.2''\<rparr>)
           else Inl 2
      else Inr a)"

record unitMeta =
  um_id :: string
  um_title :: string
  um_stages :: "string list"
  um_scalarNames :: "string list"

definition unitTable :: "string \<rightharpoonup> unitMeta" where
  "unitTable = [
     ''1.1'' \<mapsto> \<lparr>um_id = ''1.1'', um_title = ''Benchmark current Go exporter marshal + durable wait latency'',
        um_stages = [''marshal'', ''enqueue'', ''await_durable''],
        um_scalarNames = [''total_throughput_records_per_sec'', ''total_throughput_bytes_per_sec'',
          ''p99_end_to_end_durable_latency_ms'']\<rparr>,
     ''1.2'' \<mapsto> \<lparr>um_id = ''1.2'', um_title = ''Benchmark current Go Buffer producer encode, S3/MinIO put, manifest append'',
        um_stages = [''encode'', ''compress'', ''object_put'', ''manifest_append''],
        um_scalarNames = [''total_throughput_records_per_sec'', ''manifest_cas_conflict_rate'']\<rparr>]"

definition variedParamObject :: "bench_args \<Rightarrow> (string \<times> string) list option" where
  "variedParamObject a =
     (if a_variedParamKind a = '''' \<or> a_variedParamName a = '''' \<or> a_variedParamBaseline a = '''' \<or> a_variedParamCandidate a = ''''
      then None
      else Some [(''kind'', a_variedParamKind a), (''name'', a_variedParamName a), (''baseline'', a_variedParamBaseline a),
                 (''candidate'', a_variedParamCandidate a)])"

section \<open>Workload\<close>

text \<open>The generator: a source from a seed, and a read of as many bytes as asked for.\<close>

record 'g rand_lib =
  rand_New :: "u64 \<Rightarrow> 'g"
  rand_Read :: "nat \<Rightarrow> 'g \<Rightarrow> bytes \<times> 'g"

text \<open>\<^verbatim>\<open>make\<close> panics on a negative length.\<close>

definition synthRecord :: "'g rand_lib \<Rightarrow> 'g \<Rightarrow> int \<Rightarrow> (bytes \<times> 'g) res" where
  "synthRecord lib rng target = (if target < 0 then Panic else Ok (rand_Read lib (nat target) rng))"

fun synth_records :: "'g rand_lib \<Rightarrow> nat \<Rightarrow> int \<Rightarrow> 'g \<Rightarrow> bytes list res" where
  "synth_records lib 0 recordBytes rng = Ok []"
| "synth_records lib (Suc n) recordBytes rng =
     obind (synthRecord lib rng recordBytes) (\<lambda>(e, rng).
     obind (synth_records lib n recordBytes rng) (\<lambda>out. Ok (e # out)))"

definition synthBatch :: "'g rand_lib \<Rightarrow> u64 \<Rightarrow> nat \<Rightarrow> int \<Rightarrow> int \<Rightarrow> bytes list res" where
  "synthBatch lib seed batchIdx recordsPerBatch recordBytes =
     (let mix = 0x9E3779B9; rng = rand_New lib (seed + of_nat batchIdx * mix) in
      if recordsPerBatch < 0 then Panic else synth_records lib (nat recordsPerBatch) recordBytes rng)"

record iterationResult =
  ir_Iteration :: int
  ir_StartedUnixMs :: int
  ir_ElapsedSeconds :: real
  ir_RecordsProcessed :: int
  ir_BytesProcessed :: int
  ir_StageObservations :: "(string \<times> real list) list"

section \<open>Statistics\<close>

record scalarAgg =
  sa_Median :: real
  sa_P10 :: real
  sa_P90 :: real
  sa_N :: nat

text \<open>\<^verbatim>\<open>s[int(float64(len(s)-1) * frac)]\<close>; an index out of range panics.\<close>

definition int_of_float :: "real \<Rightarrow> int" where
  "int_of_float x = (if x < 0 then \<lceil>x\<rceil> else \<lfloor>x\<rfloor>)"

definition quantile :: "real list \<Rightarrow> real \<Rightarrow> real res" where
  "quantile s q =
     (let idx = int_of_float (float64 (real_of_int (int (length s) - 1) * float64 q)) in
      if idx < 0 \<or> int (length s) \<le> idx then Panic else Ok (s ! nat idx))"

definition aggregate :: "real list \<Rightarrow> scalarAgg res" where
  "aggregate samples =
     (if length samples = 0 then Ok \<lparr>sa_Median = 0, sa_P10 = 0, sa_P90 = 0, sa_N = 0\<rparr>
      else let s = sort samples in
        obind (quantile s (1 / 2)) (\<lambda>med.
        obind (quantile s (1 / 10)) (\<lambda>p10.
        obind (quantile s (9 / 10)) (\<lambda>p90.
        Ok \<lparr>sa_Median = med, sa_P10 = p10, sa_P90 = p90, sa_N = length s\<rparr>))))"

definition bench_median :: "real list \<Rightarrow> real" where
  "bench_median samples =
     (if length samples = 0 then 0 else let s = sort samples in s ! (length s div 2))"

definition bench_percentile :: "real list \<Rightarrow> real \<Rightarrow> real res" where
  "bench_percentile samples q = (if length samples = 0 then Ok 0 else quantile (sort samples) q)"

definition bench_max :: "real \<Rightarrow> real \<Rightarrow> real" where
  "bench_max a b = (if a > b then a else b)"

definition sumOf :: "real list \<Rightarrow> real" where
  "sumOf s = foldl (\<lambda>t v. float64 (t + v)) 0 s"

text \<open>A quotient with divisor zero is an infinity or not a number: \<open>None\<close>.\<close>

definition float64_div :: "real \<Rightarrow> real \<Rightarrow> real option" where
  "float64_div x y = (if y = 0 then None else Some (float64 (x / y)))"

definition iterationElapsed :: "iterationResult list \<Rightarrow> real list" where
  "iterationElapsed rs = map ir_ElapsedSeconds rs"

definition stage_samples :: "iterationResult \<Rightarrow> string \<Rightarrow> real list" where
  "stage_samples r name = (case map_of (ir_StageObservations r) name of None \<Rightarrow> [] | Some s \<Rightarrow> s)"

definition throughput :: "int \<Rightarrow> iterationResult \<Rightarrow> real" where
  "throughput n r = float64 (float64 (of_int n) / bench_max (ir_ElapsedSeconds r) (float64 (1 / 10 ^ 9)))"

definition p99_latency_ms :: "bench_args \<Rightarrow> iterationResult \<Rightarrow> real res" where
  "p99_latency_ms a r =
     (let s = (if a_mode a = ''exporter'' then stage_samples r ''await_durable'' else stage_samples r ''append_total'') in
      obind (bench_percentile s (99 / 100)) (\<lambda>v. Ok (float64 (v * 1000))))"

record stageOut =
  so_Name :: string
  so_MedianMsPerOp :: real
  so_P10 :: real
  so_P90 :: real
  so_OpsPerSec :: "real option"

definition stage_out :: "iterationResult list \<Rightarrow> string \<Rightarrow> stageOut res" where
  "stage_out iters name =
     (let all = concat (map (\<lambda>r. stage_samples r name) iters) in
      obind (bench_percentile all (1 / 10)) (\<lambda>p10.
      obind (bench_percentile all (9 / 10)) (\<lambda>p90.
      Ok \<lparr>so_Name = name, so_MedianMsPerOp = float64 (bench_median all * 1000), so_P10 = float64 (p10 * 1000),
          so_P90 = float64 (p90 * 1000), so_OpsPerSec = float64_div (of_nat (length all)) (sumOf (iterationElapsed iters))\<rparr>)))"

fun res_list :: "'a res list \<Rightarrow> 'a list res" where
  "res_list [] = Ok []"
| "res_list (x # xs) = obind x (\<lambda>y. obind (res_list xs) (\<lambda>ys. Ok (y # ys)))"

definition bench_scalars :: "bench_args \<Rightarrow> iterationResult list \<Rightarrow> (string \<times> scalarAgg) list res" where
  "bench_scalars a iters =
     obind (res_list (map (p99_latency_ms a) iters)) (\<lambda>durLatencyP99Ms.
     obind (aggregate (map (\<lambda>r. throughput (ir_RecordsProcessed r) r) iters)) (\<lambda>recs.
     obind (aggregate (map (\<lambda>r. throughput (ir_BytesProcessed r) r) iters)) (\<lambda>bytes.
     obind (if a_mode a = ''exporter''
            then obind (aggregate durLatencyP99Ms) (\<lambda>p99. Ok (''p99_end_to_end_durable_latency_ms'', p99))
            else obind (aggregate (concat (map (\<lambda>r. stage_samples r ''_conflict_rate_const'') iters)))
              (\<lambda>cr. Ok (''manifest_cas_conflict_rate'', cr))) (\<lambda>third.
     Ok [(''total_throughput_records_per_sec'', recs), (''total_throughput_bytes_per_sec'', bytes), third]))))"

section \<open>Iterations\<close>

text \<open>
  A schedule says what an iteration measures and what runs while its calls block, as in \<open>Calls\<close>:
  for each append, the duration of the synthesis and of the call; for each wait, its latency.  The
  context is \<^verbatim>\<open>context.Background()\<close>, which never fires.
\<close>

record append_step =
  as_marshal :: real
  as_enqueue :: real
  as_waits :: "InMemory action list"
  as_now :: u64
  as_blocks :: "InMemory action list"
  as_fate :: append_fate

record bench_schedule =
  bs_started :: int
  bs_elapsed :: real
  bs_runID :: string
  bs_sandbox :: "(real \<times> real) list"
  bs_appends :: "append_step list"
  bs_awaits :: "(real \<times> InMemory action list) list"
  bs_flush :: "InMemory action list \<times> InMemory flush_fate"
  bs_close :: "InMemory action list \<times> InMemory flush_fate \<times> InMemory action list"

fun background :: "'s flush_fate \<Rightarrow> bool" where
  "background (FlushRefused r) = (r = None)"
| "background (FlushAnswered now waits r) = True"
| "background (FlushCanceled now waits err) = False"

definition bench_config :: "string \<Rightarrow> int \<Rightarrow> bench_args \<Rightarrow> ProducerConfig" where
  "bench_config unit iter a = \<lparr>
     cfg_DataPathPrefix = ''bench-'' @ unit @ ''/iter-'' @ show_int iter @ ''/data'',
     cfg_ManifestPath = ''bench-'' @ unit @ ''/iter-'' @ show_int iter @ ''/manifest'',
     cfg_FlushInterval = 50 * Millisecond, cfg_FlushSizeBytes = a_flushSizeBytes a, cfg_MaxBufferedInputs = 1024,
     cfg_BatchCompression = CompressionNone, cfg_Observer = False, cfg_EncodeConcurrency = a_encodeConcurrency a,
     cfg_UploadConcurrency = a_uploadConcurrency a, cfg_MaxInFlightBatches = 0, cfg_MaxInFlightBytes = 0,
     cfg_ManifestAppendBatchSize = a_manifestAppendBatchSize a, cfg_UploadMaxAttempts = 0, cfg_UploadInitialBackoff = 0,
     cfg_ManifestMaxAttempts = 0, cfg_ManifestInitialBackoff = 0\<rparr>"

text \<open>The loop of appends: the entries of each batch and its watcher.\<close>

fun append_loop ::
  "zstd_lib \<Rightarrow> (u64 set \<Rightarrow> u64 list) \<Rightarrow> 'g rand_lib \<Rightarrow> bench_args \<Rightarrow> append_step list \<Rightarrow> nat \<Rightarrow> InMemory pipeline \<Rightarrow>
     ((bytes list \<times> nat) list res \<times> InMemory pipeline) option" where
  "append_loop z order lib a [] batchIdx st = Some (Ok [], st)"
| "append_loop z order lib a (x # xs) batchIdx st =
     (case synthBatch lib (a_seed a) batchIdx (a_recordsPerBatch a) (a_recordBytes a) of
        Ok entries \<Rightarrow>
          Option.bind (Append z order (as_waits x) (as_now x) (as_blocks x) (as_fate x) entries [] st) (\<lambda>(h, st).
            case h of
              Err err \<Rightarrow> Some (Err (Prefixf ''Append'' err), st)
            | Panic \<Rightarrow> Some (Panic, st)
            | Ok w \<Rightarrow> map_option (\<lambda>(r, st). (obind r (\<lambda>ps. Ok ((entries, w) # ps)), st))
                        (append_loop z order lib a xs (batchIdx + 1) st))
      | Err err \<Rightarrow> Some (Err err, st)
      | Panic \<Rightarrow> Some (Panic, st))"

fun await_loop ::
  "zstd_lib \<Rightarrow> (u64 set \<Rightarrow> u64 list) \<Rightarrow> InMemory action list list \<Rightarrow> nat list \<Rightarrow> InMemory pipeline \<Rightarrow>
     (unit res \<times> InMemory pipeline) option" where
  "await_loop z order (waits # ws) (w # pendings) st =
     Option.bind (AwaitDurable_call z order waits None w st) (\<lambda>(r, st).
       case r of Some err \<Rightarrow> Some (Err (Prefixf ''AwaitDurable'' err), st) | None \<Rightarrow> await_loop z order ws pendings st)"
| "await_loop z order [] [] st = Some (Ok (), st)"
| "await_loop z order _ _ st = None"

definition bench_flush ::
  "zstd_lib \<Rightarrow> (u64 set \<Rightarrow> u64 list) \<Rightarrow> bench_schedule \<Rightarrow> InMemory pipeline \<Rightarrow> (unit res \<times> InMemory pipeline) option" where
  "bench_flush z order sch st =
     (case bs_flush sch of (blocks, fate) \<Rightarrow>
        if background fate
        then map_option (\<lambda>(r, st). (case r of None \<Rightarrow> Ok () | Some err \<Rightarrow> Err (Prefixf ''Flush'' err), st))
               (Flush z order blocks fate st)
        else None)"

definition bench_close ::
  "zstd_lib \<Rightarrow> (u64 set \<Rightarrow> u64 list) \<Rightarrow> bench_schedule \<Rightarrow> InMemory pipeline \<Rightarrow> (unit res \<times> InMemory pipeline) option" where
  "bench_close z order sch st =
     (case bs_close sch of (blocks, fate, waits) \<Rightarrow>
        if background fate
        then map_option (\<lambda>(r, st). (case r of None \<Rightarrow> Ok () | Some err \<Rightarrow> Err (Prefixf ''Close'' err), st))
               (Close z order blocks fate waits None st)
        else None)"

text \<open>A step that runs only when the one before returned nil.\<close>

definition andThen ::
  "('a res \<times> 's) option \<Rightarrow> ('a \<Rightarrow> 's \<Rightarrow> ('b res \<times> 's) option) \<Rightarrow> ('b res \<times> 's) option" where
  "andThen x f =
     Option.bind x (\<lambda>(r, st). case r of Ok y \<Rightarrow> f y st | Err err \<Rightarrow> Some (Err err, st) | Panic \<Rightarrow> Some (Panic, st))"

definition total_bytes :: "bytes list list \<Rightarrow> int" where
  "total_bytes batches = (\<Sum>entries \<leftarrow> batches. \<Sum>e \<leftarrow> entries. int (length e))"

definition total_records :: "bytes list list \<Rightarrow> int" where
  "total_records batches = (\<Sum>entries \<leftarrow> batches. int (length entries))"

definition runExporterIteration ::
  "zstd_lib \<Rightarrow> (u64 set \<Rightarrow> u64 list) \<Rightarrow> 'g rand_lib \<Rightarrow> bench_schedule \<Rightarrow> int \<Rightarrow> bench_args \<Rightarrow>
     (iterationResult res \<times> InMemory pipeline) option" where
  "runExporterIteration z order lib sch iter a =
     (let st = start InMemory_store (bench_config ''1.1'' iter a) (bs_runID sch) NewInMemory in
      if a_batches a < 0 then Some (Panic, st)
      else if length (bs_appends sch) \<noteq> nat (a_batches a) then None
      else andThen (append_loop z order lib a (bs_appends sch) 0 st) (\<lambda>pendings st.
        andThen (await_loop z order (map snd (bs_awaits sch)) (map snd pendings) st) (\<lambda>_ st.
        andThen (bench_flush z order sch st) (\<lambda>_ st.
        andThen (bench_close z order sch st) (\<lambda>_ st.
          Some (Ok \<lparr>ir_Iteration = iter, ir_StartedUnixMs = bs_started sch, ir_ElapsedSeconds = bs_elapsed sch,
            ir_RecordsProcessed = total_records (map fst pendings), ir_BytesProcessed = total_bytes (map fst pendings),
            ir_StageObservations = [(''marshal'', map as_marshal (bs_appends sch)), (''enqueue'', map as_enqueue (bs_appends sch)),
              (''await_durable'', map fst (bs_awaits sch))]\<rparr>, st))))))"

text \<open>Pass (a) of the producer mode: encode each batch and put it in a store of its own.\<close>

definition sandbox_path :: "int \<Rightarrow> nat \<Rightarrow> string" where
  "sandbox_path iter batchIdx =
     (let ds = show_int (int batchIdx) in
      ''bench-1.2/iter-'' @ show_int iter @ ''/sandbox/batch-'' @ replicate (8 - length ds) CHR ''0'' @ ds)"

fun sandbox_loop ::
  "zstd_lib \<Rightarrow> 'g rand_lib \<Rightarrow> int \<Rightarrow> bench_args \<Rightarrow> nat \<Rightarrow> nat \<Rightarrow> InMemory \<Rightarrow> bytes list list res \<times> InMemory" where
  "sandbox_loop z lib iter a 0 batchIdx m = (Ok [], m)"
| "sandbox_loop z lib iter a (Suc n) batchIdx m =
     (case obind (synthBatch lib (a_seed a) batchIdx (a_recordsPerBatch a) (a_recordBytes a)) (\<lambda>entries.
           case EncodeBatch z entries CompressionNone of
             Ok payload \<Rightarrow> Ok (entries, payload)
           | Err err \<Rightarrow> Err (Prefixf ''EncodeBatch'' err) | Panic \<Rightarrow> Panic) of
        Ok (entries, payload) \<Rightarrow>
          (case os_Put InMemory_store (sandbox_path iter batchIdx) payload m of
             (Some err, m) \<Rightarrow> (Err (Prefixf ''sandbox.Put'' err), m)
           | (None, m) \<Rightarrow> (case sandbox_loop z lib iter a n (batchIdx + 1) m of
               (r, m) \<Rightarrow> (obind r (\<lambda>bs. Ok (entries # bs)), m)))
      | Err err \<Rightarrow> (Err err, m)
      | Panic \<Rightarrow> (Panic, m))"

definition manifestAppendPerBatch :: "real list \<Rightarrow> real list \<Rightarrow> real \<Rightarrow> int \<Rightarrow> real" where
  "manifestAppendPerBatch encode object_put elapsed batches =
     (let perBatchTotal = float64 (elapsed / float64 (of_int batches));
          x = float64 (float64 (perBatchTotal - bench_median encode) - bench_median object_put)
      in if x < 0 then 0 else x)"

definition runProducerIteration ::
  "zstd_lib \<Rightarrow> (u64 set \<Rightarrow> u64 list) \<Rightarrow> 'g rand_lib \<Rightarrow> bench_schedule \<Rightarrow> int \<Rightarrow> bench_args \<Rightarrow>
     (iterationResult res \<times> InMemory pipeline) option" where
  "runProducerIteration z order lib sch iter a =
     (let st = start InMemory_store (bench_config ''1.2'' iter a) (bs_runID sch) NewInMemory;
          encode = map fst (bs_sandbox sch); object_put = map snd (bs_sandbox sch); n = nat (a_batches a) in
      if length (bs_sandbox sch) \<noteq> n then None
      else case fst (sandbox_loop z lib iter a n 0 NewInMemory) of
        Err err \<Rightarrow> Some (Err err, st)
      | Panic \<Rightarrow> Some (Panic, st)
      | Ok batches \<Rightarrow>
          if a_batches a < 0 then Some (Panic, st)
          else if length (bs_appends sch) \<noteq> n then None
          else andThen (append_loop z order lib a (bs_appends sch) 0 st) (\<lambda>pendings st.
            andThen (bench_flush z order sch st) (\<lambda>_ st.
            andThen (await_loop z order (map snd (bs_awaits sch)) (map snd pendings) st) (\<lambda>_ st.
            let conflictRate = float64 (ConflictRate (pl_prod st)) in
            andThen (bench_close z order sch st) (\<lambda>_ st.
              Some (Ok \<lparr>ir_Iteration = iter, ir_StartedUnixMs = bs_started sch, ir_ElapsedSeconds = bs_elapsed sch,
                ir_RecordsProcessed = total_records batches, ir_BytesProcessed = total_bytes batches,
                ir_StageObservations = [(''encode'', encode), (''compress'', replicate n 0), (''object_put'', object_put),
                  (''manifest_append'', replicate n (manifestAppendPerBatch encode object_put (bs_elapsed sch) (a_batches a))),
                  (''append_total'', map as_enqueue (bs_appends sch)), (''_conflict_rate_const'', [conflictRate])]\<rparr>, st))))))"

section \<open>Rounding\<close>

lemma round_even_upper: "y \<le> of_int m \<Longrightarrow> round_even y \<le> m"
proof (cases "y = of_int m")
  case False
  assume "y \<le> of_int m"
  with False have "\<lfloor>y\<rfloor> < m"
    by (simp add: floor_less_iff)
  then show ?thesis
    by (simp add: round_even_def Let_def)
qed (simp add: round_even_def)

lemma round_even_lower: "of_int m \<le> y \<Longrightarrow> m \<le> round_even y"
  using le_floor_iff [of m y] by (simp add: round_even_def Let_def)

lemma scale_up_pos: "0 < n \<Longrightarrow> x < 2 ^ 52 \<Longrightarrow> 0 < scale_up n x"
  by (subst scale_up.simps) simp

lemma float64_scaled:
  assumes "0 \<le> x" and "x < 2 ^ 53"
  shows "float64 x = of_int (round_even (x * 2 ^ scale_up 1074 x)) / 2 ^ scale_up 1074 x"
proof (cases "x = 0")
  case True
  then show ?thesis
    by (simp add: float64_def float64_abs_def round_even_def)
next
  case False
  have "\<not> x < 0"
    using assms(1) by simp
  with False assms(2) show ?thesis
    by (simp only: float64_def float64_abs_def Let_def if_True if_False)
qed

text \<open>Halves of integers up to \<open>2 ^ 53\<close> are representable, so rounding does not cross them.\<close>

lemma half_scaled: "0 < k \<Longrightarrow> of_int m / 2 * 2 ^ k = real_of_int (m * 2 ^ (k - 1))"
  by (cases k) auto

lemma float64_upper:
  assumes "0 \<le> x" and "x \<le> of_int m / 2" and "m < 2 ^ 53"
  shows "float64 x \<le> of_int m / 2"
proof -
  have "real_of_int m < real_of_int (2 ^ 53)"
    using assms(3) of_int_less_iff by blast
  then have x: "x < 2 ^ 52"
    using assms(2) by simp
  define k where "k = scale_up 1074 x"
  have k: "0 < k"
    unfolding k_def by (rule scale_up_pos [OF _ x]) simp
  have "x * 2 ^ k \<le> of_int m / 2 * 2 ^ k"
    by (rule mult_right_mono [OF assms(2)]) simp
  then have "round_even (x * 2 ^ k) \<le> m * 2 ^ (k - 1)"
    unfolding half_scaled [OF k] by (rule round_even_upper)
  then have "real_of_int (round_even (x * 2 ^ k)) \<le> of_int m / 2 * 2 ^ k"
    unfolding half_scaled [OF k] by (simp only: of_int_le_iff)
  moreover have "x < 2 ^ 53"
    using x by simp
  ultimately show ?thesis
    using float64_scaled [OF assms(1)] by (simp add: k_def [symmetric] pos_divide_le_eq)
qed

lemma float64_lower:
  assumes "of_int m / 2 \<le> x" and "0 \<le> m" and "x < 2 ^ 52"
  shows "of_int m / 2 \<le> float64 x"
proof -
  define k where "k = scale_up 1074 x"
  have k: "0 < k"
    unfolding k_def by (rule scale_up_pos [OF _ assms(3)]) simp
  have "of_int m / 2 * 2 ^ k \<le> x * 2 ^ k"
    by (rule mult_right_mono [OF assms(1)]) simp
  then have "m * 2 ^ (k - 1) \<le> round_even (x * 2 ^ k)"
    unfolding half_scaled [OF k] by (rule round_even_lower)
  then have "of_int m / 2 * 2 ^ k \<le> real_of_int (round_even (x * 2 ^ k))"
    unfolding half_scaled [OF k] by (simp only: of_int_le_iff)
  moreover have "0 \<le> real_of_int m"
    using assms(2) by simp
  then have "0 \<le> x"
    using assms(1) by linarith
  moreover have "x < 2 ^ 53"
    using assms(3) by simp
  ultimately show ?thesis
    using float64_scaled [of x] by (simp add: k_def [symmetric] pos_le_divide_eq)
qed

section \<open>Order statistics\<close>

definition quantile_index :: "real list \<Rightarrow> real \<Rightarrow> int" where
  "quantile_index s q = int_of_float (float64 (real_of_int (int (length s) - 1) * float64 q))"

lemma quantile_at:
  "0 \<le> quantile_index s q \<Longrightarrow> quantile_index s q < int (length s) \<Longrightarrow> quantile s q = Ok (s ! nat (quantile_index s q))"
  by (simp add: quantile_def quantile_index_def Let_def)

lemma quantile_index_upper:
  assumes "0 < length s" and "length s < 2 ^ 51" and "0 \<le> q" and "q \<le> of_int m / 2" and "m \<le> 2"
  shows "0 \<le> float64 (real_of_int (int (length s) - 1) * float64 q)"
    and "float64 (real_of_int (int (length s) - 1) * float64 q) \<le> of_int ((int (length s) - 1) * m) / 2"
proof -
  define n where "n = int (length s) - 1"
  have n: "0 \<le> n" "n < 2 ^ 51"
    using assms(1,2) by (auto simp: n_def)
  have f: "float64 q \<le> of_int m / 2"
    using assms(3-5) by (intro float64_upper) auto
  have "real_of_int m \<le> 2"
    using assms(5) by simp
  then have q: "q < 2 ^ 52"
    using assms(4) by simp
  have g: "0 \<le> float64 q"
    using float64_lower [of 0 q] assms(3) q by simp
  have up: "real_of_int n * float64 q \<le> of_int (n * m) / 2"
    using mult_left_mono [OF f, of "real_of_int n"] n(1) by simp
  have le: "n * m \<le> n * 2"
    using assms(5) n(1) by (intro mult_left_mono) auto
  have lo: "0 \<le> real_of_int n * float64 q"
    using g n(1) by simp
  have bound: "real_of_int (n * m) \<le> real_of_int (n * 2)"
    using le of_int_le_iff by blast
  have "real_of_int n < real_of_int (2 ^ 51)"
    using n(2) of_int_less_iff by blast
  then have "real_of_int n * float64 q < 2 ^ 52"
    using up bound by simp
  then show "0 \<le> float64 (real_of_int (int (length s) - 1) * float64 q)"
    using float64_lower [of 0 "real_of_int n * float64 q"] lo by (simp add: n_def)
  show "float64 (real_of_int (int (length s) - 1) * float64 q) \<le> of_int ((int (length s) - 1) * m) / 2"
    unfolding n_def [symmetric] using lo up le n by (intro float64_upper) auto
qed

lemma quantile_index_lower:
  assumes "0 < length s" and "length s < 2 ^ 51" and "1 / 2 \<le> q" and "q \<le> 1"
  shows "of_int (int (length s) - 1) / 2 \<le> float64 (real_of_int (int (length s) - 1) * float64 q)"
proof -
  define n where "n = int (length s) - 1"
  have n: "0 \<le> n" "n < 2 ^ 51"
    using assms(1,2) by (auto simp: n_def)
  have f: "1 / 2 \<le> float64 q" "float64 q \<le> 1"
    using float64_lower [of 1 q] float64_upper [of q 2] assms(3,4) by auto
  have lo: "of_int n / 2 \<le> real_of_int n * float64 q"
    using mult_left_mono [OF f(1), of "real_of_int n"] n(1) by simp
  have "real_of_int n * float64 q \<le> real_of_int n"
    using mult_left_mono [OF f(2), of "real_of_int n"] n(1) by simp
  moreover have "real_of_int n < real_of_int (2 ^ 51)"
    using n(2) of_int_less_iff by blast
  ultimately have "real_of_int n * float64 q < 2 ^ 52"
    by simp
  then show ?thesis
    unfolding n_def [symmetric] using lo n(1) by (intro float64_lower) auto
qed

text \<open>The three quantiles that are reported read the list in order and within its bounds.\<close>

lemma quantile_indices:
  assumes "0 < length s" and "length s < 2 ^ 51"
  shows "0 \<le> quantile_index s (1 / 10)" and "quantile_index s (1 / 10) \<le> quantile_index s (1 / 2)"
    and "quantile_index s (1 / 2) \<le> quantile_index s (9 / 10)" and "quantile_index s (9 / 10) < int (length s)"
    and "quantile_index s (1 / 2) = (int (length s) - 1) div 2"
proof -
  define n where "n = int (length s) - 1"
  let ?f = "\<lambda>q. float64 (real_of_int n * float64 q)"
  note up = quantile_index_upper [OF assms, folded n_def] and low = quantile_index_lower [OF assms, folded n_def]
  have nonneg: "0 \<le> ?f (1 / 10)" "0 \<le> ?f (1 / 2)" "0 \<le> ?f (9 / 10)"
    using up(1) [of "1 / 10" 1] up(1) [of "1 / 2" 1] up(1) [of "9 / 10" 2] by auto
  then have idx: "quantile_index s (1 / 10) = \<lfloor>?f (1 / 10)\<rfloor>" "quantile_index s (1 / 2) = \<lfloor>?f (1 / 2)\<rfloor>"
    "quantile_index s (9 / 10) = \<lfloor>?f (9 / 10)\<rfloor>"
    by (simp_all add: quantile_index_def int_of_float_def n_def)
  have a: "?f (1 / 10) \<le> of_int n / 2"
    using up(2) [of "1 / 10" 1] by simp
  have b: "?f (1 / 2) = of_int n / 2"
    using up(2) [of "1 / 2" 1] low [of "1 / 2"] by simp
  have c: "of_int n / 2 \<le> ?f (9 / 10)" "?f (9 / 10) \<le> of_int n"
    using low [of "9 / 10"] up(2) [of "9 / 10" 2] by auto
  show "0 \<le> quantile_index s (1 / 10)"
    using nonneg(1) by (simp add: idx)
  show "quantile_index s (1 / 10) \<le> quantile_index s (1 / 2)" "quantile_index s (1 / 2) \<le> quantile_index s (9 / 10)"
    unfolding idx b using a c(1) by (auto intro: floor_mono)
  have "\<lfloor>?f (9 / 10)\<rfloor> \<le> n"
    using floor_mono [OF c(2)] by simp
  then show "quantile_index s (9 / 10) < int (length s)"
    by (simp add: idx n_def)
  show "quantile_index s (1 / 2) = (int (length s) - 1) div 2"
    unfolding idx b n_def [symmetric] using floor_divide_of_int_eq [of n 2] by simp
qed

text \<open>
  C40.  The statistics of a report: for fewer than \<open>2 ^ 51\<close> samples, with the rounding of the
  index computation taken into account, \<^verbatim>\<open>aggregate\<close> never reads out of range.  It reports the
  number of samples, a median that is the lower of the two middle samples where there are two, and
  three samples with \<open>P10 \<le> Median \<le> P90\<close>.
\<close>

theorem aggregate_order_statistics:
  assumes "samples \<noteq> []" and "length samples < 2 ^ 51"
  shows "\<exists>g. aggregate samples = Ok g \<and> sa_N g = length samples \<and>
           sa_Median g = sort samples ! ((length samples - 1) div 2) \<and>
           {sa_P10 g, sa_Median g, sa_P90 g} \<subseteq> set samples \<and> sa_P10 g \<le> sa_Median g \<and> sa_Median g \<le> sa_P90 g"
proof -
  define s where "s = sort samples"
  have s: "0 < length s" "length s < 2 ^ 51" "length s = length samples" "sorted s" "set s = set samples"
    using assms by (auto simp: s_def)
  note i = quantile_indices [OF s(1,2)]
  let ?i = "quantile_index s"
  let ?g = "\<lparr>sa_Median = s ! nat (?i (1 / 2)), sa_P10 = s ! nat (?i (1 / 10)), sa_P90 = s ! nat (?i (9 / 10)), sa_N = length s\<rparr>"
  have q: "quantile s (1 / 2) = Ok (sa_Median ?g)" "quantile s (1 / 10) = Ok (sa_P10 ?g)" "quantile s (9 / 10) = Ok (sa_P90 ?g)"
    using i(1-4) by (simp_all add: quantile_at)
  have "aggregate samples = Ok ?g"
    using assms(1) q by (simp add: aggregate_def s_def [symmetric])
  moreover have "sa_P10 ?g \<le> sa_Median ?g" "sa_Median ?g \<le> sa_P90 ?g"
    using i(1-4) by (auto intro!: sorted_nth_mono [OF s(4)])
  moreover have "{sa_P10 ?g, sa_Median ?g, sa_P90 ?g} \<subseteq> set samples"
    unfolding s(5) [symmetric] using i(1-4) by auto
  moreover have "nat (?i (1 / 2)) = (length samples - 1) div 2"
    using i(5) s(1,3) by (simp add: nat_div_distrib of_nat_diff nat_diff_distrib')
  ultimately show ?thesis
    by (intro exI [of _ ?g]) (simp add: s(3) s_def [symmetric])
qed

theorem aggregate_order_statistics_witness:
  "\<exists>g. aggregate [3, 1, 4, 2] = Ok g \<and> sa_N g = length [3, 1, 4, 2 :: real] \<and> sa_Median g = 2 \<and>
     {sa_P10 g, sa_Median g, sa_P90 g} \<subseteq> {3, 1, 4, 2} \<and> sa_P10 g \<le> sa_Median g \<and> sa_Median g \<le> sa_P90 g"
  using aggregate_order_statistics [of "[3, 1, 4, 2]"] by simp

text \<open>\<^verbatim>\<open>median\<close> of the same four samples is the upper of the two.\<close>

lemma medians_differ: "bench_median [3, 1, 4, 2] = 3"
  by (simp add: bench_median_def)

section \<open>The workload of an iteration\<close>

text \<open>The \<^verbatim>\<open>switch\<close> of \<^verbatim>\<open>main\<close> over the mode, with the status the process exits with; a panic is status 2.\<close>

definition run_iteration ::
  "zstd_lib \<Rightarrow> (u64 set \<Rightarrow> u64 list) \<Rightarrow> 'g rand_lib \<Rightarrow> bench_schedule \<Rightarrow> int \<Rightarrow> bench_args \<Rightarrow> (nat + iterationResult) option" where
  "run_iteration z order lib sch iter a =
     (let exit = map_option (\<lambda>(r, _). case r of Ok x \<Rightarrow> Inr x | Err _ \<Rightarrow> Inl 1 | Panic \<Rightarrow> Inl 2) in
      if a_mode a = ''exporter'' then exit (runExporterIteration z order lib sch iter a)
      else if a_mode a = ''producer'' then exit (runProducerIteration z order lib sch iter a)
      else Some (Inl 2))"

text \<open>A generator fills the buffer it is given.\<close>

definition rand_fills :: "'g rand_lib \<Rightarrow> bool" where
  "rand_fills lib \<longleftrightarrow> (\<forall>n g. length (fst (rand_Read lib n g)) = n)"

lemma synthRecord_length:
  "rand_fills lib \<Longrightarrow> synthRecord lib rng target = Ok (e, rng') \<Longrightarrow> int (length e) = target"
  by (auto simp: synthRecord_def rand_fills_def split: if_splits) (metis fst_conv int_nat_eq not_less)

lemma synth_records_shape:
  assumes "rand_fills lib" and "synth_records lib n recordBytes rng = Ok es"
  shows "length es = n \<and> (\<Sum>e \<leftarrow> es. int (length e)) = int n * recordBytes"
  using assms(2)
proof (induction n arbitrary: rng es)
  case (Suc n)
  then show ?case
    using assms(1) synthRecord_length by (fastforce simp: outcome_simps algebra_simps)
qed simp

lemma synthBatch_shape:
  assumes "rand_fills lib" and "synthBatch lib seed i rpb rb = Ok es"
  shows "int (length es) = rpb" and "(\<Sum>e \<leftarrow> es. int (length e)) = rpb * rb"
  using synth_records_shape [OF assms(1)] assms(2) by (fastforce simp: synthBatch_def Let_def split: if_splits)+

definition shaped :: "bench_args \<Rightarrow> bytes list list \<Rightarrow> bool" where
  "shaped a bs \<longleftrightarrow> total_records bs = int (length bs) * a_recordsPerBatch a \<and>
     total_bytes bs = int (length bs) * (a_recordsPerBatch a * a_recordBytes a)"

lemma shaped_Nil: "shaped a []"
  by (simp add: shaped_def total_records_def total_bytes_def)

lemma shaped_Cons:
  assumes "rand_fills lib" and "synthBatch lib (a_seed a) i (a_recordsPerBatch a) (a_recordBytes a) = Ok es" and "shaped a bs"
  shows "shaped a (es # bs)"
  using synthBatch_shape [OF assms(1,2)] assms(3) by (simp add: shaped_def total_records_def total_bytes_def algebra_simps)

lemma append_loop_shaped:
  assumes "rand_fills lib" and "append_loop z order lib a xs i st = Some (Ok ps, st')"
  shows "length ps = length xs \<and> shaped a (map fst ps)"
  using assms(2)
proof (induction xs arbitrary: i st ps)
  case (Cons x xs)
  obtain es where es: "synthBatch lib (a_seed a) i (a_recordsPerBatch a) (a_recordBytes a) = Ok es"
    using Cons.prems by (auto split: res.splits)
  obtain h st1 where h: "Append z order (as_waits x) (as_now x) (as_blocks x) (as_fate x) es [] st = Some (h, st1)"
    using Cons.prems es by (auto simp: bind_eq_Some_conv)
  then obtain w where w: "h = Ok w"
    using Cons.prems es by (cases h) auto
  obtain ps1 where "append_loop z order lib a xs (i + 1) st1 = Some (Ok ps1, st')" "ps = (es, w) # ps1"
    using Cons.prems es h w by (auto simp: outcome_simps)
  then show ?case
    using Cons.IH shaped_Cons [OF assms(1) es] by fastforce
qed (simp add: shaped_Nil)

lemma sandbox_loop_shaped:
  assumes "rand_fills lib" and "sandbox_loop z lib iter a n i m = (Ok bs, m')"
  shows "length bs = n \<and> shaped a bs"
  using assms(2)
proof (induction n arbitrary: i m bs)
  case (Suc n)
  obtain es where es: "synthBatch lib (a_seed a) i (a_recordsPerBatch a) (a_recordBytes a) = Ok es"
    using Suc.prems by (cases "synthBatch lib (a_seed a) i (a_recordsPerBatch a) (a_recordBytes a)") auto
  obtain payload where enc: "EncodeBatch z es CompressionNone = Ok payload"
    using Suc.prems es by (cases "EncodeBatch z es CompressionNone") auto
  obtain m1 bs1 where "sandbox_loop z lib iter a n (i + 1) m1 = (Ok bs1, m')" "bs = es # bs1"
    using Suc.prems es enc by (auto simp: outcome_simps split: prod.splits option.splits)
  then show ?case
    using Suc.IH shaped_Cons [OF assms(1) es] by fastforce
qed (simp add: shaped_Nil)

lemma await_loop_length:
  "await_loop z order ws pendings st = Some (Ok u, st') \<Longrightarrow> length ws = length pendings"
  by (induction z order ws pendings st rule: await_loop.induct)
    (auto simp: bind_eq_Some_conv split: option.splits prod.splits)

lemma andThen_OkE:
  assumes "andThen x f = Some (Ok r, st')"
  obtains y st where "x = Some (Ok y, st)" "f y st = Some (Ok r, st')"
proof (cases x)
  case (Some p)
  then show ?thesis
    using assms that by (cases p; cases "fst p") (auto simp: andThen_def)
qed (use assms in \<open>simp add: andThen_def\<close>)

text \<open>What a result says of the workload.\<close>

definition counted :: "bench_args \<Rightarrow> iterationResult \<Rightarrow> string list \<Rightarrow> bool" where
  "counted a r stages \<longleftrightarrow> 0 \<le> a_batches a \<and> ir_RecordsProcessed r = a_batches a * a_recordsPerBatch a \<and>
     ir_BytesProcessed r = a_batches a * (a_recordsPerBatch a * a_recordBytes a) \<and>
     (\<forall>name \<in> set stages. int (length (stage_samples r name)) = a_batches a)"

lemma exporter_counted:
  assumes "rand_fills lib" and "runExporterIteration z order lib sch iter a = Some (Ok r, st')"
  shows "counted a r [''marshal'', ''enqueue'', ''await_durable'']"
proof -
  have n: "0 \<le> a_batches a" "length (bs_appends sch) = nat (a_batches a)"
    using assms(2) by (auto simp: runExporterIteration_def Let_def split: if_splits)
  from assms(2) n obtain ps st0 st1 st2 st3 u where
    "append_loop z order lib a (bs_appends sch) 0 st0 = Some (Ok ps, st1)"
    "await_loop z order (map snd (bs_awaits sch)) (map snd ps) st2 = Some (Ok u, st3)"
    "r = \<lparr>ir_Iteration = iter, ir_StartedUnixMs = bs_started sch, ir_ElapsedSeconds = bs_elapsed sch,
       ir_RecordsProcessed = total_records (map fst ps), ir_BytesProcessed = total_bytes (map fst ps),
       ir_StageObservations = [(''marshal'', map as_marshal (bs_appends sch)), (''enqueue'', map as_enqueue (bs_appends sch)),
         (''await_durable'', map fst (bs_awaits sch))]\<rparr>"
    by (auto simp: runExporterIteration_def Let_def elim!: andThen_OkE)
  with append_loop_shaped [OF assms(1)] await_loop_length n show ?thesis
    by (fastforce simp: counted_def shaped_def stage_samples_def)
qed

lemma producer_counted:
  assumes "rand_fills lib" and "runProducerIteration z order lib sch iter a = Some (Ok r, st')"
  shows "counted a r [''encode'', ''compress'', ''object_put'', ''manifest_append'', ''append_total'']"
proof -
  let ?n = "nat (a_batches a)"
  obtain bs m where bs: "sandbox_loop z lib iter a ?n 0 NewInMemory = (Ok bs, m)"
    using assms(2) by (cases "sandbox_loop z lib iter a ?n 0 NewInMemory")
      (auto simp: runProducerIteration_def Let_def split: if_splits res.splits)
  have n: "0 \<le> a_batches a" "length (bs_appends sch) = ?n" "length (bs_sandbox sch) = ?n"
    using assms(2) bs by (auto simp: runProducerIteration_def Let_def split: if_splits)
  have "ir_RecordsProcessed r = total_records bs \<and> ir_BytesProcessed r = total_bytes bs \<and>
      (\<exists>x c. ir_StageObservations r = [(''encode'', map fst (bs_sandbox sch)), (''compress'', replicate ?n 0),
         (''object_put'', map snd (bs_sandbox sch)), (''manifest_append'', replicate ?n x),
         (''append_total'', map as_enqueue (bs_appends sch)), (''_conflict_rate_const'', c)])"
    using assms(2) n bs by (auto simp: runProducerIteration_def Let_def elim!: andThen_OkE)
  with sandbox_loop_shaped [OF assms(1) bs] n show ?thesis
    by (auto simp: counted_def shaped_def stage_samples_def)
qed

lemma exit_Inr:
  "(case x of Ok y \<Rightarrow> Inr y | Err e \<Rightarrow> Inl c | Panic \<Rightarrow> Inl d) = Inr r \<Longrightarrow> x = Ok r"
  by (cases x) auto


text \<open>One iteration with one batch of two records of three bytes each.\<close>

definition sample_rand :: "u64 rand_lib" where
  "sample_rand = \<lparr>rand_New = (\<lambda>s. s), rand_Read = (\<lambda>n g. (replicate n (ucast g), g + 1))\<rparr>"

definition sample_args :: bench_args where
  "sample_args = flag_defaults\<lparr>a_outputDir := ''out'', a_batches := 1, a_recordsPerBatch := 2, a_recordBytes := 3\<rparr>"

definition sample_bench :: bench_schedule where
  "sample_bench = \<lparr>bs_started = 7, bs_elapsed = 2, bs_runID = ''run'', bs_sandbox = [],
     bs_appends = [\<lparr>as_marshal = 1, as_enqueue = 1, as_waits = [], as_now = 5, as_blocks = [], as_fate = Sends\<rparr>],
     bs_awaits = [(1, RotatorA CaseMessage 12 # sample_delivery)], bs_flush = ([], FlushAnswered 15 [] None),
     bs_close = ([], FlushAnswered 16 [] None, [RotatorA CaseClosed 20])\<rparr>"

lemma sample_iteration:
  "map_option (case_sum (\<lambda>_. False) (\<lambda>_. True)) (run_iteration stored_zstd sorted_list_of_set sample_rand sample_bench 1 (sample_args\<lparr>a_unitID := ''1.1''\<rparr>)) = Some True"
  by code_simp

lemma run_Inr: "map_option (case_sum (\<lambda>_. False) (\<lambda>_. True)) x = Some True \<Longrightarrow> \<exists>r. x = Some (Inr r)"
  by (cases x; cases "the x") auto


end
