(* ===== verification/Spec2Isabelle.thy ===== *)
theory Spec2Isabelle
  imports Batch Manifest Objstore Enqueuer Budget Watcher Rotator Uploader Commits Exporter Gauges Bench
begin

text \<open>
  Verification of \<^verbatim>\<open>opendata-go\<close>: a producer that buffers entries, writes them as batches to an object
  store and lists the batches in a manifest by compare-and-swap; an OpenTelemetry exporter built on
  it; and a benchmark command.

  \<^bold>\<open>The program.\<close>  A caller hands entries to \<^verbatim>\<open>Producer.Append\<close>, which reserves their bytes in a
  budget and sends a message to the rotator.  The rotator groups messages into batches; a pool of
  encoders serialises them, a pool of uploaders puts them in the store, the committer appends their
  locations to the manifest in order, and the resolver tells the callers' watchers the outcome and
  returns the budget.  \<^verbatim>\<open>Flush\<close> and \<^verbatim>\<open>Close\<close> wait for this to finish.  The exporter marshals each
  collector request, appends it, and waits until it is durable.

  \<^bold>\<open>Codecs and stores.\<close>
  \<^item> \<open>Prelude\<close>, \<open>Errors\<close>: bytes, words, the outcome of a Go call (value, error, panic), \<^verbatim>\<open>buffer/error.go\<close>.
  \<^item> \<open>Batch\<close> (\<^verbatim>\<open>buffer/batch.go\<close>), \<open>Manifest\<close> (\<^verbatim>\<open>buffer/manifest.go\<close>, the format): round trips, no panic on any
    input, the rejected inputs, refinement of appending by an abstract queue.
  \<^item> \<open>Objstore\<close> (\<^verbatim>\<open>objstore/\<close>): the interface, the in-memory store and the S3 adapter.  The locale \<open>cas_store\<close>
    is the contract of the conditional put, \<open>exact_store\<close> that of a store without spurious failures;
    both are interpreted on the in-memory store, and the S3 adapter is shown to meet the first.
  \<^item> \<open>Enqueuer\<close> (\<^verbatim>\<open>buffer/manifest.go\<close>, the enqueuer): a call that succeeds is one atomic append
    whatever other clients do; the loop returns; racing producers serialise.

  \<^bold>\<open>The producer\<close> (\<^verbatim>\<open>buffer/producer.go\<close>, \<^verbatim>\<open>budget.go\<close>, \<^verbatim>\<open>config.go\<close>, \<^verbatim>\<open>observer.go\<close>).
  \<^item> \<open>Signals\<close>, \<open>Budget\<close>: the budget and its waiters; \<open>budget_wait\<close> states that no wakeup is lost, and is
    interpreted for the three kinds of wait.
  \<^item> \<open>Config\<close>, \<open>Watcher\<close>, \<open>Accumulator\<close>, \<open>Producer\<close>: data shared by the goroutines.
  \<^item> \<open>Rotator\<close>, \<open>Uploader\<close> (encoder and uploader), \<open>Committer\<close>, \<open>Commits\<close>, \<open>Resolver\<close>: the body of each
    goroutine and its contract.  \<open>commit_invariant\<close> and \<open>commit_log\<close> carry a property of one manifest
    write through the committer, \<open>manifest_clients\<close> instantiates them with the retry loop.
  \<^item> \<open>Pipeline\<close>: the goroutines and the callers as one state with one executable action per step;
    a run is a list of actions, so every interleaving is a run.
  \<^item> \<open>Accounting\<close>, \<open>Runs\<close>: where each message, batch and byte is; the budget is exact, watchers are resolved
    once, nothing panics before \<^verbatim>\<open>Close\<close>.  \<open>Progress\<close>: the pipeline drains; what \<^verbatim>\<open>Flush\<close> and \<^verbatim>\<open>Close\<close> promise.
  \<^item> \<open>Durability\<close>: a watcher that reports nil stands for entries that can be read back from the store.
  \<^item> \<open>Calls\<close>: the client calls from entry to return.

  \<^bold>\<open>The exporter\<close> (\<^verbatim>\<open>exporter/opendataexporter/\<close>).
  \<^item> \<open>ExporterConfig\<close> (\<^verbatim>\<open>config.go\<close>, \<^verbatim>\<open>metadata.go\<close>, \<^verbatim>\<open>factory.go\<close>), \<open>Telemetry\<close> (\<^verbatim>\<open>telemetry.go\<close>),
    \<open>Exporter\<close> (\<^verbatim>\<open>exporter.go\<close>, \<^verbatim>\<open>factory.go\<close>): the configuration that reaches the producer, the kinds of the
    instruments, and the counts of requests and failures.
  \<^item> \<open>Gauges\<close>: the pending-inputs instrument against the producer's state.
  \<^item> This theory: a metrics request acknowledged by an exporter on S3 can be read back from the bucket.

  \<^bold>\<open>The benchmark\<close> (\<^verbatim>\<open>cmd/bench/main.go\<close>).  \<open>Bench\<close>: options, workload, both modes over \<open>Calls\<close>, and the
  statistics with the rounding of \<^verbatim>\<open>float64\<close>.

  \<^bold>\<open>Parameters.\<close>  Code outside the repository is an argument, with what is relied on as hypotheses:
  zstd (decompression inverts compression), the S3 client (\<open>s3_contract\<close>), the AWS configuration, the
  meter (an instrument has the kind and name it was created with), the OTLP marshalers, the
  collector's queue configuration, the random generator of the benchmark (it fills its buffer).
  Clocks, run identifiers, the order in which a map is traversed, the choice of a ready \<^verbatim>\<open>select\<close> case
  and the actions of other clients are arguments too, and the theorems hold for all of them.

  \<^bold>\<open>Bounds.\<close>  Loops that may not end (the manifest retries) are partial functions, and their returning is
  proved separately.  Runs have fewer than \<open>2 ^ 64 - 1\<close> actions, so that ordinals do not wrap; the
  statistics have fewer than \<open>2 ^ 51\<close> samples, so that every index is exact.  Goroutine steps
  are atomic at the granularity of channel operations and locked sections.

  \<^bold>\<open>Not modelled.\<close>  The durations the observer receives inside the producer (events carry the other
  arguments); the memory capacity of slices; registration with the collector (\<^verbatim>\<open>NewFactory\<close>, which
  only names modelled functions); the flag parser of the benchmark and its report files, JSON, git and host
  metadata, which are file and process I/O; infinities and NaN in the reported numbers beyond marking
  a division by zero; test programs, scripts and build files.
\<close>

section \<open>From a collector request to the bucket\<close>

text \<open>A deployment of the exporter on an S3 bucket.\<close>

lemma deployed_S3:
  assumes "s3_contract client bucket (dp_objs D)"
    and "\<forall>r name. dp_manifest D \<noteq> cfg_DataPathPrefix (dp_config D) @ ''/'' @ r @ ''/'' @ name"
    and "cfg_ManifestAppendBatchSize (dp_config D) < 2 ^ 63"
  shows "deployed (S3_store client bucket) D"
proof -
  have "dp_location D n \<noteq> dp_manifest D" for n using assms(2) [rule_format, of "dp_runID D" "hex16 n"] by (simp add: location_of_def)
  then show ?thesis
    using S3_store_cas [OF assms(1)] assms(3) by (simp add: deployed_def deployed_axioms_def)
qed

text \<open>
  C2. A metrics request that returns nil is durable.  For an exporter built by the factory and started on
  its S3 bucket, whatever the producer has done before, whatever other requests, workers, retries and
  other producers do meanwhile: if \<^verbatim>\<open>ConsumeMetrics\<close> returns nil, the request was marshaled and its
  payload is, as one record, in a data object of the bucket that decodes and that the manifest lists,
  under metadata that carries the OTLP metrics header.
\<close>

theorem consumed_metrics_are_durable:
  assumes "newOpenDataExporterForSignalWithTelemetry aws noop cfg SignalTypeMetrics settings = Ok e"
    and "newObjectStore aws (xc_ObjectStore cfg) = Ok S" and "deployed S D" and "order_ok order"
    and "zstd_roundtrip (dp_zstd D)" and "compressionTypeFromString (xc_Compression cfg) = Ok compression"
    and "dp_config D = exporter_producerConfig cfg compression" and "queue_at (dp_objs D s) (dp_manifest D) (dp_queue D)"
    and "Start queue_Validate (dp_runID D) s \<lparr>gw_exporter = e, gw_producers = [], gw_calls = []\<rparr> = Ok gw"
    and "exec_all (dp_zstd D) order acts (gw_producers gw ! 0) = Some st"
    and "ConsumeMetrics pm (dp_zstd D) order ck sch md (set_producer 0 st gw) = Some (Ok (), gw')"
    and "list_all (friendly D) (acts @ sch_waits sch @ sch_blocks sch @ sch_awaits sch)"
    and "length acts + length (request_actions sch [] [] 0) < 2 ^ 64 - 1"
    and "\<forall>buf i. MarshalMetrics pm md = Ok buf \<longrightarrow> all_states (rotOut_fits D) (dp_zstd D) order
      (acts @ request_actions sch buf (x_metadata (gw_exporter gw)) i) (gw_producers gw ! 0)"
  shows "\<exists>buf m. MarshalMetrics pm md = Ok buf \<and> am_entries m = [buf] \<and> am_metadata m = [1, 1, 1, 0] \<and>
    am_ingestionTimeMs m = sch_now sch \<and> retrievable D (dp_objs D (pl_store (gw_producers gw' ! 0))) m"
proof -
  note started = Start_producer [OF assms(1,9,2,6)]
  have st: "gw_producers gw = [start S (dp_config D) (dp_runID D) s]" "x_producer (gw_exporter gw) = Some 0"
    "x_metadata (gw_exporter gw) = EncodeMetadata SignalTypeMetrics PayloadEncodingOTLP" "dp_config D = apply_defaults (dp_config D)"
    using started assms(7) by simp_all
  obtain buf gw1 gw2 where buf: "MarshalMetrics pm md = Ok buf"
    and app: "appendAndAwait (dp_zstd D) order ck sch buf gw1 = Some (Ok (), gw2)"
    and gw1: "gw_exporter gw1 = gw_exporter gw" "gw_producers gw1 = [st]" and gw': "gw_producers gw' = gw_producers gw2"
    using ConsumeMetrics_ok [OF assms(11)] st(1) by (metis list_update_code(2) set_producer_simps(2,3))
  have meta: "x_metadata (gw_exporter gw1) = [1, 1, 1, 0]" "x_producer (gw_exporter gw1) = Some 0"
    using gw1(1) st(2,3) by (simp_all add: EncodeMetadata_def MetadataVersion_def SignalTypeMetrics_def PayloadEncodingOTLP_def)
  have "exec_all (dp_zstd D) order acts (start S (dp_config D) (dp_runID D) s) = Some st" using assms(10) st(1) by simp
  from appended_request_durable [OF assms(3,4,5) st(4) assms(8) this app meta(2) gw1(2) assms(12)] show ?thesis
    using assms(13,14) buf gw1(1) st(1) meta(1) gw' by (simp add: request_actions_def)
qed

text \<open>The sample request on a started exporter.\<close>

definition bucket_deployment :: "InMemory deployment" where
  "bucket_deployment = \<lparr>dp_zstd = stored_zstd, dp_objs = InMemory_objects,
     dp_config = exporter_producerConfig sample_config CompressionZstd, dp_runID = ''run'', dp_queue = q_empty\<rparr>"

abbreviation bucket_start :: "InMemory pipeline" where
  "bucket_start \<equiv> start (S3_store counter_client ''b'') (exporter_producerConfig sample_config CompressionZstd) ''run'' NewInMemory"

lemma bucket_deployed: "deployed (S3_store counter_client ''b'') bucket_deployment"
  by (rule deployed_S3)
    (simp_all add: bucket_deployment_def counter_client_contract exporter_producerConfig_def sample_config_def createDefaultConfig_def
      defaultMetricsManifestPath_def defaultMetricsDataPathPrefix_def DefaultManifestAppendBatchSize_def)

lemma bucket_request:
  "Option.bind (Append stored_zstd sorted_list_of_set [] 5 [] Sends [[1, 2]] [1, 1, 1, 0] bucket_start) (\<lambda>(handle, p).
     case handle of
       Ok w \<Rightarrow> map_option fst (AwaitDurable_call stored_zstd sorted_list_of_set (RotatorA CaseFlush 12 # sample_delivery) None w p)
     | _ \<Rightarrow> None) = Some None"
  by code_simp

definition bucket_fits :: "InMemory pipeline \<Rightarrow> bool" where
  "bucket_fits st \<longleftrightarrow> (case pl_rotOut st of None \<Rightarrow> True | Some pb \<Rightarrow> pb_ordinal pb = 0 \<and> pb_entries pb = [[1, 2]] \<and>
     pb_metadata pb = [\<lparr>StartIndex = 0, IngestionTimeMs = 5, Payload = [1, 1, 1, 0]\<rparr>])"

lemma bucket_fits_rotOut: "bucket_fits st \<Longrightarrow> rotOut_fits bucket_deployment st"
  by (auto simp: bucket_fits_def rotOut_fits_def item_fits_def entry_fits_def entry_checked_def item_entry_def MaxUint32_def
      entry_body_def metadata_bytes_def location_of_def bucket_deployment_def exporter_producerConfig_def sample_config_def
      createDefaultConfig_def defaultMetricsDataPathPrefix_def split: option.splits)

lemma bucket_fits_run:
  "all_states bucket_fits stored_zstd sorted_list_of_set (request_actions sample_schedule [1, 2] [1, 1, 1, 0] i) bucket_start"
proof (cases i)
  case 0
  have "all_states bucket_fits stored_zstd sorted_list_of_set (request_actions sample_schedule [1, 2] [1, 1, 1, 0] 0) bucket_start"
    by code_simp
  then show ?thesis using 0 by simp
next
  case (Suc j)
  have "map_option (\<lambda>st. (length (pl_sending st), bucket_fits st))
      (exec stored_zstd sorted_list_of_set (ReserveA [[1, 2]] [1, 1, 1, 0] 5) bucket_start) = Some (1, True) \<and> bucket_fits bucket_start"
    by code_simp
  then obtain st1 where st1: "exec stored_zstd sorted_list_of_set (ReserveA [[1, 2]] [1, 1, 1, 0] 5) bucket_start = Some st1"
    "length (pl_sending st1) = 1" "bucket_fits st1" "bucket_fits bucket_start" by auto
  have "exec stored_zstd sorted_list_of_set (SendA i) st1 = None" using st1(2) Suc by (simp add: exec_def AppendContext_send_def)
  then show ?thesis using st1 by (simp add: request_actions_def)
qed

theorem consumed_metrics_are_durable_witness:
  "\<exists>e gw gw' m. newOpenDataExporterForSignalWithTelemetry sample_aws naming_meter sample_config SignalTypeMetrics
      \<lparr>ts_meterProvider = Some naming_meter\<rparr> = Ok e \<and>
    Start (\<lambda>_. None) ''run'' NewInMemory \<lparr>gw_exporter = e, gw_producers = [], gw_calls = []\<rparr> = Ok gw \<and>
    ConsumeMetrics sample_pmetric stored_zstd sorted_list_of_set zero_clock sample_schedule [1, 2] gw = Some (Ok (), gw') \<and>
    am_entries m = [[1, 2]] \<and> retrievable bucket_deployment (InMemory_objects (pl_store (gw_producers gw' ! 0))) m"
proof -
  let ?z = stored_zstd and ?ord = sorted_list_of_set
  obtain e where e: "newOpenDataExporterForSignalWithTelemetry sample_aws naming_meter sample_config SignalTypeMetrics
      \<lparr>ts_meterProvider = Some naming_meter\<rparr> = Ok e" "x_config e = sample_config" "x_producer e = None"
    "x_storeFactory e = newObjectStore sample_aws" "x_signalType e = SignalTypeMetrics" by (rule sample_exporter)
  have comp: "compressionTypeFromString (xc_Compression sample_config) = Ok CompressionZstd" by code_simp
  obtain gw where gw: "Start (\<lambda>_. None) ''run'' NewInMemory \<lparr>gw_exporter = e, gw_producers = [], gw_calls = []\<rparr> = Ok gw"
      "x_signalType (gw_exporter gw) = SignalTypeMetrics"
    using e sample_config_valid sample_newObjectStore comp by (simp add: Start_def Let_def)
  note started = Start_producer [OF e(1) gw(1) sample_newObjectStore comp]
  have meta: "x_metadata (gw_exporter gw) = [1, 1, 1, 0]"
    using started(3) by (simp add: EncodeMetadata_def MetadataVersion_def SignalTypeMetrics_def PayloadEncodingOTLP_def)
  obtain handle p where "Append ?z ?ord [] 5 [] Sends [[1, 2]] [1, 1, 1, 0] bucket_start = Some (handle, p)"
    using bucket_request by (auto simp: bind_eq_Some_conv)
  with bucket_request obtain w p' where "Append ?z ?ord [] 5 [] Sends [[1, 2]] [1, 1, 1, 0] bucket_start = Some (Ok w, p)"
    "AwaitDurable_call ?z ?ord (RotatorA CaseFlush 12 # sample_delivery) None w p = Some (None, p')"
    by (cases handle) auto
  then obtain gw' where run: "ConsumeMetrics sample_pmetric ?z ?ord zero_clock sample_schedule [1, 2] gw = Some (Ok (), gw')"
    using gw(2) started(1,2) meta by (simp add: ConsumeMetrics_def appendAndAwait_def sample_pmetric_def Let_def)
  have same: "set_producer 0 bucket_start gw = gw" using started(1) by (simp add: set_producer_def)
  have fits: "all_states (rotOut_fits bucket_deployment) ?z ?ord (request_actions sample_schedule [1, 2] [1, 1, 1, 0] i) bucket_start" for i
    by (rule all_states_mono [OF bucket_fits_rotOut bucket_fits_run])
  have "queue_at (InMemory_objects NewInMemory) p q_empty" for p
    by (simp add: queue_at_def queue_fits_def q_empty_def NewInMemory_def InMemory_objects_def)
  with consumed_metrics_are_durable [OF e(1) sample_newObjectStore bucket_deployed sorted_order_ok, of CompressionZstd NewInMemory
      "\<lambda>_. None" gw "[]" bucket_start sample_pmetric zero_clock sample_schedule "[1, 2]" gw'] show ?thesis
    using e(1) gw(1) run same started(1) fits meta stored_zstd_roundtrip comp
    by (simp add: bucket_deployment_def sample_delivery_def idle_friend sample_pmetric_def request_actions_def) blast
qed

end
